(* ===== verification/Gateway_Prelude.thy ===== *)
theory Gateway_Prelude
  imports Complex_Main "HOL-Library.Word" "HOL-Library.AList" "HOL-Library.Multiset"
begin

text \<open>
  What every component of the gateway shares: the outcome type that carries Rust's
  \<^verbatim>\<open>Result\<close>, panics and endless loops; the two views of \<^verbatim>\<open>f64\<close>; durations and
  instants; the string operations the topics go through; and a locale for the invariants
  of state machines that are stepped by their environment.
\<close>

named_theorems f64x_simps \<open>evaluation rules of extended floats\<close>

named_theorems outcome_simps \<open>evaluation rules of outcomes\<close>

section \<open>Outcomes\<close>

text \<open>
  An error of the code is an \<^verbatim>\<open>anyhow\<close> message: its text with the values formatted
  into it, possibly wrapped in the context a caller adds with \<^verbatim>\<open>with_context\<close>. A run
  that does not return at all is an abort: a panic, or a loop that never ends. The third
  abort marks a place where the model's finite number type would have to hold an infinity
  or a NaN; the lemmas show where it cannot happen.
\<close>

datatype arg = S string | N real | W nat

datatype err = E string "arg list" | Ctx string "arg list" err

datatype abort = Panicked | Looping | NonFinite

datatype 'a outcome = Ok 'a | Err err | Abort abort

fun bind_outcome :: "'a outcome \<Rightarrow> ('a \<Rightarrow> 'b outcome) \<Rightarrow> 'b outcome" where
  "bind_outcome (Ok x) f = f x"
| "bind_outcome (Err e) f = Err e"
| "bind_outcome (Abort a) f = Abort a"

fun ok_or :: "'a option \<Rightarrow> err \<Rightarrow> 'a outcome" where
  "ok_or (Some x) e = Ok x"
| "ok_or None e = Err e"

fun with_context :: "'a outcome \<Rightarrow> string \<Rightarrow> arg list \<Rightarrow> 'a outcome" where
  "with_context (Ok x) s as = Ok x"
| "with_context (Err e) s as = Err (Ctx s as e)"
| "with_context (Abort a) s as = Abort a"

fun is_ok :: "'a outcome \<Rightarrow> bool" where
  "is_ok (Ok x) = True"
| "is_ok (Err e) = False"
| "is_ok (Abort a) = False"

text \<open>\<^verbatim>\<open>collect::<Result<_>>()\<close>: the first failure wins, in iteration order.\<close>

fun collect_outcome :: "'a outcome list \<Rightarrow> 'a list outcome" where
  "collect_outcome [] = Ok []"
| "collect_outcome (x # xs) = bind_outcome x (\<lambda>y. bind_outcome (collect_outcome xs) (\<lambda>ys. Ok (y # ys)))"

section \<open>Numbers\<close>

text \<open>
  A \<^verbatim>\<open>f64\<close> that comes out of JSON (a command, a cached reading, a field of the spec) is
  finite: \<^verbatim>\<open>serde_json\<close> has no infinities and no NaN. Such numbers, and what the code
  computes from them without dividing by zero, are reals here; rounding and overflow to
  infinity are not modelled. Where the code itself brings in an infinity, or divides by a
  number that can be zero, the value is an extended float with IEEE's rules for the
  special values. Zero carries no sign.
\<close>

type_synonym f64 = real

datatype f64x = Fin f64 | PosInf | NegInf | NaN

definition EPSILON :: f64 where
  "EPSILON = 1 / 4503599627370496"

instantiation f64x :: "{plus, minus, uminus, times, inverse, ord}"
begin

fun plus_f64x :: "f64x \<Rightarrow> f64x \<Rightarrow> f64x" where
  "plus_f64x (Fin a) (Fin b) = Fin (a + b)"
| "plus_f64x NaN y = NaN"
| "plus_f64x x NaN = NaN"
| "plus_f64x PosInf NegInf = NaN"
| "plus_f64x NegInf PosInf = NaN"
| "plus_f64x PosInf y = PosInf"
| "plus_f64x NegInf y = NegInf"
| "plus_f64x x PosInf = PosInf"
| "plus_f64x x NegInf = NegInf"

fun uminus_f64x :: "f64x \<Rightarrow> f64x" where
  "uminus_f64x (Fin a) = Fin (- a)"
| "uminus_f64x PosInf = NegInf"
| "uminus_f64x NegInf = PosInf"
| "uminus_f64x NaN = NaN"

definition minus_f64x :: "f64x \<Rightarrow> f64x \<Rightarrow> f64x" where
  "minus_f64x x y = x + (- y)"

definition inf_of_sign :: "real \<Rightarrow> f64x" where
  "inf_of_sign s = (if s > 0 then PosInf else if s < 0 then NegInf else NaN)"

fun times_f64x :: "f64x \<Rightarrow> f64x \<Rightarrow> f64x" where
  "times_f64x (Fin a) (Fin b) = Fin (a * b)"
| "times_f64x NaN y = NaN"
| "times_f64x x NaN = NaN"
| "times_f64x PosInf PosInf = PosInf"
| "times_f64x PosInf NegInf = NegInf"
| "times_f64x NegInf PosInf = NegInf"
| "times_f64x NegInf NegInf = PosInf"
| "times_f64x PosInf (Fin b) = inf_of_sign b"
| "times_f64x NegInf (Fin b) = inf_of_sign (- b)"
| "times_f64x (Fin a) PosInf = inf_of_sign a"
| "times_f64x (Fin a) NegInf = inf_of_sign (- a)"

fun divide_f64x :: "f64x \<Rightarrow> f64x \<Rightarrow> f64x" where
  "divide_f64x (Fin a) (Fin b) = (if b = 0 then inf_of_sign a else Fin (a / b))"
| "divide_f64x NaN y = NaN"
| "divide_f64x x NaN = NaN"
| "divide_f64x (Fin a) y = Fin 0"
| "divide_f64x PosInf (Fin b) = (if b < 0 then NegInf else PosInf)"
| "divide_f64x NegInf (Fin b) = (if b < 0 then PosInf else NegInf)"
| "divide_f64x x y = NaN"

definition inverse_f64x :: "f64x \<Rightarrow> f64x" where
  "inverse_f64x x = divide (Fin 1) x"

fun less_f64x :: "f64x \<Rightarrow> f64x \<Rightarrow> bool" where
  "less_f64x (Fin a) (Fin b) = (a < b)"
| "less_f64x (Fin a) PosInf = True"
| "less_f64x NegInf (Fin b) = True"
| "less_f64x NegInf PosInf = True"
| "less_f64x x y = False"

definition less_eq_f64x :: "f64x \<Rightarrow> f64x \<Rightarrow> bool" where
  "less_eq_f64x x y \<longleftrightarrow> x < y \<or> (x = y \<and> x \<noteq> NaN)"

instance ..

end

text \<open>\<^verbatim>\<open>f64::max\<close> and \<^verbatim>\<open>f64::min\<close> return the other operand when one is NaN.\<close>

definition max_f64x :: "f64x \<Rightarrow> f64x \<Rightarrow> f64x" where
  "max_f64x x y = (if x = NaN then y else if y = NaN then x else if x < y then y else x)"

definition min_f64x :: "f64x \<Rightarrow> f64x \<Rightarrow> f64x" where
  "min_f64x x y = (if x = NaN then y else if y = NaN then x else if y < x then y else x)"

text \<open>\<^verbatim>\<open>f64::clamp\<close> asserts \<^verbatim>\<open>min <= max\<close>, which a NaN bound fails too.\<close>

definition clamp_f64x :: "f64x \<Rightarrow> f64x \<Rightarrow> f64x \<Rightarrow> f64x outcome" where
  "clamp_f64x x lo hi =
     (if lo \<le> hi then Ok (if x < lo then lo else if hi < x then hi else x) else Abort Panicked)"

definition clamp :: "f64 \<Rightarrow> f64 \<Rightarrow> f64 \<Rightarrow> f64 outcome" where
  "clamp x lo hi =
     (if lo \<le> hi then Ok (if x < lo then lo else if hi < x then hi else x) else Abort Panicked)"

fun to_finite :: "f64x \<Rightarrow> f64 outcome" where
  "to_finite (Fin a) = Ok a"
| "to_finite x = Abort NonFinite"

fun is_finite :: "f64x \<Rightarrow> bool" where
  "is_finite (Fin a) = True"
| "is_finite x = False"

text \<open>\<^verbatim>\<open>f64::signum\<close> on a number without a signed zero; \<^verbatim>\<open>f64::round\<close>, halves away from zero.\<close>

definition signum :: "f64 \<Rightarrow> f64" where
  "signum x = (if x < 0 then - 1 else 1)"

definition rust_round :: "f64 \<Rightarrow> int" where
  "rust_round x = (if x < 0 then - \<lfloor>- x + 1 / 2\<rfloor> else \<lfloor>x + 1 / 2\<rfloor>)"

section \<open>Time\<close>

text \<open>
  A \<^verbatim>\<open>Duration\<close> is a number of nanoseconds and an \<^verbatim>\<open>Instant\<close> one on the monotonic clock.
  \<^verbatim>\<open>Duration::from_secs_f64\<close> panics on a negative or too large number of seconds and rounds
  to the nearest nanosecond, halves to even.
\<close>

type_synonym duration = nat

type_synonym instant = nat

definition NANOS :: nat where
  "NANOS = 1000000000"

definition secs :: "nat \<Rightarrow> duration" where
  "secs n = n * NANOS"

definition as_secs_f64 :: "duration \<Rightarrow> f64" where
  "as_secs_f64 d = real d / 1000000000"

definition round_even :: "f64 \<Rightarrow> int" where
  "round_even x =
     (let f = \<lfloor>x\<rfloor>; d = x - of_int f in
      if d < 1 / 2 then f else if d > 1 / 2 then f + 1 else if even f then f else f + 1)"

definition from_secs_f64 :: "f64 \<Rightarrow> duration outcome" where
  "from_secs_f64 x =
     (if x < 0 \<or> x \<ge> 18446744073709551616 then Abort Panicked
      else Ok (nat (round_even (x * 1000000000))))"

text \<open>\<^verbatim>\<open>Instant::elapsed\<close> saturates at zero.\<close>

definition elapsed :: "instant \<Rightarrow> instant \<Rightarrow> duration" where
  "elapsed now received = now - received"

section \<open>Strings\<close>

text \<open>\<^verbatim>\<open>str::split(c)\<close> always yields at least one piece.\<close>

fun split_on :: "char \<Rightarrow> string \<Rightarrow> string list" where
  "split_on c [] = [[]]"
| "split_on c (x # xs) =
     (if x = c then [] # split_on c xs
      else case split_on c xs of [] \<Rightarrow> [[x]] | p # ps \<Rightarrow> (x # p) # ps)"

text \<open>\<^verbatim>\<open>str::replace\<close> with a pattern that is not empty: left to right, no overlaps.\<close>

function replace_all :: "string \<Rightarrow> string \<Rightarrow> string \<Rightarrow> string" where
  "replace_all pat rep [] = []"
| "replace_all pat rep (c # cs) =
     (if pat \<noteq> [] \<and> take (length pat) (c # cs) = pat
      then rep @ replace_all pat rep (drop (length pat) (c # cs))
      else c # replace_all pat rep cs)"
  by pat_completeness auto
termination
  by (relation "measure (\<lambda>(p, r, s). length s)") (auto simp: Suc_le_eq)

text \<open>\<^verbatim>\<open>str::split_once(c)\<close>.\<close>

fun split_once :: "char \<Rightarrow> string \<Rightarrow> (string \<times> string) option" where
  "split_once c [] = None"
| "split_once c (x # xs) =
     (if x = c then Some ([], xs)
      else map_option (\<lambda>(a, b). (x # a, b)) (split_once c xs))"

text \<open>The decimal digits \<^verbatim>\<open>u8::from_str\<close> accepts, after an optional plus sign.\<close>

definition digit_value :: "char \<Rightarrow> nat option" where
  "digit_value c = (let n = of_char c :: nat in if 48 \<le> n \<and> n \<le> 57 then Some (n - 48) else None)"

fun parse_digits :: "nat \<Rightarrow> string \<Rightarrow> nat option" where
  "parse_digits acc [] = Some acc"
| "parse_digits acc (c # cs) =
     (case digit_value c of None \<Rightarrow> None | Some d \<Rightarrow> parse_digits (acc * 10 + d) cs)"

definition parse_u8 :: "string \<Rightarrow> 8 word option" where
  "parse_u8 s =
     (let ds = (case s of [] \<Rightarrow> [] | c # cs \<Rightarrow> if c = CHR ''+'' then cs else s) in
      if ds = [] then None
      else case parse_digits 0 ds of
             None \<Rightarrow> None
           | Some n \<Rightarrow> if n < 256 then Some (of_nat n) else None)"

section \<open>Lemmas on outcomes\<close>

lemma bind_outcome_eq_Ok [simp]:
  "bind_outcome x f = Ok y \<longleftrightarrow> (\<exists>z. x = Ok z \<and> f z = Ok y)"
  by (cases x) auto

lemma bind_outcome_Ok_right [simp]: "bind_outcome x Ok = x"
  by (cases x) auto

lemma with_context_eq_Ok [simp]: "with_context x s as = Ok y \<longleftrightarrow> x = Ok y"
  by (cases x) auto

lemma ok_or_eq_Ok [simp]: "ok_or x e = Ok y \<longleftrightarrow> x = Some y"
  by (cases x) auto

lemma ok_or_returns [simp]: "ok_or x e \<noteq> Abort a"
  by (cases x) auto

lemma bind_outcome_eq_Abort:
  "bind_outcome x f = Abort a \<longleftrightarrow> x = Abort a \<or> (\<exists>y. x = Ok y \<and> f y = Abort a)"
  by (cases x) auto

lemma collect_outcome_returns: "\<forall>x \<in> set xs. \<forall>a. x \<noteq> Abort a \<Longrightarrow> collect_outcome xs \<noteq> Abort a"
  by (induction xs) (auto simp: bind_outcome_eq_Abort)

lemma is_ok_iff: "is_ok x \<longleftrightarrow> (\<exists>y. x = Ok y)"
  by (cases x) auto

lemma collect_outcome_Ok:
  "collect_outcome xs = Ok ys \<longleftrightarrow> list_all2 (\<lambda>x y. x = Ok y) xs ys"
proof (induction xs arbitrary: ys)
  case Nil
  show ?case by auto
next
  case (Cons x xs)
  then show ?case
    by (cases ys) auto
qed

section \<open>Lemmas on numbers\<close>

lemma EPSILON_pos [simp]: "0 < EPSILON"
  by (simp add: EPSILON_def)

lemma minus_f64x_Fin [simp, f64x_simps]:
  "Fin a - Fin b = Fin (a - b)"
  "Fin a - PosInf = NegInf"
  "Fin a - NegInf = PosInf"
  "PosInf - Fin a = PosInf"
  "NegInf - Fin a = NegInf"
  by (simp_all add: minus_f64x_def)

lemma less_eq_f64x_Fin [simp, f64x_simps]:
  "Fin a \<le> Fin b \<longleftrightarrow> a \<le> b"
  "Fin a \<le> PosInf"
  "NegInf \<le> Fin a"
  "NegInf \<le> PosInf"
  "PosInf \<le> PosInf"
  "NegInf \<le> NegInf"
  "\<not> PosInf \<le> Fin a"
  "\<not> Fin a \<le> NegInf"
  "\<not> PosInf \<le> NegInf"
  "\<not> NaN \<le> x"
  "\<not> x \<le> NaN"
  by (auto simp: less_eq_f64x_def)

lemma max_f64x_simps [simp, f64x_simps]:
  "max_f64x (Fin a) (Fin b) = Fin (max a b)"
  "max_f64x NegInf (Fin b) = Fin b"
  "max_f64x (Fin b) NegInf = Fin b"
  "max_f64x PosInf (Fin b) = PosInf"
  "max_f64x (Fin b) PosInf = PosInf"
  by (auto simp: max_f64x_def max_def)

lemma min_f64x_simps [simp, f64x_simps]:
  "min_f64x (Fin a) (Fin b) = Fin (min a b)"
  "min_f64x PosInf (Fin b) = Fin b"
  "min_f64x (Fin b) PosInf = Fin b"
  "min_f64x NegInf (Fin b) = NegInf"
  "min_f64x (Fin b) NegInf = NegInf"
  by (auto simp: min_f64x_def min_def)

lemma is_finite_iff: "is_finite x \<longleftrightarrow> (\<exists>a. x = Fin a)"
  by (cases x) auto

lemma to_finite_eq_Ok [simp]: "to_finite x = Ok a \<longleftrightarrow> x = Fin a"
  by (cases x) auto

lemma clamp_f64x_Fin [simp, f64x_simps]:
  "clamp_f64x (Fin x) (Fin lo) (Fin hi) =
     (if lo \<le> hi then Ok (Fin (max lo (min hi x))) else Abort Panicked)"
  by (auto simp: clamp_f64x_def max_def min_def)

lemma clamp_Ok_iff: "clamp x lo hi = Ok y \<longleftrightarrow> lo \<le> hi \<and> y = max lo (min hi x)"
  by (auto simp: clamp_def max_def min_def)

lemma clamp_within: "clamp x lo hi = Ok y \<Longrightarrow> lo \<le> y \<and> y \<le> hi"
  by (auto simp: clamp_Ok_iff)

lemma as_secs_f64_nonneg [simp]: "0 \<le> as_secs_f64 d"
  by (simp add: as_secs_f64_def)

lemma abs_signum: "x = signum x * \<bar>x\<bar>"
  by (simp add: signum_def)

lemma rust_round_of_int [simp]: "rust_round (of_int i) = i"
proof (cases "i < 0")
  case True
  have "\<lfloor>- of_int i + 1 / 2 :: real\<rfloor> = - i"
    by (simp add: floor_eq_iff)
  with True show ?thesis by (simp add: rust_round_def)
next
  case False
  have "\<lfloor>of_int i + 1 / 2 :: real\<rfloor> = i"
    by (simp add: floor_eq_iff)
  with False show ?thesis by (simp add: rust_round_def)
qed

lemma rust_round_bounds: "\<bar>of_int (rust_round x) - x\<bar> \<le> 1 / 2"
  unfolding rust_round_def by (auto simp: abs_if) linarith+

section \<open>Lemmas on lists and sums\<close>

lemma sum_list_nonneg_elem:
  fixes f :: "'a \<Rightarrow> real"
  assumes "\<forall>x \<in> set xs. 0 \<le> f x" and "x \<in> set xs"
  shows "f x \<le> sum_list (map f xs)"
  using assms
proof (induction xs)
  case Nil
  then show ?case by simp
next
  case (Cons a xs)
  have "0 \<le> sum_list (map f xs)"
    using Cons.prems(1) by (intro sum_list_nonneg) auto
  with Cons show ?case by fastforce
qed

lemma sum_list_distrib_left:
  fixes c :: real
  shows "sum_list (map (\<lambda>x. c * f x) xs) = c * sum_list (map f xs)"
  by (induction xs) (simp_all add: algebra_simps)

lemma sum_list_zero:
  fixes f :: "'a \<Rightarrow> real"
  shows "(\<And>x. x \<in> set xs \<Longrightarrow> f x = 0) \<Longrightarrow> sum_list (map f xs) = 0"
  by (induction xs) auto

lemma map_filter_fst_notin:
  "k \<notin> fst ` set xs \<Longrightarrow> map_of xs k = None"
  by (simp add: map_of_eq_None_iff)

lemma map_of_filter_distinct:
  "distinct (map fst xs) \<Longrightarrow>
     map_of (filter P xs) i = (case map_of xs i of Some v \<Rightarrow> if P (i, v) then Some v else None | None \<Rightarrow> None)"
proof (induction xs)
  case (Cons x xs)
  have "map_of (filter P xs) (fst x) = None"
    using Cons.prems by (force simp: map_of_eq_None_iff)
  with Cons show ?case by (cases x) auto
qed simp

lemma map_of_map_key: "map_of (map (\<lambda>(j, _). (j, f j)) xs) i = map_option (\<lambda>_. f i) (map_of xs i)"
  by (induction xs) auto

lemma list_all2_in_set2: "list_all2 P xs ys \<Longrightarrow> y \<in> set ys \<Longrightarrow> \<exists>x \<in> set xs. P x y"
  by (induction rule: list_all2_induct) auto

lemma list_all2_in_set1: "list_all2 P xs ys \<Longrightarrow> x \<in> set xs \<Longrightarrow> \<exists>y \<in> set ys. P x y"
  by (induction rule: list_all2_induct) auto

section \<open>Machines stepped by their environment\<close>

text \<open>
  Several parts of the gateway are a state that a loop steps with what it observed: the
  envelope controller, the shed controller, the point-of-interconnection gate, the event
  memory. What holds of every state such a loop reaches follows from one step.
\<close>

locale stepped =
  fixes step :: "'s \<Rightarrow> 'i \<Rightarrow> 's"
    and ok :: "'i \<Rightarrow> bool"
    and inv :: "'s \<Rightarrow> bool"
  assumes step_inv: "inv s \<Longrightarrow> ok i \<Longrightarrow> inv (step s i)"
begin

lemma run_inv: "inv s \<Longrightarrow> \<forall>i \<in> set is. ok i \<Longrightarrow> inv (foldl step s is)"
  by (induction "is" arbitrary: s) (auto intro: step_inv)

lemma run_prefix_inv: "inv s \<Longrightarrow> \<forall>i \<in> set is. ok i \<Longrightarrow> inv (foldl step s (take n is))"
  by (rule run_inv) (auto dest: in_set_takeD)

end

end
