(* ===== verification/Spec_Types.thy ===== *)
theory Spec_Types
  imports Gateway_Prelude
begin

text \<open>
  The data the gateway is driven by: JSON values, the typed AsyncAPI spec of
  \<^verbatim>\<open>asyncapi/types\<close> (one record per binding struct, the \<^verbatim>\<open>ProtocolBinding\<close> enum, the
  source maps), the trust blocks of \<^verbatim>\<open>asyncapi/trust.rs\<close> and the credentials of
  \<^verbatim>\<open>config.rs\<close>. A \<^verbatim>\<open>HashMap\<close> that the code iterates over is an association list, in the
  order of the iteration; one that is only looked up is a map.
\<close>

unbundle bit_operations_syntax

section \<open>JSON values and machine integers\<close>

type_synonym u8 = "8 word"

type_synonym u16 = "16 word"

type_synonym u32 = "32 word"

type_synonym u64 = "64 word"

datatype json = JNull | JBool bool | JNum f64 | JStr string | JArr "json list"
  | JObj "(string \<times> json) list"

fun as_str :: "json \<Rightarrow> string option" where
  "as_str (JStr s) = Some s"
| "as_str v = None"

text \<open>\<^verbatim>\<open>synthetic/cache.rs\<close>: a reading as a number, a boolean as 1 or 0, a label as none.\<close>

fun as_number :: "json \<Rightarrow> f64 option" where
  "as_number (JNum x) = Some x"
| "as_number (JBool b) = Some (if b then 1 else 0)"
| "as_number v = None"

section \<open>Register framing\<close>

datatype word_order = HighLow | LowHigh

datatype modbus_data_type = Int16 | Uint16 | Int32 | Uint32 | Float32 | Int64

fun register_count :: "modbus_data_type \<Rightarrow> u16" where
  "register_count Int16 = 1"
| "register_count Uint16 = 1"
| "register_count Int32 = 2"
| "register_count Uint32 = 2"
| "register_count Float32 = 2"
| "register_count Int64 = 4"

section \<open>Bindings to south-side devices\<close>

record modbus_tcp_binding =
  mb_host :: string
  mb_port :: u16
  mb_unit_id :: string
  mb_address :: u16
  mb_scale :: f64
  mb_offset :: f64
  mb_data_type :: modbus_data_type
  mb_word_order :: word_order
  mb_function_code :: "u8 option"
  mb_scale_factor_address :: "u16 option"

record snmp_binding =
  snmp_host :: string
  snmp_port :: u16
  snmp_oid :: string
  snmp_scale :: f64

record redfish_binding =
  rf_host :: string
  rf_port :: u16
  rf_uri :: string
  rf_json_pointer :: "string option"
  rf_scale :: f64

record bacnet_ip_binding =
  bip_host :: string
  bip_port :: u16
  bip_device_instance :: u32
  bip_object_type :: string
  bip_object_instance :: u32
  bip_property_id :: string

record bacnet_sc_binding =
  bsc_hub_url :: string
  bsc_device_vmac :: string
  bsc_object_type :: string
  bsc_object_instance :: u32
  bsc_property_id :: string

record dnp3_tcp_binding =
  dnp_host :: string
  dnp_port :: u16
  dnp_point_index :: u16
  dnp_point_type :: string
  dnp_variation :: "u8 option"
  dnp_scale :: f64
  dnp_outstation_address :: u16

record sunspec_binding =
  ss_host :: string
  ss_port :: u16
  ss_unit_id :: string
  ss_model_id :: u16
  ss_point :: string
  ss_bit :: "u8 option"

section \<open>Bindings with no device of their own\<close>

record weighted_pair =
  wp_topic :: string
  wp_weight :: f64

record synthetic_binding =
  sy_operation :: string
  sy_inputs :: "string list"
  sy_pairs :: "weighted_pair list"

record child_allocation =
  ca_device_id :: string
  ca_operating_state_topic :: string
  ca_state_of_charge_topic :: string
  ca_power_min :: f64
  ca_power_max :: f64

record distribute_binding =
  d_allocation_policy :: string
  d_children :: "child_allocation list"
  d_state_of_charge_floor_percent :: "f64 option"
  d_ramp_rate_per_sec :: "f64 option"
  d_hysteresis_margin :: "f64 option"
  d_hysteresis_dwell_secs :: "f64 option"
  d_power_min :: "f64 option"
  d_power_max :: "f64 option"
  d_import_limit_topic :: "string option"
  d_export_limit_topic :: "string option"
  d_active_power_topic :: "string option"
  d_poi_active_power_topic :: "string option"
  d_operator_reserve_topic :: "string option"
  d_site_capacity_wh :: "f64 option"
  d_readiness_soc_percent :: "f64 option"
  d_recharge_power_w :: "f64 option"

record cap_child =
  cc_device_id :: string
  cc_target :: string
  cc_min_w :: f64
  cc_max_w :: f64

record power_cap_binding =
  pc_children :: "cap_child list"
  pc_import_limit_topic :: "string option"
  pc_export_limit_topic :: "string option"
  pc_poi_active_power_topic :: "string option"
  pc_hysteresis_margin :: "f64 option"
  pc_hysteresis_dwell_secs :: "f64 option"
  pc_ramp_rate_per_sec :: "f64 option"

section \<open>The spec\<close>

datatype protocol_binding =
    ModbusTcp modbus_tcp_binding
  | Snmp snmp_binding
  | Redfish redfish_binding
  | Dnp3Tcp dnp3_tcp_binding
  | BacnetIp bacnet_ip_binding
  | BacnetSc bacnet_sc_binding
  | Sunspec sunspec_binding
  | Synthetic synthetic_binding
  | Distribute distribute_binding
  | PowerCap power_cap_binding

datatype snmpv3_auth_protocol = Sha256 | Sha384 | Sha512

datatype snmpv3_priv_protocol = Aes128 | Aes192 | Aes256

datatype device_trust =
    TlsMutual string
  | Snmpv3Usm string snmpv3_auth_protocol snmpv3_priv_protocol

record gateway_credentials =
  ca_bundle_path :: string
  cert_path :: string
  key_path :: string

record protocol_source =
  ps_unit :: string
  ps_poll_rate_hz :: "f64 option"
  ps_payload :: "json option"
  ps_value_map :: "(string \<rightharpoonup> string) option"
  ps_binding :: protocol_binding

record command_source =
  cs_verb :: string
  cs_target :: string
  cs_unit :: string
  cs_binding :: protocol_binding

record heartbeat_source =
  hb_counter_modulo :: u16
  hb_period_s :: f64
  hb_binding :: protocol_binding

record asyncapi_spec =
  info_version :: string
  x_protocol_source :: "(string \<times> (string \<times> protocol_source) list) list"
  x_command_source :: "(string \<times> (string \<times> command_source) list) list"
  x_heartbeat_source :: "(string \<times> heartbeat_source) list"
  x_device_trust :: "(string \<times> device_trust) list"
  x_schemas :: "(string \<times> json) list"

type_synonym device_channels = "(string \<times> (string \<times> protocol_binding) list) list"

definition protocol_name :: "protocol_binding \<Rightarrow> string" where
  "protocol_name b = (case b of
     ModbusTcp _ \<Rightarrow> ''modbus_tcp''
   | Snmp _ \<Rightarrow> ''snmp''
   | Redfish _ \<Rightarrow> ''redfish''
   | Dnp3Tcp _ \<Rightarrow> ''dnp3_tcp''
   | BacnetIp _ \<Rightarrow> ''bacnet_ip''
   | BacnetSc _ \<Rightarrow> ''bacnet_sc''
   | Sunspec _ \<Rightarrow> ''sunspec''
   | Synthetic _ \<Rightarrow> ''synthetic''
   | Distribute _ \<Rightarrow> ''distribute''
   | PowerCap _ \<Rightarrow> ''power_cap'')"

text \<open>
  \<^verbatim>\<open>app::device_channels\<close>: what a command topic is resolved with. A command is keyed by
  its verb and target, not by its name in the template; two commands of a device with the
  same key collapse to the later one, as inserting into the map does.
\<close>

definition command_key :: "string \<Rightarrow> string \<Rightarrow> string" where
  "command_key verb target = verb @ ''_'' @ target"

definition channels_of :: "(string \<times> command_source) list \<Rightarrow> (string \<times> protocol_binding) list" where
  "channels_of commands =
     foldl (\<lambda>m c. AList.update (command_key (cs_verb (snd c)) (cs_target (snd c))) (cs_binding (snd c)) m)
       [] commands"

definition device_channels :: "asyncapi_spec \<Rightarrow> device_channels" where
  "device_channels spec = map (\<lambda>(device_id, commands). (device_id, channels_of commands)) (x_command_source spec)"

definition channel_lookup :: "device_channels \<Rightarrow> string \<Rightarrow> string \<Rightarrow> protocol_binding option" where
  "channel_lookup chs device_id key = Option.bind (map_of chs device_id) (\<lambda>m. map_of m key)"

text \<open>
  \<^verbatim>\<open>app::validate_trust_creds_alignment\<close>: without credentials no device may ask for mutual
  TLS. The first offender names the error.
\<close>

fun is_tls_mutual :: "device_trust \<Rightarrow> bool" where
  "is_tls_mutual (TlsMutual s) = True"
| "is_tls_mutual (Snmpv3Usm n a p) = False"

definition validate_trust_creds_alignment :: "asyncapi_spec \<Rightarrow> gateway_credentials option \<Rightarrow> unit outcome" where
  "validate_trust_creds_alignment spec creds =
     (if creds \<noteq> None then Ok ()
      else case find (\<lambda>(_, trust). is_tls_mutual trust) (x_device_trust spec) of
             Some (device_id, _) \<Rightarrow>
               Err (E ''device requires tls_mutual but gateway_credentials is unset'' [S device_id])
           | None \<Rightarrow> Ok ())"

section \<open>Lemmas\<close>

lemma unat_u16_less: "unat (x :: u16) < 65536"
proof -
  have "unat x < 2 ^ LENGTH(16)" by (rule unsigned_less)
  then show ?thesis by simp
qed

lemma map_of_channels_of_snoc:
  "map_of (channels_of (cs @ [(n, c)])) =
     (map_of (channels_of cs))(command_key (cs_verb c) (cs_target c) \<mapsto> cs_binding c)"
  by (simp add: channels_of_def update_conv')

lemma validate_trust_Ok:
  "validate_trust_creds_alignment spec creds = Ok () \<longleftrightarrow>
     creds \<noteq> None \<or> (\<forall>(d, t) \<in> set (x_device_trust spec). \<not> is_tls_mutual t)"
proof (cases "find (\<lambda>(_, trust). is_tls_mutual trust) (x_device_trust spec)")
  case None
  then have "\<forall>(d, t) \<in> set (x_device_trust spec). \<not> is_tls_mutual t"
    by (auto simp: find_None_iff)
  with None show ?thesis
    by (auto simp: validate_trust_creds_alignment_def)
next
  case (Some p)
  then have "p \<in> set (x_device_trust spec)" and "is_tls_mutual (snd p)"
    by (auto simp: find_Some_iff case_prod_beta)
  with Some show ?thesis
    by (cases p) (auto simp: validate_trust_creds_alignment_def)
qed

end
