(* ===== verification/Allocation.thy ===== *)
theory Allocation
  imports Spec_Types
begin

text \<open>
  \<^verbatim>\<open>dispatch/allocation.rs\<close>: max-min fair allocation of a setpoint over children. The
  rounds of the \<^verbatim>\<open>while\<close> loop are \<open>alloc_loop\<close>, whose termination is part of its
  definition; each round's \<^verbatim>\<open>for\<close> loop over the proposed shares is \<open>cap_round\<close>. The
  locale \<open>allocator\<close> is what the callers (rack split, module split, spare discharge)
  rely on, and the model's \<open>allocate\<close> is an instance of it for both policies.
\<close>

datatype operating_state = Standby | Charging | Discharging | Fault | Offline

fun is_eligible :: "operating_state \<Rightarrow> bool" where
  "is_eligible Fault = False"
| "is_eligible Offline = False"
| "is_eligible s = True"

record child_capacity =
  cp_device_id :: string
  cp_operating_state :: operating_state
  cp_headroom :: f64
  cp_state_of_charge :: f64

datatype allocation_policy = EqualSplit | SocWeighted

definition parse_policy :: "string \<Rightarrow> allocation_policy outcome" where
  "parse_policy name =
     (if name = ''equal_split'' then Ok EqualSplit
      else if name = ''soc_weighted'' then Ok SocWeighted
      else Err (E ''unknown allocation policy'' [S name]))"

definition policy_weights :: "allocation_policy \<Rightarrow> child_capacity list \<Rightarrow> f64 \<Rightarrow> f64 list" where
  "policy_weights policy eligible sign = (case policy of
     EqualSplit \<Rightarrow> replicate (length eligible) 1
   | SocWeighted \<Rightarrow>
       (let raw = map (\<lambda>c. if sign > 0 then cp_state_of_charge c else 100 - cp_state_of_charge c) eligible in
        if sum_list raw \<le> EPSILON then replicate (length eligible) 1 else raw))"

definition weight_fraction :: "f64 list \<Rightarrow> nat list \<Rightarrow> nat \<Rightarrow> f64" where
  "weight_fraction weights opn i =
     (let weight_sum = sum_list (map (\<lambda>j. weights ! j) opn) in
      if weight_sum > 0 then weights ! i / weight_sum else 1 / real (length opn))"

definition proposed :: "f64 list \<Rightarrow> nat list \<Rightarrow> f64 \<Rightarrow> (nat \<times> f64) list" where
  "proposed weights opn demand = map (\<lambda>i. (i, demand * weight_fraction weights opn i)) opn"

text \<open>\<^verbatim>\<open>eligible[i].headroom.max(0.0)\<close>.\<close>

definition cap :: "f64 list \<Rightarrow> nat \<Rightarrow> f64" where
  "cap headrooms i = max (headrooms ! i) 0"

lemma cap_nonneg [simp]: "0 \<le> cap hs i"
  by (simp add: cap_def)

text \<open>The \<^verbatim>\<open>for\<close> loop: its state is the shares, the children still open, what was consumed,
  and whether any child was capped.\<close>

fun cap_round :: "f64 list \<Rightarrow> (nat \<times> f64) list \<Rightarrow> f64 list \<times> nat list \<times> f64 \<times> bool \<Rightarrow>
    f64 list \<times> nat list \<times> f64 \<times> bool" where
  "cap_round headrooms [] st = st"
| "cap_round headrooms ((i, share) # ps) (shares, still_open, consumed, any_capped) =
     (if share \<ge> cap headrooms i
      then cap_round headrooms ps (shares[i := cap headrooms i], still_open, consumed + cap headrooms i, True)
      else cap_round headrooms ps (shares, still_open @ [i], consumed, any_capped))"

fun assign_shares :: "(nat \<times> f64) list \<Rightarrow> f64 list \<Rightarrow> f64 list" where
  "assign_shares [] shares = shares"
| "assign_shares ((i, share) # ps) shares = assign_shares ps (shares[i := share])"

lemma cap_round_char:
  "cap_round hs ps (sh, so, cns, any) =
     (foldl (\<lambda>sh p. if snd p \<ge> cap hs (fst p) then sh[fst p := cap hs (fst p)] else sh) sh ps,
      so @ map fst (filter (\<lambda>p. \<not> snd p \<ge> cap hs (fst p)) ps),
      cns + sum_list (map (\<lambda>p. cap hs (fst p)) (filter (\<lambda>p. snd p \<ge> cap hs (fst p)) ps)),
      any \<or> (\<exists>p \<in> set ps. snd p \<ge> cap hs (fst p)))"
proof (induction ps arbitrary: sh so cns any)
  case Nil
  then show ?case by simp
next
  case (Cons p ps)
  obtain i share where p: "p = (i, share)" by (cases p)
  show ?case
    by (cases "share \<ge> cap hs i") (simp_all add: p Let_def Cons.IH)
qed

lemma cap_round_shrinks:
  assumes "cap_round hs (proposed ws opn d) (sh, [], 0, False) = (sh', still, cns, True)"
  shows "length still < length opn"
proof -
  let ?ps = "proposed ws opn d"
  have still: "still = map fst (filter (\<lambda>p. \<not> snd p \<ge> cap hs (fst p)) ?ps)"
    and "\<exists>p \<in> set ?ps. snd p \<ge> cap hs (fst p)"
    using assms by (auto simp: cap_round_char)
  then have "length (filter (\<lambda>p. \<not> snd p \<ge> cap hs (fst p)) ?ps) < length ?ps"
    by (metis length_filter_less)
  then show ?thesis by (simp add: still proposed_def)
qed

text \<open>The \<^verbatim>\<open>while\<close> loop. When no child was capped the proposed shares stand and the demand is
  0, so the loop's condition fails and the shares are returned.\<close>

function alloc_loop :: "f64 list \<Rightarrow> f64 list \<Rightarrow> f64 list \<Rightarrow> nat list \<Rightarrow> f64 \<Rightarrow> f64 list" where
  "alloc_loop headrooms weights shares opn demand =
     (if demand > EPSILON \<and> opn \<noteq> [] then
        (case cap_round headrooms (proposed weights opn demand) (shares, [], 0, False) of
           (shares', still_open, consumed, any_capped) \<Rightarrow>
             if any_capped then alloc_loop headrooms weights shares' still_open (demand - consumed)
             else assign_shares (proposed weights opn demand) shares)
      else shares)"
  by pat_completeness auto
termination
proof (relation "measure (\<lambda>(hs, ws, sh, op, d). length op)", goal_cases)
  case 1
  then show ?case by simp
next
  case (2 hs ws sh op d x)
  then show ?case
    by (auto dest: cap_round_shrinks [OF sym])
qed

declare alloc_loop.simps [simp del]

definition sign_of :: "f64 \<Rightarrow> f64" where
  "sign_of tot = (if tot < 0 then - 1 else 1)"

definition allocate :: "f64 \<Rightarrow> child_capacity list \<Rightarrow> allocation_policy \<Rightarrow> (string \<times> f64) list" where
  "allocate tot children policy =
     (let eligible = filter (\<lambda>c. is_eligible (cp_operating_state c)) children in
      if eligible = [] then []
      else
        let sign = sign_of tot;
            weights = policy_weights policy eligible sign;
            shares = alloc_loop (map cp_headroom eligible) weights
                       (replicate (length eligible) 0) [0..<length eligible] \<bar>tot\<bar>
        in map (\<lambda>(c, s). (cp_device_id c, sign * s)) (zip eligible shares))"

section \<open>One round\<close>

definition frac_ok :: "f64 list \<Rightarrow> nat list \<Rightarrow> bool" where
  "frac_ok ws opn \<longleftrightarrow> opn \<noteq> [] \<and> distinct opn \<and> (\<forall>i \<in> set opn. 0 \<le> ws ! i)"

lemma weight_fraction_nonneg: "frac_ok ws opn \<Longrightarrow> i \<in> set opn \<Longrightarrow> 0 \<le> weight_fraction ws opn i"
  by (simp add: weight_fraction_def frac_ok_def Let_def)

lemma weight_fraction_sum:
  assumes "frac_ok ws opn"
  shows "(\<Sum>i \<in> set opn. weight_fraction ws opn i) = 1"
proof -
  have d: "distinct opn" and ne: "opn \<noteq> []" using assms by (auto simp: frac_ok_def)
  let ?W = "sum_list (map (\<lambda>j. ws ! j) opn)"
  have W: "?W = (\<Sum>i \<in> set opn. ws ! i)"
    using d by (simp add: sum_list_distinct_conv_sum_set)
  show ?thesis
  proof (cases "?W > 0")
    case True
    then have "(\<Sum>i \<in> set opn. weight_fraction ws opn i) = (\<Sum>i \<in> set opn. ws ! i / ?W)"
      by (simp add: weight_fraction_def)
    also have "\<dots> = 1"
      using True W by (simp add: sum_divide_distrib [symmetric])
    finally show ?thesis .
  next
    case False
    then show ?thesis
      using d ne by (simp add: weight_fraction_def distinct_card)
  qed
qed

lemma foldl_update_length [simp]:
  "length (foldl (\<lambda>sh p. if P p then sh[f p := g p] else sh) sh ps) = length sh"
  by (induction ps arbitrary: sh) auto

lemma foldl_update_nth:
  assumes "distinct (map f ps)" and "i < length sh"
  shows "foldl (\<lambda>sh p. if P p then sh[f p := g (f p)] else sh) sh ps ! i =
    (if \<exists>p \<in> set ps. f p = i \<and> P p then g i else sh ! i)"
  using assms
proof (induction ps arbitrary: sh)
  case Nil
  then show ?case by simp
next
  case (Cons p ps)
  show ?case
  proof (cases "f p = i \<and> P p")
    case True
    then have "\<not> (\<exists>q \<in> set ps. f q = i \<and> P q)"
      using Cons.prems(1) by (auto simp: image_iff)
    with True Cons show ?thesis by simp
  next
    case False
    then show ?thesis using Cons by (auto simp: nth_list_update)
  qed
qed

lemma assign_shares_length [simp]: "length (assign_shares ps sh) = length sh"
  by (induction ps sh rule: assign_shares.induct) auto

lemma assign_shares_nth:
  assumes "distinct opn" and "i < length sh"
  shows "assign_shares (map (\<lambda>j. (j, f j)) opn) sh ! i = (if i \<in> set opn then f i else sh ! i)"
  using assms
proof (induction opn arbitrary: sh)
  case Nil
  then show ?case by simp
next
  case (Cons j opn)
  then show ?case by (auto simp: nth_list_update)
qed

text \<open>What one round of the loop computes, over index sets.\<close>

definition capped :: "f64 list \<Rightarrow> f64 list \<Rightarrow> nat list \<Rightarrow> f64 \<Rightarrow> nat set" where
  "capped hs ws opn d = {i \<in> set opn. d * weight_fraction ws opn i \<ge> cap hs i}"

lemma cap_round_result:
  assumes "cap_round hs (proposed ws opn d) (sh, [], 0, False) = (sh', still, cns, any)"
    and "distinct opn" and "set opn \<subseteq> {..<length sh}"
  shows "length sh' = length sh"
    and "\<And>i. i < length sh \<Longrightarrow> sh' ! i = (if i \<in> capped hs ws opn d then cap hs i else sh ! i)"
    and "still = filter (\<lambda>i. i \<notin> capped hs ws opn d) opn"
    and "cns = (\<Sum>i \<in> capped hs ws opn d. cap hs i)"
    and "any \<longleftrightarrow> capped hs ws opn d \<noteq> {}"
proof -
  let ?ps = "proposed ws opn d"
  have d: "distinct (map fst ?ps)" using assms(2) by (simp add: proposed_def o_def)
  note r = assms(1) [unfolded cap_round_char]
  show "length sh' = length sh" using r by auto
  show "sh' ! i = (if i \<in> capped hs ws opn d then cap hs i else sh ! i)" if "i < length sh" for i
    using r foldl_update_nth [OF d that, of "\<lambda>p. cap hs (fst p) \<le> snd p" "\<lambda>i. cap hs i"]
    by (auto simp: capped_def proposed_def)
  show "still = filter (\<lambda>i. i \<notin> capped hs ws opn d) opn"
    using r by (auto simp: capped_def proposed_def filter_map o_def intro!: filter_cong)
  have "cns = sum_list (map (cap hs) (filter (\<lambda>i. i \<in> capped hs ws opn d) opn))"
    using r by (auto simp: capped_def proposed_def filter_map o_def intro!: arg_cong [where f = sum_list] map_cong filter_cong)
  also have "\<dots> = (\<Sum>i \<in> capped hs ws opn d. cap hs i)"
    using assms(2) by (subst sum_list_distinct_conv_sum_set) (auto simp: capped_def intro: sum.cong)
  finally show "cns = (\<Sum>i \<in> capped hs ws opn d. cap hs i)" .
  show "any \<longleftrightarrow> capped hs ws opn d \<noteq> {}"
    using r by (auto simp: capped_def proposed_def)
qed

section \<open>The loop\<close>

definition alloc_inv :: "f64 list \<Rightarrow> f64 \<Rightarrow> f64 list \<Rightarrow> nat list \<Rightarrow> f64 \<Rightarrow> bool" where
  "alloc_inv hs T sh opn d \<longleftrightarrow>
     length sh = length hs \<and> distinct opn \<and> set opn \<subseteq> {..<length hs} \<and>
     (\<forall>i \<in> set opn. sh ! i = 0) \<and>
     (\<forall>i < length hs. i \<notin> set opn \<longrightarrow> sh ! i = cap hs i) \<and>
     0 \<le> d \<and> (\<Sum>i < length hs. sh ! i) + d = T"

lemma capped_subset: "capped hs ws opn d \<subseteq> set opn"
  by (auto simp: capped_def)

lemma capped_sum_le:
  assumes "frac_ok ws opn" and "0 \<le> d"
  shows "(\<Sum>i \<in> capped hs ws opn d. cap hs i) \<le> d"
proof -
  have "(\<Sum>i \<in> capped hs ws opn d. cap hs i) \<le> (\<Sum>i \<in> capped hs ws opn d. d * weight_fraction ws opn i)"
    by (rule sum_mono) (simp add: capped_def)
  also have "\<dots> \<le> (\<Sum>i \<in> set opn. d * weight_fraction ws opn i)"
    using assms by (intro sum_mono2) (auto simp: capped_def weight_fraction_nonneg)
  also have "\<dots> = d"
    using weight_fraction_sum [OF assms(1)] by (simp add: sum_distrib_left [symmetric])
  finally show ?thesis .
qed

lemma sum_update_on:
  fixes f g :: "nat \<Rightarrow> real"
  assumes "C \<subseteq> {..<n}" and "\<And>i. i < n \<Longrightarrow> g i = (if i \<in> C then h i else f i)"
    and "\<And>i. i \<in> C \<Longrightarrow> f i = 0"
  shows "(\<Sum>i < n. g i) = (\<Sum>i < n. f i) + (\<Sum>i \<in> C. h i)"
proof -
  have "(\<Sum>i < n. g i) = (\<Sum>i < n. f i + (if i \<in> C then h i else 0))"
    using assms by (intro sum.cong) auto
  also have "\<dots> = (\<Sum>i < n. f i) + (\<Sum>i \<in> {..<n} \<inter> C. h i)"
    by (simp add: sum.distrib sum.inter_restrict)
  finally show ?thesis using assms(1) by (simp add: Int_absorb1)
qed

lemma alloc_inv_round:
  assumes inv: "alloc_inv hs T sh opn d" and ok: "frac_ok ws opn"
    and round: "cap_round hs (proposed ws opn d) (sh, [], 0, False) = (sh', still, cns, any)"
  shows "alloc_inv hs T sh' still (d - cns)"
proof -
  have len: "length sh = length hs" and dist: "distinct opn"
    and sub: "set opn \<subseteq> {..<length sh}"
    using inv by (auto simp: alloc_inv_def)
  note r = cap_round_result [OF round dist sub]
  let ?C = "capped hs ws opn d"
  have "(\<Sum>i < length hs. sh' ! i) = (\<Sum>i < length hs. sh ! i) + (\<Sum>i \<in> ?C. cap hs i)"
    using r(2) capped_subset sub inv
    by (intro sum_update_on) (auto simp: alloc_inv_def len dest: subsetD [OF capped_subset])
  then show ?thesis
    using inv r capped_sum_le [OF ok, of d hs] subsetD [OF capped_subset]
    by (auto simp: alloc_inv_def)
qed

lemma frac_okI:
  assumes "alloc_inv hs T sh opn d" and "\<forall>i < length hs. 0 \<le> ws ! i" and "opn \<noteq> []"
  shows "frac_ok ws opn"
  using assms by (auto simp: alloc_inv_def frac_ok_def subset_iff)

lemma alloc_loop_stop: "\<not> (d > EPSILON \<and> opn \<noteq> []) \<Longrightarrow> alloc_loop hs ws sh opn d = sh"
  by (subst alloc_loop.simps) auto

lemma alloc_loop_capped:
  assumes "d > EPSILON \<and> opn \<noteq> []"
    and "cap_round hs (proposed ws opn d) (sh, [], 0, False) = (sh', still, cns, True)"
  shows "alloc_loop hs ws sh opn d = alloc_loop hs ws sh' still (d - cns)"
  using assms by (subst alloc_loop.simps) simp

lemma alloc_loop_assign:
  assumes "d > EPSILON \<and> opn \<noteq> []"
    and "cap_round hs (proposed ws opn d) (sh, [], 0, False) = (sh', still, cns, False)"
  shows "alloc_loop hs ws sh opn d = assign_shares (proposed ws opn d) sh"
  using assms by (subst alloc_loop.simps) simp

text \<open>What the loop returns, for weights that are not negative: every share lies between 0
  and the child's cap, the shares add up to no more than the demand, and the demand is
  met to within \<^verbatim>\<open>f64::EPSILON\<close> unless every child is at its cap.\<close>

lemma alloc_loop_spec:
  assumes "alloc_inv hs T sh opn d" and "\<forall>i < length hs. 0 \<le> ws ! i"
  defines "r \<equiv> alloc_loop hs ws sh opn d"
  shows "length r = length hs \<and> (\<forall>i < length hs. 0 \<le> r ! i \<and> r ! i \<le> cap hs i) \<and>
    (\<Sum>i < length hs. r ! i) \<le> T \<and>
    (T - EPSILON \<le> (\<Sum>i < length hs. r ! i) \<or> (\<forall>i < length hs. r ! i = cap hs i))"
  using assms(1,2) unfolding r_def
proof (induction hs ws sh opn d rule: alloc_loop.induct)
  case (1 hs ws sh opn d)
  note inv = "1.prems"(1)
  show ?case
  proof (cases "d > EPSILON \<and> opn \<noteq> []")
    case False
    then have "alloc_loop hs ws sh opn d = sh" by (rule alloc_loop_stop)
    moreover have "\<forall>i < length hs. 0 \<le> sh ! i \<and> sh ! i \<le> cap hs i"
      using inv by (metis alloc_inv_def cap_nonneg order_refl)
    ultimately show ?thesis
      using inv False by (auto simp: alloc_inv_def)
  next
    case True
    then have ok: "frac_ok ws opn" using frac_okI inv "1.prems"(2) by blast
    obtain sh' still cns any where
      round: "cap_round hs (proposed ws opn d) (sh, [], 0, False) = (sh', still, cns, any)"
      by (metis prod_cases4)
    show ?thesis
    proof (cases any)
      case any: True
      have "alloc_loop hs ws sh opn d = alloc_loop hs ws sh' still (d - cns)"
        using alloc_loop_capped [OF True] any round by simp
      moreover have "alloc_inv hs T sh' still (d - cns)"
        by (rule alloc_inv_round [OF inv ok round])
      ultimately show ?thesis
        using "1.IH" [OF True round [symmetric] refl refl any] "1.prems"(2) by simp
    next
      case False
      let ?P = "\<lambda>i. d * weight_fraction ws opn i"
      let ?r = "assign_shares (proposed ws opn d) sh"
      have eq: "alloc_loop hs ws sh opn d = ?r"
        using alloc_loop_assign [OF True] False round by simp
      have len: "length sh = length hs" and dist: "distinct opn"
        and sub: "set opn \<subseteq> {..<length sh}" using inv by (auto simp: alloc_inv_def)
      have nth: "?r ! i = (if i \<in> set opn then ?P i else sh ! i)" if "i < length hs" for i
        using assign_shares_nth [OF dist, of i sh ?P] that len by (simp add: proposed_def)
      have "capped hs ws opn d = {}"
        using cap_round_result(5) [OF round dist sub] False by simp
      then have below: "?P i \<le> cap hs i" if "i \<in> set opn" for i
        using that by (force simp: capped_def)
      have "(\<Sum>i < length hs. ?r ! i) = (\<Sum>i < length hs. sh ! i) + (\<Sum>i \<in> set opn. ?P i)"
        using nth inv sub by (intro sum_update_on) (auto simp: alloc_inv_def)
      also have "(\<Sum>i \<in> set opn. ?P i) = d"
        using weight_fraction_sum [OF ok] by (simp add: sum_distrib_left [symmetric])
      finally have sum: "(\<Sum>i < length hs. ?r ! i) = T"
        using inv by (simp add: alloc_inv_def)
      have "\<forall>i < length hs. 0 \<le> ?r ! i \<and> ?r ! i \<le> cap hs i"
        using nth below inv weight_fraction_nonneg [OF ok] True
        by (auto simp: alloc_inv_def)
      then show ?thesis
        using eq sum len less_imp_le [OF EPSILON_pos] by simp
    qed
  qed
qed

section \<open>Fairness\<close>

text \<open>
  With positive weights the loop computes a water level: one number that every child's
  share is its weight's multiple of, unless its own cap is lower. The level only rises
  from round to round, because the children capped in a round took less than their part.
\<close>

lemma weight_fraction_pos:
  assumes "distinct opn" and "\<forall>i \<in> set opn. 0 < ws ! i" and "opn \<noteq> []"
  shows "d * weight_fraction ws opn i = ws ! i * (d / (\<Sum>j \<in> set opn. ws ! j))"
proof -
  have "0 < (\<Sum>j \<in> set opn. ws ! j)"
    using assms by (intro sum_pos) auto
  then show ?thesis
    using assms(1) by (simp add: weight_fraction_def sum_list_distinct_conv_sum_set)
qed

lemma level_rises:
  assumes "finite A" and "C \<subseteq> A" and "A - C \<noteq> {}" and "\<forall>i \<in> A. 0 < (w i :: real)"
    and "\<forall>i \<in> C. c i \<le> w i * L" and "d = L * (\<Sum>i \<in> A. w i)"
  shows "L \<le> (d - (\<Sum>i \<in> C. c i)) / (\<Sum>i \<in> A - C. w i)"
proof -
  have pos: "0 < (\<Sum>i \<in> A - C. w i)"
    using assms by (intro sum_pos) auto
  have "(\<Sum>i \<in> C. c i) \<le> (\<Sum>i \<in> C. w i * L)"
    using assms(5) by (intro sum_mono) auto
  also have "\<dots> = L * (\<Sum>i \<in> C. w i)"
    by (simp add: sum_distrib_left mult.commute)
  also have "\<dots> = d - L * (\<Sum>i \<in> A - C. w i)"
    using assms(1,2,6) by (simp add: sum_diff finite_subset algebra_simps)
  finally have "L * (\<Sum>i \<in> A - C. w i) \<le> d - (\<Sum>i \<in> C. c i)" by simp
  then show ?thesis using pos by (simp add: pos_le_divide_eq)
qed

lemma level_exists:
  fixes w :: "nat \<Rightarrow> real"
  assumes "\<forall>i < n. 0 < w i" and "\<forall>i < n. 0 \<le> c i"
  shows "\<exists>l \<ge> 0. \<forall>i < n. c i \<le> w i * l"
proof (intro exI conjI allI impI)
  let ?l = "\<Sum>i < n. c i / w i"
  show "0 \<le> ?l" using assms by (intro sum_nonneg) (auto intro!: divide_nonneg_pos)
  show "c i \<le> w i * ?l" if "i < n" for i
  proof -
    have "c i / w i \<le> ?l"
      using assms that by (intro member_le_sum) (auto intro!: divide_nonneg_pos)
    then show ?thesis using assms that by (simp add: pos_divide_le_eq mult.commute)
  qed
qed

lemma fair_demand:
  assumes "opn \<noteq> []" and w: "\<forall>i \<in> set opn. 0 < ws ! i"
    and e: "\<forall>i \<in> set opn. EPSILON < ws ! i * L0" and L: "L0 \<le> L"
  shows "0 < L" and "EPSILON < L * (\<Sum>i \<in> set opn. ws ! i)"
proof -
  obtain j where j: "j \<in> set opn" using assms(1) by (cases opn) auto
  have "0 < ws ! j * L0" using e j EPSILON_pos by (meson less_trans)
  moreover have "0 < ws ! j" using w j by blast
  ultimately have "0 < L0" by (simp add: zero_less_mult_iff)
  then show pos: "0 < L" using L by simp
  have "EPSILON < ws ! j * L0" using e j by blast
  also have "\<dots> \<le> ws ! j * L" using L w j by (simp add: mult_left_mono)
  also have "\<dots> \<le> (\<Sum>i \<in> set opn. ws ! i) * L"
    using w j pos by (intro mult_right_mono member_le_sum) (auto simp: less_imp_le)
  finally show "EPSILON < L * (\<Sum>i \<in> set opn. ws ! i)" by (simp add: mult.commute)
qed

lemma alloc_loop_fair:
  assumes "alloc_inv hs T sh opn d" and "\<forall>i < length hs. 0 < ws ! i"
    and "\<forall>i < length hs. EPSILON < ws ! i * L0" and "L0 \<le> L"
    and "opn \<noteq> [] \<longrightarrow> d = L * (\<Sum>i \<in> set opn. ws ! i)"
    and "\<forall>i < length hs. i \<notin> set opn \<longrightarrow> cap hs i \<le> ws ! i * L"
  shows "\<exists>l \<ge> 0. \<forall>i < length hs. alloc_loop hs ws sh opn d ! i = min (cap hs i) (ws ! i * l)"
  using assms
proof (induction hs ws sh opn d arbitrary: L rule: alloc_loop.induct)
  case (1 hs ws sh opn d)
  note inv = "1.prems"(1)
  have len: "length sh = length hs" and dist: "distinct opn"
    and sub: "set opn \<subseteq> {..<length sh}" using inv by (auto simp: alloc_inv_def)
  show ?case
  proof (cases "opn = []")
    case True
    obtain l where "0 \<le> l" and "\<forall>i < length hs. cap hs i \<le> ws ! i * l"
      using level_exists [OF "1.prems"(2), of "cap hs"] by auto
    moreover have "alloc_loop hs ws sh opn d = sh" using True by (intro alloc_loop_stop) simp
    ultimately show ?thesis
      using inv True by (auto simp: alloc_inv_def min_def intro!: exI [of _ l])
  next
    case False
    have d: "d = L * (\<Sum>i \<in> set opn. ws ! i)" using "1.prems"(5) False by simp
    have wpos: "\<forall>i \<in> set opn. 0 < ws ! i" using "1.prems"(2) sub len by auto
    have Wpos: "0 < (\<Sum>i \<in> set opn. ws ! i)" using wpos False by (intro sum_pos) auto
    have j: "\<forall>i \<in> set opn. EPSILON < ws ! i * L0" using "1.prems"(3) sub len by auto
    have Lpos: "0 < L" and deps: "d > EPSILON \<and> opn \<noteq> []"
      using fair_demand [OF False wpos j "1.prems"(4)] d False by auto
    have P: "d * weight_fraction ws opn i = ws ! i * L" for i
      using weight_fraction_pos [OF dist wpos False, of d i] d Wpos by simp
    let ?C = "capped hs ws opn d"
    have C: "\<forall>i \<in> ?C. cap hs i \<le> ws ! i * L" by (simp add: capped_def P)
    obtain sh' still cns any where
      round: "cap_round hs (proposed ws opn d) (sh, [], 0, False) = (sh', still, cns, any)"
      by (metis prod_cases4)
    note r = cap_round_result [OF round dist sub]
    have ok: "frac_ok ws opn"
      using inv "1.prems"(2) False by (intro frac_okI [OF inv]) (auto simp: less_imp_le)
    have still: "set still = set opn - ?C" using r(3) by auto
    show ?thesis
    proof (cases any)
      case True
      let ?L = "if still = [] then L else (d - cns) / (\<Sum>i \<in> set still. ws ! i)"
      have rise: "L \<le> ?L"
      proof (cases "still = []")
        case False
        then have ne: "set opn - ?C \<noteq> {}" using still by (metis set_empty)
        show ?thesis
          using level_rises [OF finite_set capped_subset ne wpos C d] False r(4) still by simp
      qed simp
      have "\<exists>l \<ge> 0. \<forall>i < length hs. alloc_loop hs ws sh' still (d - cns) ! i = min (cap hs i) (ws ! i * l)"
      proof (rule "1.IH" [OF deps round [symmetric] refl refl True alloc_inv_round [OF inv ok round] "1.prems"(2,3)])
        show "L0 \<le> ?L" using rise "1.prems"(4) by simp
        show "still \<noteq> [] \<longrightarrow> d - cns = ?L * (\<Sum>i \<in> set still. ws ! i)"
        proof
          assume "still \<noteq> []"
          moreover have "\<forall>i \<in> set still. 0 < ws ! i" using wpos still by auto
          then have "0 < (\<Sum>i \<in> set still. ws ! i)"
            using \<open>still \<noteq> []\<close> by (intro sum_pos) auto
          ultimately show "d - cns = ?L * (\<Sum>i \<in> set still. ws ! i)" by simp
        qed
        show "\<forall>i < length hs. i \<notin> set still \<longrightarrow> cap hs i \<le> ws ! i * ?L"
        proof (intro allI impI)
          fix i assume i: "i < length hs" "i \<notin> set still"
          then have "cap hs i \<le> ws ! i * L" using "1.prems"(6) C still by auto
          also have "\<dots> \<le> ws ! i * ?L"
            using rise "1.prems"(2) i by (intro mult_left_mono) (auto simp: less_imp_le)
          finally show "cap hs i \<le> ws ! i * ?L" .
        qed
      qed
      then show ?thesis using alloc_loop_capped [OF deps] round True by simp
    next
      case anyF: False
      let ?r = "assign_shares (proposed ws opn d) sh"
      have eq: "alloc_loop hs ws sh opn d = ?r"
        using alloc_loop_assign [OF deps] round anyF by simp
      have nth: "?r ! i = (if i \<in> set opn then ws ! i * L else sh ! i)" if "i < length hs" for i
        using assign_shares_nth [OF dist, of i sh "\<lambda>i. d * weight_fraction ws opn i"] that len P
        by (simp add: proposed_def)
      have "?C = {}" using r(5) anyF by simp
      then have below: "ws ! i * L \<le> cap hs i" if "i \<in> set opn" for i
        using that by (force simp: capped_def P)
      have "?r ! i = min (cap hs i) (ws ! i * L)" if "i < length hs" for i
        using nth [OF that] below [of i] that "1.prems"(6) inv
        by (cases "i \<in> set opn") (simp_all add: alloc_inv_def min.absorb1 min.absorb2)
      then show ?thesis using eq Lpos by (auto intro!: exI [of _ L])
    qed
  qed
qed

section \<open>The allocation\<close>

definition eligible :: "child_capacity list \<Rightarrow> child_capacity list" where
  "eligible cs = filter (\<lambda>c. is_eligible (cp_operating_state c)) cs"

definition child_cap :: "child_capacity \<Rightarrow> f64" where
  "child_cap c = max (cp_headroom c) 0"

definition soc_ok :: "child_capacity \<Rightarrow> bool" where
  "soc_ok c \<longleftrightarrow> 0 \<le> cp_state_of_charge c \<and> cp_state_of_charge c \<le> 100"

definition alloc_shares :: "f64 \<Rightarrow> child_capacity list \<Rightarrow> allocation_policy \<Rightarrow> f64 list" where
  "alloc_shares tot cs policy =
     alloc_loop (map cp_headroom (eligible cs)) (policy_weights policy (eligible cs) (sign_of tot))
       (replicate (length (eligible cs)) 0) [0..<length (eligible cs)] \<bar>tot\<bar>"

lemma allocate_eq:
  "allocate tot cs policy =
     map (\<lambda>(c, s). (cp_device_id c, sign_of tot * s)) (zip (eligible cs) (alloc_shares tot cs policy))"
  by (simp add: allocate_def alloc_shares_def eligible_def Let_def)

lemma eligible_subset: "set (eligible cs) \<subseteq> set cs"
  by (auto simp: eligible_def)

lemma sign_of_mult [simp]: "sign_of t * sign_of t = 1"
  by (simp add: sign_of_def)

lemma abs_sign_of [simp]: "\<bar>sign_of t\<bar> = 1"
  by (simp add: sign_of_def)

lemma policy_weights_length [simp]: "length (policy_weights p cs s) = length cs"
  by (simp add: policy_weights_def Let_def split: allocation_policy.split)

lemma policy_weights_nonneg:
  assumes "\<forall>c \<in> set cs. soc_ok c" and "i < length cs"
  shows "0 \<le> policy_weights p cs s ! i"
  using assms by (auto simp: policy_weights_def Let_def soc_ok_def split: allocation_policy.split)

lemma cap_child_cap: "i < length cs \<Longrightarrow> cap (map cp_headroom cs) i = child_cap (cs ! i)"
  by (simp add: cap_def child_cap_def)

lemma alloc_inv_init:
  assumes "0 \<le> T"
  shows "alloc_inv hs T (replicate (length hs) 0) [0..<length hs] T"
  using assms by (auto simp: alloc_inv_def)

lemma cap_round_length:
  "cap_round hs ps (sh, so, cns, any) = (sh', so', cns', any') \<Longrightarrow> length sh' = length sh"
  by (auto simp: cap_round_char)

lemma alloc_loop_length [simp]: "length (alloc_loop hs ws sh opn d) = length sh"
proof (induction hs ws sh opn d rule: alloc_loop.induct)
  case (1 hs ws sh opn d)
  obtain sh' still cns any where
    round: "cap_round hs (proposed ws opn d) (sh, [], 0, False) = (sh', still, cns, any)"
    by (metis prod_cases4)
  show ?case
    using 1 round cap_round_length [OF round]
    by (subst alloc_loop.simps) auto
qed

lemma alloc_shares_length [simp]: "length (alloc_shares t cs p) = length (eligible cs)"
  by (simp add: alloc_shares_def)

lemma alloc_shares_spec:
  fixes t :: f64 and p :: allocation_policy
  assumes "\<forall>c \<in> set cs. soc_ok c"
  defines "r \<equiv> alloc_shares t cs p"
  shows "\<And>i. i < length (eligible cs) \<Longrightarrow> 0 \<le> r ! i \<and> r ! i \<le> child_cap (eligible cs ! i)"
    and "sum_list r \<le> \<bar>t\<bar>"
    and "\<bar>t\<bar> - EPSILON \<le> sum_list r \<or> (\<forall>i < length (eligible cs). r ! i = child_cap (eligible cs ! i))"
proof -
  have "\<forall>c \<in> set (eligible cs). soc_ok c" using assms(1) by (auto simp: eligible_def)
  then have w: "\<forall>i < length (map cp_headroom (eligible cs)).
      0 \<le> policy_weights p (eligible cs) (sign_of t) ! i"
    using policy_weights_nonneg by simp
  have inv: "alloc_inv (map cp_headroom (eligible cs)) \<bar>t\<bar>
      (replicate (length (eligible cs)) 0) [0..<length (eligible cs)] \<bar>t\<bar>"
    using alloc_inv_init [of "\<bar>t\<bar>" "map cp_headroom (eligible cs)"] by simp
  note spec = alloc_loop_spec [OF inv w]
  have sum: "(\<Sum>i < length (eligible cs). r ! i) = sum_list r"
    by (simp add: sum_list_sum_nth r_def atLeast0LessThan)
  show "0 \<le> r ! i \<and> r ! i \<le> child_cap (eligible cs ! i)" if "i < length (eligible cs)" for i
    using spec that by (simp add: r_def alloc_shares_def cap_child_cap)
  show "sum_list r \<le> \<bar>t\<bar>"
    using spec sum by (simp add: r_def alloc_shares_def)
  show "\<bar>t\<bar> - EPSILON \<le> sum_list r \<or> (\<forall>i < length (eligible cs). r ! i = child_cap (eligible cs ! i))"
    using spec sum by (auto simp: r_def alloc_shares_def cap_child_cap)
qed

lemma map_fst_allocate: "map fst (allocate t cs p) = map cp_device_id (eligible cs)"
  by (rule nth_equalityI) (auto simp: allocate_eq)

lemma map_abs_allocate:
  assumes "\<forall>c \<in> set cs. soc_ok c"
  shows "map (\<lambda>(d, s). \<bar>s\<bar>) (allocate t cs p) = alloc_shares t cs p"
  using alloc_shares_spec(1) [OF assms, of _ t p]
  by (intro nth_equalityI) (auto simp: allocate_eq abs_mult)

lemma allocate_nth:
  assumes "i < length (eligible cs)"
  shows "allocate t cs p ! i = (cp_device_id (eligible cs ! i), sign_of t * alloc_shares t cs p ! i)"
  using assms by (simp add: allocate_eq)

lemma length_allocate [simp]: "length (allocate t cs p) = length (eligible cs)"
  by (simp add: allocate_eq)

section \<open>What the callers rely on\<close>

text \<open>
  An allocator answers for the eligible children only, in their order; a share points the
  way the total does and stays within the child's room; and the shares never add up to
  more than was asked. The lemmas inside are what the rack split, the module split and the
  spare-discharge estimate use.
\<close>

locale allocator =
  fixes alloc :: "f64 \<Rightarrow> child_capacity list \<Rightarrow> (string \<times> f64) list"
    and ok :: "child_capacity \<Rightarrow> bool"
  assumes alloc_ids: "map fst (alloc t cs) = map cp_device_id (eligible cs)"
    and alloc_share: "\<forall>c \<in> set cs. ok c \<Longrightarrow> i < length (eligible cs) \<Longrightarrow>
      0 \<le> sign_of t * snd (alloc t cs ! i) \<and> \<bar>snd (alloc t cs ! i)\<bar> \<le> child_cap (eligible cs ! i)"
    and alloc_sum: "\<forall>c \<in> set cs. ok c \<Longrightarrow> (\<Sum>(d, s) \<leftarrow> alloc t cs. \<bar>s\<bar>) \<le> \<bar>t\<bar>"
begin

lemma alloc_length: "length (alloc t cs) = length (eligible cs)"
  using arg_cong [OF alloc_ids, of length] by simp

lemma alloc_member:
  assumes "\<forall>c \<in> set cs. ok c" and "(d, s) \<in> set (alloc t cs)"
  shows "\<exists>c \<in> set cs. cp_device_id c = d \<and> is_eligible (cp_operating_state c) \<and>
    0 \<le> sign_of t * s \<and> \<bar>s\<bar> \<le> child_cap c"
proof -
  from assms(2) obtain i where i: "i < length (eligible cs)" "alloc t cs ! i = (d, s)"
    by (metis alloc_length in_set_conv_nth)
  have "d = cp_device_id (eligible cs ! i)"
    using arg_cong [OF alloc_ids, of "\<lambda>l. l ! i" t cs] i alloc_length by simp
  moreover have "eligible cs ! i \<in> set (eligible cs)" using i by simp
  ultimately show ?thesis
    using alloc_share [OF assms(1) i(1), of t] i(2) by (auto simp: eligible_def)
qed

lemma alloc_no_room:
  assumes "\<forall>c \<in> set cs. ok c" and "distinct (map cp_device_id cs)"
    and "c \<in> set cs" and "cp_headroom c \<le> 0" and "(cp_device_id c, s) \<in> set (alloc t cs)"
  shows "s = 0"
proof -
  obtain c' where c': "c' \<in> set cs" "cp_device_id c' = cp_device_id c" "\<bar>s\<bar> \<le> child_cap c'"
    using alloc_member [OF assms(1,5)] by blast
  then have "c' = c" using assms(2,3) by (auto simp: distinct_map dest: inj_onD)
  then show ?thesis using c' assms(4) by (simp add: child_cap_def)
qed

lemma alloc_not_eligible:
  assumes "distinct (map cp_device_id cs)" and "c \<in> set cs"
    and "\<not> is_eligible (cp_operating_state c)"
  shows "cp_device_id c \<notin> fst ` set (alloc t cs)"
proof
  assume "cp_device_id c \<in> fst ` set (alloc t cs)"
  then have "cp_device_id c \<in> set (map cp_device_id (eligible cs))"
    using alloc_ids [of t cs] by (metis list.set_map)
  then obtain c' where "c' \<in> set (eligible cs)" "cp_device_id c' = cp_device_id c" by auto
  then have "c' = c" using assms(1,2) eligible_subset by (auto simp: distinct_map dest: inj_onD)
  then show False using \<open>c' \<in> set (eligible cs)\<close> assms(3) by (simp add: eligible_def)
qed

lemma alloc_delivered:
  assumes "\<forall>c \<in> set cs. ok c"
  shows "\<bar>\<Sum>(d, s) \<leftarrow> alloc t cs. s\<bar> \<le> \<bar>t\<bar>"
proof -
  have "\<bar>\<Sum>(d, s) \<leftarrow> xs. s\<bar> \<le> (\<Sum>(d, s) \<leftarrow> xs. \<bar>s\<bar>)" for xs :: "(string \<times> f64) list"
    by (induction xs) (auto intro: order_trans [OF abs_triangle_ineq])
  then show ?thesis using alloc_sum [OF assms, of t] order_trans by blast
qed

end

interpretation alloc: allocator "\<lambda>t cs. allocate t cs p" soc_ok for p
proof
  show "map fst (allocate t cs p) = map cp_device_id (eligible cs)" for t cs
    by (rule map_fst_allocate)
  show "0 \<le> sign_of t * snd (allocate t cs p ! i) \<and>
      \<bar>snd (allocate t cs p ! i)\<bar> \<le> child_cap (eligible cs ! i)"
    if "\<forall>c \<in> set cs. soc_ok c" and "i < length (eligible cs)" for cs i t
    using alloc_shares_spec(1) [OF that, of t p] that(2)
    by (simp add: allocate_nth abs_mult mult.assoc [symmetric])
  show "(\<Sum>(d, s) \<leftarrow> allocate t cs p. \<bar>s\<bar>) \<le> \<bar>t\<bar>" if "\<forall>c \<in> set cs. soc_ok c" for cs t
    using alloc_shares_spec(2) [OF that, of t p] map_abs_allocate [OF that, of t p] by simp
qed

section \<open>Properties\<close>

lemma allocate_level:
  assumes "policy_weights p (eligible cs) (sign_of t) = map w (eligible cs)"
    and "\<forall>c \<in> set (eligible cs). 0 < w c"
    and "\<forall>c \<in> set (eligible cs). EPSILON * (\<Sum>c \<leftarrow> eligible cs. w c) < \<bar>t\<bar> * w c"
  shows "\<exists>l \<ge> 0. allocate t cs p =
    map (\<lambda>c. (cp_device_id c, sign_of t * min (child_cap c) (w c * l))) (eligible cs)"
proof (cases "eligible cs = []")
  case True
  then show ?thesis by (auto simp: allocate_eq intro!: exI [of _ 0])
next
  case False
  let ?e = "eligible cs" and ?hs = "map cp_headroom (eligible cs)"
  let ?W = "\<Sum>c \<leftarrow> eligible cs. w c"
  have W: "(\<Sum>i \<in> set [0..<length ?e]. map w ?e ! i) = ?W"
    by (simp add: sum_list_sum_nth)
  have Wpos: "0 < ?W"
    using W False assms(2) by (subst W [symmetric], intro sum_pos) auto
  have inv: "alloc_inv ?hs \<bar>t\<bar> (replicate (length ?e) 0) [0..<length ?e] \<bar>t\<bar>"
    using alloc_inv_init [of "\<bar>t\<bar>" ?hs] by simp
  have eps: "\<forall>i < length ?hs. EPSILON < map w ?e ! i * (\<bar>t\<bar> / ?W)"
    using assms(3) Wpos by (auto simp: pos_less_divide_eq mult.commute)
  obtain l where l: "0 \<le> l" "\<forall>i < length ?e. alloc_shares t cs p ! i = min (cap ?hs i) (map w ?e ! i * l)"
    using alloc_loop_fair [OF inv _ eps order_refl] W Wpos assms(1,2)
    by (auto simp: alloc_shares_def)
  then have "allocate t cs p = map (\<lambda>c. (cp_device_id c, sign_of t * min (child_cap c) (w c * l))) ?e"
    by (intro nth_equalityI) (auto simp: allocate_nth cap_child_cap)
  then show ?thesis using l(1) by blast
qed


definition ex_rack :: "string \<Rightarrow> operating_state \<Rightarrow> f64 \<Rightarrow> f64 \<Rightarrow> child_capacity" where
  "ex_rack d st h soc = \<lparr>cp_device_id = d, cp_operating_state = st, cp_headroom = h, cp_state_of_charge = soc\<rparr>"

lemma ex_rack_sel [simp]:
  "cp_device_id (ex_rack d st h soc) = d" "cp_operating_state (ex_rack d st h soc) = st"
  "cp_headroom (ex_rack d st h soc) = h" "cp_state_of_charge (ex_rack d st h soc) = soc"
  by (simp_all add: ex_rack_def)


definition soc_weight :: "f64 \<Rightarrow> child_capacity \<Rightarrow> f64" where
  "soc_weight t c = (if sign_of t > 0 then cp_state_of_charge c else 100 - cp_state_of_charge c)"



text \<open>Whatever the policy, a share goes to an eligible child only (never to one in fault or
  offline), points the way the total does and is no larger than that child's own room.\<close>

lemma allocate_share_bounded:
  assumes "\<forall>c \<in> set cs. soc_ok c" and "(d, s) \<in> set (allocate t cs p)"
  shows "\<exists>c \<in> set cs. cp_device_id c = d \<and> is_eligible (cp_operating_state c) \<and>
    0 \<le> sign_of t * s \<and> \<bar>s\<bar> \<le> child_cap c"
  using assms by (rule alloc.alloc_member)

text \<open>The shares never add up to more than the total asks for, and they fall short of it by
  more than \<^verbatim>\<open>f64::EPSILON\<close> only when every eligible child is already at its own room: what
  one child cannot take is handed on to the others.\<close>

lemma allocate_delivers:
  assumes "\<forall>c \<in> set cs. soc_ok c"
  shows "(\<Sum>(d, s) \<leftarrow> allocate t cs p. \<bar>s\<bar>) \<le> \<bar>t\<bar> \<and>
    (\<bar>t\<bar> - EPSILON \<le> (\<Sum>(d, s) \<leftarrow> allocate t cs p. \<bar>s\<bar>) \<or>
     map (\<lambda>(d, s). \<bar>s\<bar>) (allocate t cs p) = map child_cap (eligible cs))"
  using alloc_shares_spec(2,3) [OF assms, of t p] map_abs_allocate [OF assms, of t p]
  by (auto intro: nth_equalityI)

text \<open>
  The state of charge comes from a cached reading and is not range checked. A reading above
  100 on a charge command gives a negative weight, and that child is told to discharge.
\<close>

theorem allocate_soc_above_100_reverses:
  "allocate (- 90) [ex_rack ''a'' Standby 1000 110, ex_rack ''b'' Standby 1000 0] SocWeighted =
     [(''a'', 10), (''b'', - 100)]"
proof -
  have "[0..<2] = [0, 1::nat]" by (simp add: upt_rec)
  then show ?thesis
    by (simp add: allocate_def policy_weights_def sign_of_def EPSILON_def
        alloc_loop.simps proposed_def weight_fraction_def cap_def numeral_2_eq_2)
qed

end
