(* ===== verification/Distribution.thy ===== *)
theory Distribution
  imports Allocation
begin

text \<open>
  How a module's setpoint becomes one share per child: the cache of readings
  (\<^verbatim>\<open>synthetic/cache.rs\<close>), a rack's operating state (\<^verbatim>\<open>dispatch/operating_state.rs\<close>), its
  live limits (\<^verbatim>\<open>dispatch/rack_limits.rs\<close>), the reserve floor (\<^verbatim>\<open>dispatch/reserve.rs\<close>) and
  \<^verbatim>\<open>compute_shares\<close> (\<^verbatim>\<open>dispatch/distribute.rs\<close>); and the guard fields of a distribute
  binding (\<^verbatim>\<open>envelope/config.rs\<close>). One operation sees one reading of the clock and one
  state of the cache.
\<close>

section \<open>The input cache\<close>

type_synonym input_cache = "string \<rightharpoonup> json \<times> instant"

definition new_input_cache :: input_cache where
  "new_input_cache = Map.empty"

definition substitute_site_id :: "string \<Rightarrow> string \<Rightarrow> string" where
  "substitute_site_id raw site_id = replace_all ''{site_id}'' site_id raw"

section \<open>Operating state\<close>

definition operating_state_from_f64 :: "f64 \<Rightarrow> operating_state outcome" where
  "operating_state_from_f64 raw =
     (let n = rust_round raw in
      if n = 0 then Ok Standby else if n = 1 then Ok Charging else if n = 2 then Ok Discharging
      else if n = 3 then Ok Fault else if n = 4 then Ok Offline
      else Err (E ''unknown operating_state value'' []))"

definition operating_state_of :: "json \<Rightarrow> operating_state outcome" where
  "operating_state_of value = (case as_str value of
     Some l \<Rightarrow>
       if l = ''STANDBY'' then Ok Standby else if l = ''CHARGING'' then Ok Charging
       else if l = ''DISCHARGING'' then Ok Discharging else if l = ''FAULT'' then Ok Fault
       else if l = ''OFFLINE'' then Ok Offline
       else Err (E ''unknown operating_state label'' [S l])
   | None \<Rightarrow> bind_outcome (ok_or (as_number value) (E ''operating_state is'' [])) operating_state_from_f64)"

section \<open>Live limits\<close>

definition STALE_AFTER :: duration where
  "STALE_AFTER = secs 5"

definition limit_topic :: "string \<Rightarrow> string \<Rightarrow> bool \<Rightarrow> string" where
  "limit_topic site_id device_id charging =
     ''sites/'' @ site_id @ ''/devices/'' @ device_id @ ''/measurements/''
       @ (if charging then ''max_charge_power'' else ''max_discharge_power'') @ ''/watts''"

definition live_limit :: "instant \<Rightarrow> input_cache \<Rightarrow> string \<Rightarrow> f64 option" where
  "live_limit now cache topic = (case cache topic of
     None \<Rightarrow> None
   | Some (v, received) \<Rightarrow> if elapsed now received \<le> STALE_AFTER then as_number v else None)"

text \<open>\<^verbatim>\<open>note_fallback\<close> only logs; it has its own section below.\<close>

definition headroom :: "instant \<Rightarrow> child_allocation \<Rightarrow> f64 \<Rightarrow> string \<Rightarrow> input_cache \<Rightarrow> f64" where
  "headroom now c target site_id cache =
     (let charging = target < 0;
          static_w = (if charging then \<bar>ca_power_min c\<bar> else ca_power_max c)
      in case live_limit now cache (limit_topic site_id (ca_device_id c) charging) of
           None \<Rightarrow> static_w
         | Some limit \<Rightarrow> min static_w (max limit 0))"

section \<open>The reserve floor\<close>

definition operator_reserve_percent :: "distribute_binding \<Rightarrow> string \<Rightarrow> input_cache \<Rightarrow> f64 option" where
  "operator_reserve_percent b site_id cache = (case d_site_capacity_wh b of
     None \<Rightarrow> None
   | Some capacity_wh \<Rightarrow>
       if \<not> capacity_wh > 0 then None
       else (case d_operator_reserve_topic b of
         None \<Rightarrow> None
       | Some raw \<Rightarrow>
           (case cache (substitute_site_id raw site_id) of
              None \<Rightarrow> None
            | Some (v, _) \<Rightarrow>
                map_option (\<lambda>reserve_wh. max 0 (min 100 (reserve_wh / capacity_wh * 100))) (as_number v))))"

definition effective_floor_percent :: "distribute_binding \<Rightarrow> string \<Rightarrow> input_cache \<Rightarrow> f64 option" where
  "effective_floor_percent b site_id cache =
     (case (d_state_of_charge_floor_percent b, operator_reserve_percent b site_id cache) of
        (Some supplier, Some operator) \<Rightarrow> Some (max supplier operator)
      | (Some supplier, None) \<Rightarrow> Some supplier
      | (None, operator) \<Rightarrow> operator)"

section \<open>Shares\<close>

definition resolve_child :: "instant \<Rightarrow> child_allocation \<Rightarrow> f64 \<Rightarrow> string \<Rightarrow> input_cache \<Rightarrow> child_capacity outcome" where
  "resolve_child now c target site_id cache =
     bind_outcome (ok_or (cache (replace_all ''{site_id}'' site_id (ca_operating_state_topic c)))
       (E ''no cached operating_state'' [S (ca_device_id c)])) (\<lambda>(state_value, state_at).
     bind_outcome (ok_or (cache (replace_all ''{site_id}'' site_id (ca_state_of_charge_topic c)))
       (E ''no cached state_of_charge'' [S (ca_device_id c)])) (\<lambda>(soc_value, soc_at).
     bind_outcome (ok_or (as_number soc_value) (E ''state_of_charge'' [S (ca_device_id c)])) (\<lambda>soc.
     bind_outcome
       (if elapsed now state_at > STALE_AFTER \<or> elapsed now soc_at > STALE_AFTER then Ok Offline
        else operating_state_of state_value) (\<lambda>st.
     Ok \<lparr>cp_device_id = ca_device_id c, cp_operating_state = st,
         cp_headroom = headroom now c target site_id cache, cp_state_of_charge = soc\<rparr>))))"

definition apply_reserve_floor :: "f64 option \<Rightarrow> child_capacity \<Rightarrow> f64 \<Rightarrow> child_capacity" where
  "apply_reserve_floor flr child target = (case flr of
     Some f \<Rightarrow> if target > 0 \<and> cp_state_of_charge child \<le> f then child\<lparr>cp_headroom := 0\<rparr> else child
   | None \<Rightarrow> child)"

text \<open>The children the split works on, and the loop that adds the ones it left out at 0 W.\<close>

definition split_children :: "instant \<Rightarrow> distribute_binding \<Rightarrow> f64 \<Rightarrow> string \<Rightarrow> input_cache \<Rightarrow> string set \<Rightarrow> child_capacity list outcome" where
  "split_children now b target site_id cache locked =
     collect_outcome (map (\<lambda>c.
         bind_outcome (resolve_child now c target site_id cache) (\<lambda>child.
           Ok (apply_reserve_floor (effective_floor_percent b site_id cache) child target)))
       (filter (\<lambda>c. ca_device_id c \<notin> locked) (d_children b)))"

definition push_missing :: "(string \<times> f64) list \<Rightarrow> child_capacity \<Rightarrow> (string \<times> f64) list" where
  "push_missing shares c =
     (if list_all (\<lambda>(i, _). i \<noteq> cp_device_id c) shares then shares @ [(cp_device_id c, 0)] else shares)"

definition compute_shares :: "instant \<Rightarrow> distribute_binding \<Rightarrow> f64 \<Rightarrow> string \<Rightarrow> input_cache \<Rightarrow> string set \<Rightarrow> (string \<times> f64) list outcome" where
  "compute_shares now b target site_id cache locked =
     bind_outcome (parse_policy (d_allocation_policy b)) (\<lambda>policy.
     bind_outcome (split_children now b target site_id cache locked) (\<lambda>children.
     Ok (foldl push_missing (allocate target children policy) children)))"

section \<open>Guarded modules\<close>

record envelope_config =
  ec_ramp_rate_per_sec :: f64
  ec_hysteresis_margin :: f64
  ec_hysteresis_dwell :: duration

record envelope_guard =
  eg_control :: envelope_config
  eg_power_min :: f64
  eg_power_max :: f64
  eg_import_limit_topic :: string
  eg_export_limit_topic :: string
  eg_active_power_topic :: string
  eg_poi_active_power_topic :: "string option"

text \<open>The fields are taken in order; the dwell is converted, and may panic, before the later
  ones are looked at.\<close>

definition envelope_guard_config :: "distribute_binding \<Rightarrow> envelope_guard option outcome" where
  "envelope_guard_config d =
     (case (d_ramp_rate_per_sec d, d_hysteresis_margin d, d_hysteresis_dwell_secs d) of
        (Some ramp, Some margin, Some dwell_secs) \<Rightarrow>
          bind_outcome (from_secs_f64 dwell_secs) (\<lambda>dwell.
          Ok (case (d_power_min d, d_power_max d, d_import_limit_topic d, d_export_limit_topic d, d_active_power_topic d) of
                (Some pmin, Some pmax, Some imp, Some exp_topic, Some act) \<Rightarrow>
                  Some \<lparr>eg_control = \<lparr>ec_ramp_rate_per_sec = ramp, ec_hysteresis_margin = margin, ec_hysteresis_dwell = dwell\<rparr>,
                        eg_power_min = pmin, eg_power_max = pmax, eg_import_limit_topic = imp,
                        eg_export_limit_topic = exp_topic, eg_active_power_topic = act,
                        eg_poi_active_power_topic = d_poi_active_power_topic d\<rparr>
              | _ \<Rightarrow> None))
      | _ \<Rightarrow> Ok None)"

section \<open>Who gets a share\<close>

lemma foldl_push_missing:
  assumes "distinct (map cp_device_id cs)"
  shows "foldl push_missing shares cs =
    shares @ map (\<lambda>c. (cp_device_id c, 0)) (filter (\<lambda>c. cp_device_id c \<notin> fst ` set shares) cs)"
  using assms
proof (induction cs arbitrary: shares)
  case Nil
  show ?case by simp
next
  case (Cons c cs)
  have new: "list_all (\<lambda>(i, _). i \<noteq> cp_device_id c) shares \<longleftrightarrow> cp_device_id c \<notin> fst ` set shares"
    by (force simp: list_all_iff)
  have "filter (\<lambda>x. cp_device_id x \<noteq> cp_device_id c \<and> cp_device_id x \<notin> fst ` set shares) cs =
      filter (\<lambda>x. cp_device_id x \<notin> fst ` set shares) cs"
    using Cons.prems by (intro filter_cong refl) (metis distinct.simps(2) image_eqI list.simps(9) set_map)
  with Cons new show ?case
    by (simp add: push_missing_def)
qed

lemma split_children_Ok:
  "split_children now b t site cache locked = Ok cs \<longleftrightarrow>
    list_all2 (\<lambda>c k. \<exists>k'. resolve_child now c t site cache = Ok k' \<and>
        k = apply_reserve_floor (effective_floor_percent b site cache) k' t)
      (filter (\<lambda>c. ca_device_id c \<notin> locked) (d_children b)) cs"
  by (simp add: split_children_def collect_outcome_Ok list_all2_map1 eq_commute [of "apply_reserve_floor _ _ _"])

lemma resolve_child_fields:
  assumes "resolve_child now c t site cache = Ok k"
  shows "cp_device_id k = ca_device_id c" and "cp_headroom k = headroom now c t site cache"
  using assms by (auto simp: resolve_child_def)

lemma apply_reserve_floor_id [simp]:
  "cp_device_id (apply_reserve_floor f k t) = cp_device_id k"
  "cp_operating_state (apply_reserve_floor f k t) = cp_operating_state k"
  "cp_state_of_charge (apply_reserve_floor f k t) = cp_state_of_charge k"
  by (simp_all add: apply_reserve_floor_def split: option.split)

lemma split_children_ids:
  assumes "split_children now b t site cache locked = Ok cs"
  shows "map cp_device_id cs = map ca_device_id (filter (\<lambda>c. ca_device_id c \<notin> locked) (d_children b))"
  using assms unfolding split_children_Ok
  by (induction rule: list_all2_induct) (auto simp: resolve_child_fields)

definition child_ids :: "distribute_binding \<Rightarrow> string list" where
  "child_ids b = map ca_device_id (d_children b)"

lemma distinct_unlocked:
  "distinct (child_ids b) \<Longrightarrow> distinct (map ca_device_id (filter (\<lambda>c. ca_device_id c \<notin> locked) (d_children b)))"
  by (auto simp: child_ids_def distinct_map intro: inj_on_subset)

lemma compute_shares_cases:
  assumes "compute_shares now b t site cache locked = Ok shares" and "distinct (child_ids b)"
  obtains p cs where "split_children now b t site cache locked = Ok cs" and "distinct (map cp_device_id cs)"
    and "shares = allocate t cs p @
      map (\<lambda>c. (cp_device_id c, 0)) (filter (\<lambda>c. \<not> is_eligible (cp_operating_state c)) cs)"
proof -
  from assms(1) obtain p cs where cs: "split_children now b t site cache locked = Ok cs"
    and sh: "shares = foldl push_missing (allocate t cs p) cs"
    by (auto simp: compute_shares_def)
  have d: "distinct (map cp_device_id cs)"
    using split_children_ids [OF cs] distinct_unlocked [OF assms(2)] by simp
  have ids: "fst ` set (allocate t cs p) = cp_device_id ` set (eligible cs)"
    using arg_cong [OF map_fst_allocate [of t cs p], of set] by simp
  have "cp_device_id c \<notin> cp_device_id ` set (eligible cs) \<longleftrightarrow> \<not> is_eligible (cp_operating_state c)" if "c \<in> set cs" for c
    using that d by (auto simp: eligible_def distinct_map dest: inj_onD)
  then have "filter (\<lambda>c. cp_device_id c \<notin> fst ` set (allocate t cs p)) cs =
      filter (\<lambda>c. \<not> is_eligible (cp_operating_state c)) cs"
    by (intro filter_cong refl) (simp add: ids)
  with sh show ?thesis
    by (intro that [OF cs d]) (simp add: foldl_push_missing [OF d])
qed

lemma shares_of_children:
  assumes "compute_shares now b t site cache locked = Ok shares" and "distinct (child_ids b)"
  shows "mset (map fst shares) = mset (filter (\<lambda>d. d \<notin> locked) (child_ids b)) \<and> distinct (map fst shares)"
proof -
  from compute_shares_cases [OF assms] obtain p cs where
    cs: "split_children now b t site cache locked = Ok cs" and d: "distinct (map cp_device_id cs)"
    and sh: "shares = allocate t cs p @
      map (\<lambda>c. (cp_device_id c, 0)) (filter (\<lambda>c. \<not> is_eligible (cp_operating_state c)) cs)" .
  have "mset (map fst shares) = image_mset cp_device_id (mset (eligible cs) + mset (filter (\<lambda>c. \<not> is_eligible (cp_operating_state c)) cs))"
    by (simp add: sh map_fst_allocate comp_def)
  also have "\<dots> = mset (map cp_device_id cs)"
    by (simp add: eligible_def multiset_partition [symmetric])
  finally have ms: "mset (map fst shares) = mset (map cp_device_id cs)" .
  with d split_children_ids [OF cs] show ?thesis
    by (simp add: child_ids_def filter_map comp_def mset_eq_imp_distinct_iff [OF ms])
qed

lemma share_ids:
  assumes "compute_shares now b t site cache locked = Ok shares" and "distinct (child_ids b)"
  shows "fst ` set shares = set (child_ids b) - locked"
  using arg_cong [OF conjunct1 [OF shares_of_children [OF assms]], of set_mset] by auto

text \<open>
  (C11) Every child that is not locked out is written exactly once and a locked-out one not at
  all: the devices of the shares are the unlocked children of the binding, without repetition,
  the ones that cannot take part included.
\<close>

theorem compute_shares_covers:
  assumes "compute_shares now b t site cache locked = Ok shares" and "distinct (child_ids b)"
  shows "mset (map fst shares) = mset (filter (\<lambda>d. d \<notin> locked) (child_ids b)) \<and> distinct (map fst shares)"
  by (rule shares_of_children [OF assms])

definition soc_sane :: "distribute_binding \<Rightarrow> string \<Rightarrow> input_cache \<Rightarrow> bool" where
  "soc_sane b site cache \<longleftrightarrow> (\<forall>c \<in> set (d_children b). \<forall>v received x.
     cache (replace_all ''{site_id}'' site (ca_state_of_charge_topic c)) = Some (v, received) \<longrightarrow>
     as_number v = Some x \<longrightarrow> 0 \<le> x \<and> x \<le> 100)"

lemma split_children_member:
  assumes "split_children now b t site cache locked = Ok cs" and "k \<in> set cs"
  obtains c k' where "c \<in> set (d_children b)" and "ca_device_id c \<notin> locked"
    and "resolve_child now c t site cache = Ok k'"
    and "k = apply_reserve_floor (effective_floor_percent b site cache) k' t"
  using list_all2_in_set2 [OF assms(1) [unfolded split_children_Ok] assms(2)] by auto

lemma split_children_soc_ok:
  assumes "split_children now b t site cache locked = Ok cs" and "soc_sane b site cache" and "k \<in> set cs"
  shows "soc_ok k"
  using assms(1,3)
proof (rule split_children_member)
  fix c k'
  assume "c \<in> set (d_children b)" and "resolve_child now c t site cache = Ok k'"
    and "k = apply_reserve_floor (effective_floor_percent b site cache) k' t"
  with assms(2) show ?thesis
    by (auto simp: soc_sane_def soc_ok_def resolve_child_def)
qed

text \<open>The room of a child as the split sees it, and what makes it unusable.\<close>

definition usable :: "instant \<Rightarrow> distribute_binding \<Rightarrow> f64 \<Rightarrow> string \<Rightarrow> input_cache \<Rightarrow> child_allocation \<Rightarrow> bool" where
  "usable now b t site cache c \<longleftrightarrow>
     (\<exists>state_value state_at soc_value soc_at soc st.
        cache (replace_all ''{site_id}'' site (ca_operating_state_topic c)) = Some (state_value, state_at) \<and>
        cache (replace_all ''{site_id}'' site (ca_state_of_charge_topic c)) = Some (soc_value, soc_at) \<and>
        elapsed now state_at \<le> STALE_AFTER \<and> elapsed now soc_at \<le> STALE_AFTER \<and>
        operating_state_of state_value = Ok st \<and> is_eligible st \<and> as_number soc_value = Some soc \<and>
        (t > 0 \<longrightarrow> (\<forall>flr. effective_floor_percent b site cache = Some flr \<longrightarrow> flr < soc)))"

lemma share_usable:
  assumes "resolve_child now c t site cache = Ok k'" and "is_eligible (cp_operating_state k')"
    and "0 < child_cap (apply_reserve_floor (effective_floor_percent b site cache) k' t)"
  shows "usable now b t site cache c"
  using assms
  by (fastforce simp: resolve_child_def usable_def apply_reserve_floor_def child_cap_def not_less
      split: if_splits option.splits)

lemma shares_within_bounds:
  assumes "compute_shares now b t site cache locked = Ok shares" and "distinct (child_ids b)"
    and "soc_sane b site cache"
  shows "(\<forall>(d, s) \<in> set shares. \<exists>c \<in> set (d_children b). ca_device_id c = d \<and>
      0 \<le> sign_of t * s \<and> \<bar>s\<bar> \<le> max 0 (headroom now c t site cache) \<and>
      (s \<noteq> 0 \<longrightarrow> usable now b t site cache c)) \<and>
    (\<Sum>(d, s) \<leftarrow> shares. \<bar>s\<bar>) \<le> \<bar>t\<bar>"
proof (rule compute_shares_cases [OF assms(1,2)])
  fix p cs
  assume cs: "split_children now b t site cache locked = Ok cs" and d: "distinct (map cp_device_id cs)"
    and sh: "shares = allocate t cs p @
      map (\<lambda>c. (cp_device_id c, 0)) (filter (\<lambda>c. \<not> is_eligible (cp_operating_state c)) cs)"
  have ok: "\<forall>k \<in> set cs. soc_ok k"
    using split_children_soc_ok [OF cs assms(3)] by blast
  have "\<exists>c \<in> set (d_children b). ca_device_id c = i \<and> 0 \<le> sign_of t * s \<and>
      \<bar>s\<bar> \<le> max 0 (headroom now c t site cache) \<and> (s \<noteq> 0 \<longrightarrow> usable now b t site cache c)"
    if mem: "(i, s) \<in> set shares" for i s
  proof -
    from mem sh ok obtain k where k: "k \<in> set cs" "cp_device_id k = i" "0 \<le> sign_of t * s" "\<bar>s\<bar> \<le> child_cap k"
      "s \<noteq> 0 \<longrightarrow> is_eligible (cp_operating_state k)"
      using alloc.alloc_member [OF ok, of i s t p] by (fastforce simp: child_cap_def)
    from split_children_member [OF cs k(1)] obtain c k' where
      c: "c \<in> set (d_children b)" "resolve_child now c t site cache = Ok k'"
        "k = apply_reserve_floor (effective_floor_percent b site cache) k' t" .
    note f = resolve_child_fields [OF c(2)]
    have "child_cap k \<le> max 0 (headroom now c t site cache)"
      using c(3) f(2) by (auto simp: child_cap_def apply_reserve_floor_def split: option.splits)
    moreover have "usable now b t site cache c" if "s \<noteq> 0"
      using that k c share_usable [OF c(2), of b] by auto
    ultimately show ?thesis
      using c k f(1) by (intro bexI [of _ c]) auto
  qed
  moreover have "(\<Sum>(d, s) \<leftarrow> shares. \<bar>s\<bar>) = (\<Sum>(d, s) \<leftarrow> allocate t cs p. \<bar>s\<bar>)"
    by (simp add: sh comp_def)
  ultimately show ?thesis
    using alloc.alloc_sum [OF ok, of t p] by auto
qed


section \<open>An example\<close>

definition ex_child :: "string \<Rightarrow> child_allocation" where
  "ex_child i = \<lparr>ca_device_id = i, ca_operating_state_topic = i @ ''/st'', ca_state_of_charge_topic = i @ ''/soc'',
     ca_power_min = - 50, ca_power_max = 50\<rparr>"

definition ex_module :: distribute_binding where
  "ex_module = \<lparr>d_allocation_policy = ''equal_split'', d_children = [ex_child ''a'', ex_child ''b'', ex_child ''c''],
     d_state_of_charge_floor_percent = Some 10, d_ramp_rate_per_sec = None, d_hysteresis_margin = None,
     d_hysteresis_dwell_secs = None, d_power_min = None, d_power_max = None, d_import_limit_topic = None,
     d_export_limit_topic = None, d_active_power_topic = None, d_poi_active_power_topic = None,
     d_operator_reserve_topic = None, d_site_capacity_wh = None, d_readiness_soc_percent = None,
     d_recharge_power_w = None\<rparr>"

text \<open>Rack a reports, rack b is at the floor, rack c stopped reporting its charge.\<close>

definition ex_cache :: input_cache where
  "ex_cache = [''a/st'' \<mapsto> (JStr ''STANDBY'', secs 100), ''a/soc'' \<mapsto> (JNum 50, secs 100),
     ''b/st'' \<mapsto> (JStr ''DISCHARGING'', secs 100), ''b/soc'' \<mapsto> (JNum 10, secs 100),
     ''c/st'' \<mapsto> (JStr ''STANDBY'', secs 100), ''c/soc'' \<mapsto> (JNum 50, secs 90)]"

lemma ex_split:
  "split_children (secs 101) ex_module 30 ''s'' ex_cache {''d''} = Ok
    [ex_rack ''a'' Standby 50 50, ex_rack ''b'' Discharging 0 10, ex_rack ''c'' Offline 50 50]"
  by (simp add: split_children_def ex_module_def ex_child_def ex_cache_def resolve_child_def
      effective_floor_percent_def operator_reserve_percent_def apply_reserve_floor_def elapsed_def
      STALE_AFTER_def secs_def NANOS_def operating_state_of_def headroom_def live_limit_def limit_topic_def
      ex_rack_def)

lemma ex_shares:
  "compute_shares (secs 101) ex_module 30 ''s'' ex_cache {''d''} = Ok [(''a'', 30), (''b'', 0), (''c'', 0)]"
proof -
  have "[0..<2] = [0, 1::nat]" by (simp add: upt_rec)
  then have "allocate 30 [ex_rack ''a'' Standby 50 50, ex_rack ''b'' Discharging 0 10, ex_rack ''c'' Offline 50 50]
      EqualSplit = [(''a'', 30), (''b'', 0)]"
    by (simp add: allocate_def policy_weights_def sign_of_def EPSILON_def ex_rack_def
        alloc_loop.simps proposed_def weight_fraction_def cap_def numeral_2_eq_2)
  moreover have "parse_policy (d_allocation_policy ex_module) = Ok EqualSplit"
    by (simp add: ex_module_def parse_policy_def)
  ultimately show ?thesis
    using ex_split by (simp add: compute_shares_def push_missing_def ex_rack_def)
qed

lemma ex_distinct: "distinct (child_ids ex_module)"
  by (simp add: child_ids_def ex_module_def ex_child_def)

theorem compute_shares_covers_witness:
  "mset (map fst [(''a'', 30 :: f64), (''b'', 0), (''c'', 0)]) = mset (filter (\<lambda>d. d \<notin> {''d''}) (child_ids ex_module))"
  using compute_shares_covers [OF ex_shares ex_distinct] by simp


text \<open>
  Reading the guard fields of a binding panics exactly when the ramp, the margin and a dwell are
  given and the dwell is negative (or larger than a duration can be): nothing checks its sign.
\<close>

theorem envelope_guard_config_panics:
  "(\<exists>a. envelope_guard_config d = Abort a) \<longleftrightarrow>
    d_ramp_rate_per_sec d \<noteq> None \<and> d_hysteresis_margin d \<noteq> None \<and>
    (\<exists>x. d_hysteresis_dwell_secs d = Some x \<and> (x < 0 \<or> 18446744073709551616 \<le> x))"
  by (auto simp: envelope_guard_config_def from_secs_f64_def split: option.splits)

section \<open>Which limits are missing\<close>

text \<open>
  \<^verbatim>\<open>FALLING_BACK\<close>, the limit topics that fall back to the static bound, and what is logged when one
  starts or stops.
\<close>

datatype limit_note = Missing_limit string | Live_again string

definition note_fallback :: "string \<Rightarrow> bool \<Rightarrow> string set \<Rightarrow> limit_note list \<times> string set" where
  "note_fallback topic missing falling =
     (if missing \<and> topic \<notin> falling then ([Missing_limit topic], insert topic falling)
      else if \<not> missing \<and> topic \<in> falling then ([Live_again topic], falling - {topic})
      else ([], falling))"

definition headroom_noted :: "instant \<Rightarrow> child_allocation \<Rightarrow> f64 \<Rightarrow> string \<Rightarrow> input_cache \<Rightarrow> string set \<Rightarrow> f64 \<times> limit_note list \<times> string set" where
  "headroom_noted now c target site_id cache falling =
     (let topic = limit_topic site_id (ca_device_id c) (target < 0)
      in (headroom now c target site_id cache, note_fallback topic (live_limit now cache topic = None) falling))"

fun note_run :: "(string \<times> bool) list \<Rightarrow> string set \<Rightarrow> limit_note list" where
  "note_run [] falling = []"
| "note_run ((topic, missing) # rest) falling =
     fst (note_fallback topic missing falling) @ note_run rest (snd (note_fallback topic missing falling))"

text \<open>Only the switches of a topic are logged, each once, however often it is looked at.\<close>

fun switches :: "string \<Rightarrow> bool \<Rightarrow> (string \<times> bool) list \<Rightarrow> limit_note list" where
  "switches topic was [] = []"
| "switches topic was ((t, missing) # rest) =
     (if t = topic \<and> missing \<noteq> was then [if missing then Missing_limit topic else Live_again topic] else [])
       @ switches topic (if t = topic then missing else was) rest"

fun note_topic :: "limit_note \<Rightarrow> string" where
  "note_topic (Missing_limit t) = t"
| "note_topic (Live_again t) = t"

lemma notes_are_switches:
  "filter (\<lambda>n. note_topic n = topic) (note_run looks falling) = switches topic (topic \<in> falling) looks"
proof (induction looks arbitrary: falling)
  case (Cons look rest)
  obtain t missing where "look = (t, missing)" by fastforce
  then show ?case by (auto simp: Cons note_fallback_def)
qed simp

end
