(* ===== verification/Modbus.thy ===== *)
theory Modbus
  imports Spec_Types
begin

text \<open>
  \<^verbatim>\<open>modbus/\<close>: the register codec (\<^verbatim>\<open>codec.rs\<close>, \<^verbatim>\<open>sunspec.rs\<close>), the function codes
  (\<^verbatim>\<open>function_code.rs\<close>), the retrying transport (\<^verbatim>\<open>transport.rs\<close>) and the read and write
  pipelines (\<^verbatim>\<open>client.rs\<close>). What the rodbus library answers is a parameter, the record
  \<open>world\<close>: each operation gets the answers of its own time. What the process keeps between
  operations (the shared write sessions, and later the SunSpec caches) and every request
  that goes out to a device is the state \<open>south\<close>.
\<close>

section \<open>Codec\<close>

fun decode_uint32 :: "u16 list \<Rightarrow> word_order \<Rightarrow> u32 outcome" where
  "decode_uint32 (a # b # ws) order =
     (let (high, low) = (case order of HighLow \<Rightarrow> (a, b) | LowHigh \<Rightarrow> (b, a)) in
      Ok (push_bit 16 (ucast high) OR ucast low))"
| "decode_uint32 ws order = Abort Panicked"

definition encode_uint32 :: "u32 \<Rightarrow> word_order \<Rightarrow> u16 list" where
  "encode_uint32 value order =
     (let high = ucast (drop_bit 16 value); low = ucast value in
      case order of HighLow \<Rightarrow> [high, low] | LowHigh \<Rightarrow> [low, high])"

definition decode_int32 :: "u16 list \<Rightarrow> word_order \<Rightarrow> int outcome" where
  "decode_int32 ws order = bind_outcome (decode_uint32 ws order) (\<lambda>w. Ok (sint w))"

definition encode_int32 :: "int \<Rightarrow> word_order \<Rightarrow> u16 list" where
  "encode_int32 value order = encode_uint32 (word_of_int value) order"

fun decode_int64 :: "u16 list \<Rightarrow> word_order \<Rightarrow> int outcome" where
  "decode_int64 (a # b # c # d # ws) order =
     (let ordered = (case order of HighLow \<Rightarrow> [a, b, c, d] | LowHigh \<Rightarrow> [d, c, b, a]) in
      Ok (sint (foldl (\<lambda>acc w. push_bit 16 acc OR ucast w) (0 :: u64) ordered)))"
| "decode_int64 ws order = Abort Panicked"

definition encode_int64 :: "int \<Rightarrow> word_order \<Rightarrow> u16 list" where
  "encode_int64 value order =
     (let raw = word_of_int value :: u64;
          big_endian = [ucast (drop_bit 48 raw), ucast (drop_bit 32 raw), ucast (drop_bit 16 raw), ucast raw]
      in case order of HighLow \<Rightarrow> big_endian | LowHigh \<Rightarrow> rev big_endian)"

text \<open>
  The single-precision type, by IEEE 754: \<^verbatim>\<open>f32::from_bits\<close>, and the bits of \<^verbatim>\<open>raw as f32\<close>,
  which rounds to the nearest single, halves to even. The significand is \<open>m\<close> units of
  \<open>2 powi e\<close> for the least \<open>e\<close> that leaves it below \<open>2 ^ 24\<close>, and the bits are
  \<open>(e + 149) * 2 ^ 23 + m\<close>, subnormals and the carry into the next exponent included. Bits
  from \<open>255 * 2 ^ 23\<close> on stand for infinity.
\<close>

definition f32_from_bits :: "u32 \<Rightarrow> f64x" where
  "f32_from_bits w =
     (let neg = bit w 31;
          e = unat ((drop_bit 23 w) AND 255);
          m = unat (w AND 8388607);
          v = (if e = 0 then real m * 2 powi (- 149)
               else real (8388608 + m) * 2 powi (int e - 150))
      in if e = 255 then (if m = 0 then (if neg then NegInf else PosInf) else NaN)
         else Fin (if neg then - v else v))"

fun f32_exponent :: "f64 \<Rightarrow> int \<Rightarrow> nat \<Rightarrow> int" where
  "f32_exponent x e 0 = e"
| "f32_exponent x e (Suc n) = (if x < 2 powi (e + 24) then e else f32_exponent x (e + 1) n)"

definition f32_magnitude_bits :: "f64 \<Rightarrow> int" where
  "f32_magnitude_bits x =
     (let e = f32_exponent x (- 149) 254 in (e + 149) * 8388608 + round_even (x / 2 powi e))"

definition f32_is_finite :: "f64x \<Rightarrow> bool" where
  "f32_is_finite raw = (case raw of Fin x \<Rightarrow> f32_magnitude_bits \<bar>x\<bar> < 2139095040 | _ \<Rightarrow> False)"

definition f32_to_bits :: "f64 \<Rightarrow> u32" where
  "f32_to_bits x = word_of_int (f32_magnitude_bits \<bar>x\<bar> + (if x < 0 then 2147483648 else 0))"

definition decode_raw :: "u16 list \<Rightarrow> modbus_data_type \<Rightarrow> word_order \<Rightarrow> f64x outcome" where
  "decode_raw ws data_type order = (case data_type of
     Uint16 \<Rightarrow> (case ws of [] \<Rightarrow> Abort Panicked | w # _ \<Rightarrow> Ok (Fin (real_of_int (uint w))))
   | Int16 \<Rightarrow> (case ws of [] \<Rightarrow> Abort Panicked | w # _ \<Rightarrow> Ok (Fin (real_of_int (sint w))))
   | Int32 \<Rightarrow> bind_outcome (decode_int32 ws order) (\<lambda>i. Ok (Fin (real_of_int i)))
   | Uint32 \<Rightarrow> bind_outcome (decode_uint32 ws order) (\<lambda>w. Ok (Fin (real_of_int (uint w))))
   | Float32 \<Rightarrow> bind_outcome (decode_uint32 ws order) (\<lambda>w. Ok (f32_from_bits w))
   | Int64 \<Rightarrow> bind_outcome (decode_int64 ws order) (\<lambda>i. Ok (Fin (real_of_int i))))"

text \<open>The \<^verbatim>\<open>range\<close> closure: the rounded value lies in \<^verbatim>\<open>min..max\<close>.\<close>

fun in_range :: "f64x \<Rightarrow> int \<Rightarrow> int \<Rightarrow> bool" where
  "in_range (Fin raw) lo hi = (lo \<le> rust_round raw \<and> rust_round raw < hi)"
| "in_range raw lo hi = False"

definition fits :: "f64x \<Rightarrow> modbus_data_type \<Rightarrow> bool" where
  "fits raw data_type = (case data_type of
     Uint16 \<Rightarrow> in_range raw 0 65536
   | Int16 \<Rightarrow> in_range raw (- 32768) 32768
   | Int32 \<Rightarrow> in_range raw (- 2147483648) 2147483648
   | Uint32 \<Rightarrow> in_range raw 0 4294967296
   | Int64 \<Rightarrow> in_range raw (- 9223372036854775808) 9223372036854775808
   | Float32 \<Rightarrow> f32_is_finite raw)"

definition encode_finite :: "f64 \<Rightarrow> modbus_data_type \<Rightarrow> word_order \<Rightarrow> u16 list" where
  "encode_finite raw data_type order = (case data_type of
     Uint16 \<Rightarrow> [word_of_int (rust_round raw)]
   | Int16 \<Rightarrow> [word_of_int (rust_round raw)]
   | Int32 \<Rightarrow> encode_int32 (rust_round raw) order
   | Uint32 \<Rightarrow> encode_uint32 (word_of_int (rust_round raw)) order
   | Float32 \<Rightarrow> encode_uint32 (f32_to_bits raw) order
   | Int64 \<Rightarrow> encode_int64 (rust_round raw) order)"

definition encode_raw :: "f64x \<Rightarrow> modbus_data_type \<Rightarrow> word_order \<Rightarrow> u16 list outcome" where
  "encode_raw raw data_type order =
     (if \<not> fits raw data_type then Err (E ''value doesn't fit the register type'' [])
      else case raw of Fin x \<Rightarrow> Ok (encode_finite x data_type order) | _ \<Rightarrow> Abort NonFinite)"

definition apply_scale_offset :: "f64x \<Rightarrow> f64 \<Rightarrow> f64 \<Rightarrow> f64x" where
  "apply_scale_offset raw scale offset = raw * Fin scale + Fin offset"

definition to_raw :: "f64 \<Rightarrow> f64 \<Rightarrow> f64 \<Rightarrow> f64x" where
  "to_raw value scale offset = Fin (value - offset) / Fin scale"

text \<open>
  \<^verbatim>\<open>10f64.powi(sf)\<close>: past the range of a double it is infinite, and the negative powers,
  computed as one over the positive one, are then 0.
\<close>

definition powi10 :: "int \<Rightarrow> f64x" where
  "powi10 n = (if n > 308 then PosInf else if n < - 308 then Fin 0 else Fin (10 powi n))"

definition apply_sunssf :: "f64x \<Rightarrow> u16 \<Rightarrow> f64x outcome" where
  "apply_sunssf raw sf_word =
     (if sf_word = 0x8000 then Err (E ''scale factor register reads 0x8000 (not implemented)'' [])
      else Ok (raw * powi10 (sint sf_word)))"

section \<open>Function codes\<close>

datatype read_function_code = Holding | Input

datatype write_function_code = Single | Multiple

definition read_function :: "u8 option \<Rightarrow> read_function_code outcome" where
  "read_function code = (case code of
     None \<Rightarrow> Ok Holding
   | Some c \<Rightarrow>
       if c = 3 then Ok Holding else if c = 4 then Ok Input
       else Err (E ''function_code is not a register read (3 or 4)'' [W (unat c)]))"

definition write_function :: "u8 option \<Rightarrow> modbus_data_type \<Rightarrow> write_function_code outcome" where
  "write_function code data_type = (case code of
     None \<Rightarrow> Ok Multiple
   | Some c \<Rightarrow>
       if c = 16 then Ok Multiple
       else if c = 6 then
         (if register_count data_type = 1 then Ok Single
          else Err (E ''function_code 6 writes one register but the type spans more'' [W (unat (register_count data_type))]))
       else Err (E ''function_code is not a register write (6 or 16)'' [W (unat c)]))"

section \<open>Transport\<close>

datatype channel = TcpChannel string u16 | TlsChannel string u16 string gateway_credentials

text \<open>What one request is answered with: registers, a Modbus exception, or any other failure.\<close>

datatype 'a reply = Answer 'a | ModbusException | Failure

datatype http_reply = Status nat | SendFailed

datatype http_scheme = Http | Https gateway_credentials

text \<open>
  The third-party side. \<open>w_tls\<close>: the certificate files build a TLS configuration for this
  subject. \<open>w_enable\<close>: the channel can be enabled. \<open>w_range\<close>, \<open>w_multiple\<close>: rodbus accepts
  the address range or the write request. \<open>w_read\<close>, \<open>w_write\<close>: the answer to the n-th
  attempt. \<open>w_https\<close>, \<open>w_http\<close>, \<open>w_patch\<close>: the HTTP clients and the answer to a PATCH.
\<close>

record world =
  w_tls :: "string \<Rightarrow> gateway_credentials \<Rightarrow> bool"
  w_enable :: "channel \<Rightarrow> bool"
  w_range :: "u16 \<Rightarrow> u16 \<Rightarrow> bool"
  w_multiple :: "u16 \<Rightarrow> u16 list \<Rightarrow> bool"
  w_read :: "channel \<Rightarrow> u8 \<Rightarrow> u16 \<Rightarrow> u16 \<Rightarrow> read_function_code \<Rightarrow> nat \<Rightarrow> u16 list reply"
  w_write :: "channel \<Rightarrow> u8 \<Rightarrow> u16 \<Rightarrow> u16 list \<Rightarrow> write_function_code \<Rightarrow> nat \<Rightarrow> unit reply"
  w_https :: "gateway_credentials \<Rightarrow> bool"
  w_http :: bool
  w_patch :: "http_scheme \<Rightarrow> string \<Rightarrow> u16 \<Rightarrow> string \<Rightarrow> json \<Rightarrow> http_reply"

text \<open>
  The requests the gateway sends that change a device. A request is logged once, its
  retries included.
\<close>

datatype south_write =
    RegisterWrite channel u8 u16 "u16 list" write_function_code
  | HttpPatch http_scheme string u16 string json

type_synonym session_key = "string \<times> u16 \<times> bool"

type_synonym model_key = "string \<times> u16 \<times> u8"

type_synonym model_map = "u16 \<rightharpoonup> u16"

type_synonym word_key = "string \<times> u16 \<times> string \<times> u16 \<times> string"

record south =
  sessions :: "session_key \<rightharpoonup> channel"
  models_cache :: "model_key \<rightharpoonup> model_map"
  words_cache :: "word_key \<rightharpoonup> u32"
  sent :: "south_write list"

definition south_init :: south where
  "south_init = \<lparr>sessions = Map.empty, models_cache = Map.empty, words_cache = Map.empty, sent = []\<rparr>"

text \<open>An operation on the south side, and sequencing with \<^verbatim>\<open>?\<close>.\<close>

type_synonym 'a act = "south \<Rightarrow> 'a outcome \<times> south"

definition bind_act :: "'a act \<Rightarrow> ('a \<Rightarrow> 'b act) \<Rightarrow> 'b act" where
  "bind_act m f = (\<lambda>s. case m s of
     (Ok x, s') \<Rightarrow> f x s' | (Err e, s') \<Rightarrow> (Err e, s') | (Abort a, s') \<Rightarrow> (Abort a, s'))"

definition lift_act :: "'a outcome \<Rightarrow> 'a act" where
  "lift_act x = (\<lambda>s. (x, s))"

definition ctx_act :: "'a act \<Rightarrow> string \<Rightarrow> arg list \<Rightarrow> 'a act" where
  "ctx_act m msg as = (\<lambda>s. case m s of (x, s') \<Rightarrow> (with_context x msg as, s'))"

definition MAX_ATTEMPTS :: nat where
  "MAX_ATTEMPTS = 5"

definition modbus_exception :: err where
  "modbus_exception = E ''modbus exception'' []"

text \<open>The retry loop of \<^verbatim>\<open>read_registers\<close> and \<^verbatim>\<open>write_registers\<close>: a Modbus exception is final,
  anything else is tried again. The second argument is the attempt, the third what is left.\<close>

fun retry :: "(nat \<Rightarrow> 'a reply) \<Rightarrow> nat \<Rightarrow> nat \<Rightarrow> 'a outcome" where
  "retry f attempt 0 = Err (Ctx ''modbus exhausted retries'' [] (E ''request failed'' []))"
| "retry f attempt (Suc n) = (case f attempt of
     Answer x \<Rightarrow> Ok x
   | ModbusException \<Rightarrow> Err (Ctx ''modbus refused'' [] modbus_exception)
   | Failure \<Rightarrow> retry f (Suc attempt) n)"

definition read_registers :: "world \<Rightarrow> channel \<Rightarrow> u8 \<Rightarrow> u16 \<Rightarrow> u16 \<Rightarrow> read_function_code \<Rightarrow> u16 list outcome" where
  "read_registers w ch unit_id addr cnt function =
     (if \<not> w_enable w ch then Err (E ''modbus channel enable'' [])
      else if \<not> w_range w addr cnt then Err (E ''invalid modbus address range'' [])
      else retry (w_read w ch unit_id addr cnt function) 0 MAX_ATTEMPTS)"

definition write_registers :: "world \<Rightarrow> channel \<Rightarrow> u8 \<Rightarrow> u16 \<Rightarrow> u16 list \<Rightarrow> write_function_code \<Rightarrow> unit act" where
  "write_registers w ch unit_id addr ws function = (\<lambda>s.
     if \<not> w_enable w ch then (Err (E ''modbus channel enable'' []), s)
     else if \<not> w_multiple w addr ws then (Err (E ''invalid modbus write request'' []), s)
     else if function = Single \<and> ws = [] then (Abort Panicked, s)
     else
       let payload = (case function of Single \<Rightarrow> take 1 ws | Multiple \<Rightarrow> ws) in
       (retry (w_write w ch unit_id addr payload function) 0 MAX_ATTEMPTS,
        s\<lparr>sent := sent s @ [RegisterWrite ch unit_id addr payload function]\<rparr>))"

section \<open>Client\<close>

definition open_channel :: "world \<Rightarrow> string \<Rightarrow> u16 \<Rightarrow> device_trust option \<Rightarrow> gateway_credentials option \<Rightarrow> channel outcome" where
  "open_channel w host port trust creds = (case (trust, creds) of
     (Some (TlsMutual subject_name), Some c) \<Rightarrow>
       if w_tls w subject_name c then Ok (TlsChannel host port subject_name c)
       else Err (E ''modbus tls config'' [])
   | _ \<Rightarrow> Ok (TcpChannel host port))"

definition is_secure :: "device_trust option \<Rightarrow> gateway_credentials option \<Rightarrow> bool" where
  "is_secure trust creds = (case (trust, creds) of (Some (TlsMutual _), Some _) \<Rightarrow> True | _ \<Rightarrow> False)"

definition write_channel :: "world \<Rightarrow> string \<Rightarrow> u16 \<Rightarrow> device_trust option \<Rightarrow> gateway_credentials option \<Rightarrow> channel act" where
  "write_channel w host port trust creds = (\<lambda>s.
     let key = (host, port, is_secure trust creds) in
     case sessions s key of
       Some ch \<Rightarrow> (Ok ch, s)
     | None \<Rightarrow>
         (case open_channel w host port trust creds of
            Ok ch \<Rightarrow> (Ok ch, s\<lparr>sessions := (sessions s)(key \<mapsto> ch)\<rparr>)
          | Err e \<Rightarrow> (Err e, s)
          | Abort a \<Rightarrow> (Abort a, s)))"

definition parse_unit_id :: "string \<Rightarrow> u8 outcome" where
  "parse_unit_id s = ok_or (parse_u8 s) (E ''unit_id must parse to u8 for Modbus'' [S s])"

definition read_on :: "world \<Rightarrow> channel \<Rightarrow> modbus_tcp_binding \<Rightarrow> f64x outcome" where
  "read_on w ch b =
     bind_outcome (read_function (mb_function_code b)) (\<lambda>function.
     bind_outcome (parse_unit_id (mb_unit_id b)) (\<lambda>unit_id.
     bind_outcome (read_registers w ch unit_id (mb_address b) (register_count (mb_data_type b)) function) (\<lambda>ws.
     bind_outcome (decode_raw ws (mb_data_type b) (mb_word_order b)) (\<lambda>raw.
     bind_outcome
       (case mb_scale_factor_address b of
          None \<Rightarrow> Ok raw
        | Some sf_address \<Rightarrow>
            bind_outcome (read_registers w ch unit_id sf_address 1 function) (\<lambda>sf.
              case sf of [] \<Rightarrow> Abort Panicked | sf_word # _ \<Rightarrow> apply_sunssf raw sf_word))
       (\<lambda>raw. Ok (apply_scale_offset raw (mb_scale b) (mb_offset b)))))))"

definition read_measurement :: "world \<Rightarrow> modbus_tcp_binding \<Rightarrow> device_trust option \<Rightarrow> gateway_credentials option \<Rightarrow> f64x outcome" where
  "read_measurement w b trust creds =
     bind_outcome (open_channel w (mb_host b) (mb_port b) trust creds) (\<lambda>ch. read_on w ch b)"

definition write_setpoint :: "world \<Rightarrow> modbus_tcp_binding \<Rightarrow> f64 \<Rightarrow> device_trust option \<Rightarrow> gateway_credentials option \<Rightarrow> unit act" where
  "write_setpoint w b value trust creds =
     bind_act (lift_act (write_function (mb_function_code b) (mb_data_type b))) (\<lambda>function.
     bind_act (lift_act (encode_raw (to_raw value (mb_scale b) (mb_offset b)) (mb_data_type b) (mb_word_order b))) (\<lambda>ws.
     bind_act (write_channel w (mb_host b) (mb_port b) trust creds) (\<lambda>ch.
     bind_act (lift_act (parse_unit_id (mb_unit_id b))) (\<lambda>unit_id.
       write_registers w ch unit_id (mb_address b) ws function))))"

section \<open>The multi-register codecs\<close>

text \<open>
  What a codec of \<^verbatim>\<open>codec.rs\<close> promises: a fixed number of registers, decoding what it
  encoded, and a panic on too few registers (the slice index). A codec is then a bijection
  between its values and its register blocks.
\<close>

locale register_codec =
  fixes enc :: "'v \<Rightarrow> word_order \<Rightarrow> u16 list"
    and dec :: "u16 list \<Rightarrow> word_order \<Rightarrow> 'v outcome"
    and width :: nat
    and valid :: "'v \<Rightarrow> bool"
  assumes enc_length: "length (enc v order) = width"
    and dec_enc: "valid v \<Longrightarrow> dec (enc v order @ rest) order = Ok v"
    and dec_short: "length ws < width \<Longrightarrow> dec ws order = Abort Panicked"
    and dec_full: "length ws = width \<Longrightarrow> \<exists>v. dec (ws @ rest) order = Ok v \<and> valid v \<and> enc v order = ws"
begin

lemma dec_enc_exact: "valid v \<Longrightarrow> dec (enc v order) order = Ok v"
  using dec_enc [of v order "[]"] by simp

lemma enc_inj: "valid v \<Longrightarrow> valid v' \<Longrightarrow> enc v order = enc v' order \<Longrightarrow> v = v'"
  by (metis dec_enc_exact outcome.inject(1))

lemma dec_total: "width \<le> length ws \<Longrightarrow> \<exists>v. dec ws order = Ok v \<and> valid v"
  using dec_full [of "take width ws" "drop width ws" order] by (simp del: take_all) blast

lemma dec_Ok_width: "dec ws order = Ok v \<Longrightarrow> width \<le> length ws"
  using dec_short [of ws order] by (cases "length ws < width") auto

end

lemma uint32_dec_enc: "decode_uint32 (encode_uint32 v order @ rest) order = Ok v"
proof -
  have "push_bit 16 (ucast (ucast (drop_bit 16 v) :: u16)) OR ucast (ucast v :: u16) = v"
    by (rule bit_word_eqI) (auto simp: bit_simps)
  then show ?thesis
    by (cases order) (simp_all add: encode_uint32_def)
qed

lemma uint32_halves:
  fixes a b :: u16
  defines "v \<equiv> push_bit 16 (ucast a) OR ucast b :: u32"
  shows "ucast (drop_bit 16 v) = a" and "ucast v = b"
  unfolding v_def by (rule bit_word_eqI; auto simp: bit_simps dest: bit_imp_le_length)+

lemma uint32_enc_dec:
  "length ws = 2 \<Longrightarrow> \<exists>v. decode_uint32 (ws @ rest) order = Ok v \<and> encode_uint32 v order = ws"
  by (cases order)
    (auto simp: encode_uint32_def Let_def uint32_halves length_Suc_conv numeral_2_eq_2 simp del: drop_bit_or)

lemma decode_uint32_short: "length ws < 2 \<Longrightarrow> decode_uint32 ws order = Abort Panicked"
  by (cases "(ws, order)" rule: decode_uint32.cases) auto

interpretation uint32_codec: register_codec encode_uint32 decode_uint32 2 "\<lambda>_. True"
proof
  show "length (encode_uint32 v order) = 2" for v order
    by (cases order) (simp_all add: encode_uint32_def)
qed (use uint32_dec_enc uint32_enc_dec decode_uint32_short in auto)

definition in_i32 :: "int \<Rightarrow> bool" where
  "in_i32 v \<longleftrightarrow> - 2147483648 \<le> v \<and> v < 2147483648"

definition in_i64 :: "int \<Rightarrow> bool" where
  "in_i64 v \<longleftrightarrow> - 9223372036854775808 \<le> v \<and> v < 9223372036854775808"

lemma sint_word_of_int_32: "in_i32 v \<Longrightarrow> sint (word_of_int v :: u32) = v"
  by (simp add: in_i32_def int_word_sint)

lemma sint_word_of_int_64: "in_i64 v \<Longrightarrow> sint (word_of_int v :: u64) = v"
  by (simp add: in_i64_def int_word_sint)

lemma sint_word_of_int_16: "- 32768 \<le> v \<Longrightarrow> v < 32768 \<Longrightarrow> sint (word_of_int v :: u16) = v"
  by (simp add: int_word_sint)

lemma in_i32_sint: "in_i32 (sint (w :: u32))"
  using sint_range_size [of w] by (simp add: in_i32_def word_size)

lemma in_i64_sint: "in_i64 (sint (w :: u64))"
  using sint_range_size [of w] by (simp add: in_i64_def word_size)

interpretation int32_codec: register_codec encode_int32 decode_int32 2 in_i32
proof
  show "length ws = 2 \<Longrightarrow> \<exists>v. decode_int32 (ws @ rest) order = Ok v \<and> in_i32 v \<and> encode_int32 v order = ws"
    for ws rest order
    using uint32_codec.dec_full [of ws rest order]
    by (auto simp: decode_int32_def encode_int32_def in_i32_sint)
qed (simp_all add: decode_int32_def encode_int32_def uint32_codec.enc_length uint32_dec_enc
      decode_uint32_short sint_word_of_int_32)

lemma int64_word:
  fixes a b c d :: u16
  defines "v \<equiv> foldl (\<lambda>acc w. push_bit 16 acc OR ucast w) (0 :: u64) [a, b, c, d]"
  shows "ucast (drop_bit 48 v) = a" and "ucast (drop_bit 32 v) = b"
    and "ucast (drop_bit 16 v) = c" and "ucast v = d"
  unfolding v_def by (rule bit_word_eqI; auto simp: bit_simps dest: bit_imp_le_length)+

lemma int64_fold:
  "foldl (\<lambda>acc w. push_bit 16 acc OR ucast w) (0 :: u64)
     [ucast (drop_bit 48 v) :: u16, ucast (drop_bit 32 v), ucast (drop_bit 16 v), ucast v] = v"
proof (rule bit_word_eqI)
  fix n assume "n < LENGTH(64)"
  then have "n < 16 \<or> (\<exists>m < 16. n = 16 + m) \<or> (\<exists>m < 16. n = 32 + m) \<or> (\<exists>m < 16. n = 48 + m)"
    by simp presburger
  then show "bit (foldl (\<lambda>acc w. push_bit 16 acc OR ucast w) (0 :: u64)
      [ucast (drop_bit 48 v) :: u16, ucast (drop_bit 32 v), ucast (drop_bit 16 v), ucast v]) n = bit v n"
    by (elim disjE exE conjE) (auto simp: bit_simps)
qed

interpretation int64_codec: register_codec encode_int64 decode_int64 4 in_i64
proof
  show "length (encode_int64 v order) = 4" for v order
    by (cases order) (simp_all add: encode_int64_def Let_def)
  show "in_i64 v \<Longrightarrow> decode_int64 (encode_int64 v order @ rest) order = Ok v" for v order rest
    using int64_fold [of "word_of_int v"]
    by (cases order) (simp_all add: encode_int64_def Let_def sint_word_of_int_64)
  show "length ws < 4 \<Longrightarrow> decode_int64 ws order = Abort Panicked" for ws order
    by (cases "(ws, order)" rule: decode_int64.cases) auto
  show "\<exists>v. decode_int64 (ws @ rest) order = Ok v \<and> in_i64 v \<and> encode_int64 v order = ws"
    if "length ws = 4" for ws rest order
  proof -
    obtain a b c d where ws: "ws = [a, b, c, d]"
      using \<open>length ws = 4\<close> by (auto simp: length_Suc_conv numeral_eq_Suc)
    show ?thesis
      using int64_word [of a b c d] int64_word [of d c b a]
      by (cases order) (simp_all add: ws encode_int64_def Let_def in_i64_sint)
  qed
qed

lemmas codec_lengths = uint32_codec.enc_length int32_codec.enc_length int64_codec.enc_length

lemmas codec_inverses = uint32_codec.dec_enc_exact int32_codec.dec_enc_exact int64_codec.dec_enc_exact

section \<open>Registers written and read back\<close>

lemma encode_raw_length: "encode_raw raw data_type order = Ok ws \<Longrightarrow> length ws = unat (register_count data_type)"
  by (cases data_type)
    (auto simp: encode_raw_def encode_finite_def codec_lengths split: f64x.splits if_splits)

lemma uint_word_of_int_16: "0 \<le> v \<Longrightarrow> v < 65536 \<Longrightarrow> uint (word_of_int v :: u16) = v"
  by (simp add: uint_word_of_int)

lemma uint_word_of_int_32: "0 \<le> v \<Longrightarrow> v < 4294967296 \<Longrightarrow> unsigned (word_of_int v :: u32) = real_of_int v"
  by (simp add: unsigned_of_int take_bit_int_eq_self)

lemma decode_integer_raw:
  assumes "encode_raw (Fin x) data_type order = Ok ws" and "data_type \<noteq> Float32"
  shows "decode_raw ws data_type order = Ok (Fin (of_int (rust_round x)))"
  using assms
  by (cases data_type)
    (auto simp: encode_raw_def encode_finite_def fits_def decode_raw_def codec_inverses in_i32_def in_i64_def
      sint_word_of_int_16 uint_word_of_int_16 uint_word_of_int_32 split: if_splits)

text \<open>
  Encoding is the inverse of decoding: the registers an integer type is encoded to
  are as many as the type spans, and decode to the rounded value that was encoded.
\<close>

lemma decode_encode_raw:
  assumes "encode_raw (Fin x) data_type order = Ok ws" and "data_type \<noteq> Float32"
  shows "length ws = unat (register_count data_type) \<and>
    decode_raw ws data_type order = Ok (Fin (of_int (rust_round x)))"
  using assms by (simp add: encode_raw_length decode_integer_raw)

text \<open>The range of the rounded value each integer type holds.\<close>

fun holds_value :: "modbus_data_type \<Rightarrow> int \<Rightarrow> bool" where
  "holds_value Uint16 v = (0 \<le> v \<and> v \<le> 65535)"
| "holds_value Int16 v = (- 32768 \<le> v \<and> v \<le> 32767)"
| "holds_value Int32 v = (- 2147483648 \<le> v \<and> v \<le> 2147483647)"
| "holds_value Uint32 v = (0 \<le> v \<and> v \<le> 4294967295)"
| "holds_value Int64 v = (- 9223372036854775808 \<le> v \<and> v \<le> 9223372036854775807)"
| "holds_value Float32 v = True"

text \<open>
  A value is never saturated into a register: encoding an integer type succeeds exactly
  when the rounded value is one the type holds, and otherwise, as for a value that is not
  finite, it is an error. Encoding never panics.
\<close>

lemma encode_raw_error_iff:
  assumes "data_type \<noteq> Float32"
  shows "((\<exists>ws. encode_raw raw data_type order = Ok ws) \<longleftrightarrow>
      (\<exists>x. raw = Fin x \<and> holds_value data_type (rust_round x))) \<and>
    encode_raw raw data_type order \<noteq> Abort a"
  using assms by (cases data_type; cases raw) (auto simp: encode_raw_def fits_def)

section \<open>What a request sends\<close>

lemma retry_Ok_iff:
  "retry f a n = Ok x \<longleftrightarrow> (\<exists>k < n. f (a + k) = Answer x \<and> (\<forall>j < k. f (a + j) = Failure))"
proof (induction n arbitrary: a)
  case 0
  show ?case by simp
next
  case (Suc n)
  show ?case
    by (cases "f a") (simp_all add: Suc.IH Ex_less_Suc2 All_less_Suc2)
qed

text \<open>
  Operations that only ever relate the south side before and after them by \<open>R\<close>: for a
  reflexive and transitive relation that is closed under sequencing.
\<close>

definition act_keeps :: "(south \<Rightarrow> south \<Rightarrow> bool) \<Rightarrow> 'a act \<Rightarrow> bool" where
  "act_keeps R m \<longleftrightarrow> (\<forall>s. R s (snd (m s)))"

lemma act_keeps_lift: "(\<And>s. R s s) \<Longrightarrow> act_keeps R (lift_act x)"
  by (simp add: act_keeps_def lift_act_def)

lemma act_keeps_bind:
  assumes "\<And>s t u. R s t \<Longrightarrow> R t u \<Longrightarrow> R s u"
    and "act_keeps R m" and "\<And>x. act_keeps R (f x)"
  shows "act_keeps R (bind_act m f)"
  unfolding act_keeps_def
proof
  fix s
  obtain y t where m: "m s = (y, t)" by (cases "m s")
  with assms(2) have "R s t" by (auto simp: act_keeps_def dest: spec [of _ s])
  then show "R s (snd (bind_act m f s))"
    using assms(1,3) m by (cases y) (auto simp: bind_act_def act_keeps_def)
qed

lemma act_keeps_ctx: "act_keeps R (ctx_act m msg as) = act_keeps R m"
  by (simp add: act_keeps_def ctx_act_def split_beta)

lemma bind_act_Ok: "bind_act m f s = (Ok y, t) \<longleftrightarrow> (\<exists>x u. m s = (Ok x, u) \<and> f x u = (Ok y, t))"
  by (auto simp: bind_act_def split: prod.splits outcome.splits)

lemma lift_act_Ok [simp]: "lift_act x s = (Ok y, t) \<longleftrightarrow> x = Ok y \<and> t = s"
  by (auto simp: lift_act_def)

lemma ctx_act_Ok [simp]: "ctx_act m msg as s = (Ok y, t) \<longleftrightarrow> m s = (Ok y, t)"
  by (auto simp: ctx_act_def split: prod.splits)

text \<open>
  A shared write session serves the endpoint and the security of its key. That is what the
  cache of \<^verbatim>\<open>write_channel\<close> keeps.
\<close>

fun serves :: "session_key \<Rightarrow> channel \<Rightarrow> bool" where
  "serves (host, port, secure) (TcpChannel h p) \<longleftrightarrow> h = host \<and> p = port \<and> \<not> secure"
| "serves (host, port, secure) (TlsChannel h p n c) \<longleftrightarrow> h = host \<and> p = port \<and> secure"

definition sessions_ok :: "south \<Rightarrow> bool" where
  "sessions_ok s \<longleftrightarrow> (\<forall>key ch. sessions s key = Some ch \<longrightarrow> serves key ch)"

text \<open>A request goes to the endpoint of a key, secured as the key says.\<close>

fun aimed_at :: "session_key \<Rightarrow> south_write \<Rightarrow> bool" where
  "aimed_at key (RegisterWrite ch unit_id addr ws fn) = serves key ch"
| "aimed_at (host, port, secure) (HttpPatch scheme h p uri body) =
     (h = host \<and> p = port \<and> (secure \<longleftrightarrow> scheme \<noteq> Http))"

text \<open>
  The operations that send nothing, and those that send at most one request, to \<open>key\<close>; both
  keep the sessions.
\<close>

definition silent :: "'a act \<Rightarrow> bool" where
  "silent m \<longleftrightarrow> act_keeps (\<lambda>s t. sent t = sent s \<and> (sessions_ok s \<longrightarrow> sessions_ok t)) m"

definition sends :: "session_key \<Rightarrow> south \<Rightarrow> south \<Rightarrow> bool" where
  "sends key s t \<longleftrightarrow> (sessions_ok s \<longrightarrow> sessions_ok t \<and>
     (\<exists>l. sent t = sent s @ l \<and> length l \<le> 1 \<and> (\<forall>x \<in> set l. aimed_at key x)))"

definition sends_to :: "session_key \<Rightarrow> 'a act \<Rightarrow> bool" where
  "sends_to key m \<longleftrightarrow> act_keeps (sends key) m"

lemma serves_open_channel:
  "open_channel w host port trust creds = Ok ch \<Longrightarrow> serves (host, port, is_secure trust creds) ch"
  by (auto simp: open_channel_def is_secure_def split: option.splits device_trust.splits if_splits)

lemma write_channel_cases:
  assumes "write_channel w host port trust creds s = (r, s')" and "sessions_ok s"
  shows "sessions_ok s'" and "sent s' = sent s"
    and "r = Ok ch \<Longrightarrow> serves (host, port, is_secure trust creds) ch"
  using assms serves_open_channel [of w host port trust creds]
  by (auto simp: write_channel_def sessions_ok_def Let_def split: option.splits outcome.splits if_splits)

lemma silent_lift [simp]: "silent (lift_act x)"
  by (simp add: silent_def act_keeps_def lift_act_def)

lemma silent_bind: "silent m \<Longrightarrow> (\<And>x. silent (f x)) \<Longrightarrow> silent (bind_act m f)"
  unfolding silent_def by (rule act_keeps_bind) auto

lemma silent_sends_to: "silent m \<Longrightarrow> sends_to key m"
  by (simp add: silent_def sends_to_def act_keeps_def sends_def)

lemma sends_to_lift [simp]: "sends_to key (lift_act x)"
  by (rule silent_sends_to) simp

lemma sends_to_depends: "(\<And>u. sends_to key (f u)) \<Longrightarrow> sends_to key (\<lambda>s. f s s)"
  by (simp add: sends_to_def act_keeps_def)

lemma sends_to_after:
  assumes "sends_to key m" and "\<And>r t. sent (snd (g (r, t))) = sent t \<and> sessions (snd (g (r, t))) = sessions t"
  shows "sends_to key (\<lambda>s. g (m s))"
  unfolding sends_to_def act_keeps_def
proof
  fix s
  obtain r t where m: "m s = (r, t)" by (cases "m s")
  have "sends key s t"
    using assms(1) m by (auto simp: sends_to_def act_keeps_def dest: spec [of _ s])
  then show "sends key s (snd (g (m s)))"
    using m assms(2) [of r t] by (simp add: sends_def sessions_ok_def)
qed

lemma sends_to_bind:
  assumes "silent m" and "\<And>x. sends_to key (f x)"
  shows "sends_to key (bind_act m f)"
  unfolding sends_to_def act_keeps_def
proof
  fix s
  obtain y t where m: "m s = (y, t)" by (cases "m s")
  have t: "sent t = sent s" "sessions_ok s \<longrightarrow> sessions_ok t"
    using assms(1) m by (auto simp: silent_def act_keeps_def dest: spec [of _ s])
  show "sends key s (snd (bind_act m f s))"
  proof (cases y)
    case (Ok x)
    have "sends key t (snd (f x t))"
      using assms(2) [of x] by (simp add: sends_to_def act_keeps_def)
    with t Ok m show ?thesis by (simp add: bind_act_def sends_def)
  qed (use t m in \<open>simp_all add: bind_act_def sends_def\<close>)
qed

lemma sends_to_bind_channel:
  assumes "\<And>ch. serves (host, port, is_secure trust creds) ch \<Longrightarrow> sends_to (host, port, is_secure trust creds) (f ch)"
  shows "sends_to (host, port, is_secure trust creds) (bind_act (write_channel w host port trust creds) f)"
  unfolding sends_to_def act_keeps_def sends_def [of _ _ "snd _"]
proof (intro allI impI)
  fix s assume ok: "sessions_ok s"
  let ?key = "(host, port, is_secure trust creds)"
  obtain y t where m: "write_channel w host port trust creds s = (y, t)" by fastforce
  note t = write_channel_cases [OF m ok]
  have "sends ?key s (snd (bind_act (write_channel w host port trust creds) f s))"
  proof (cases y)
    case (Ok ch)
    have "sends ?key t (snd (f ch t))"
      using assms [OF t(3) [OF Ok]] by (simp add: sends_to_def act_keeps_def)
    with t Ok m show ?thesis by (simp add: bind_act_def sends_def)
  qed (use t m in \<open>simp_all add: bind_act_def sends_def\<close>)
  with ok show "sessions_ok (snd (bind_act (write_channel w host port trust creds) f s)) \<and>
      (\<exists>l. sent (snd (bind_act (write_channel w host port trust creds) f s)) = sent s @ l \<and>
        length l \<le> 1 \<and> (\<forall>x \<in> set l. aimed_at ?key x))"
    by (simp add: sends_def)
qed

lemma sends_to_ctx [simp]: "sends_to key (ctx_act m msg as) = sends_to key m"
  by (simp add: sends_to_def act_keeps_ctx)

lemma sends_to_write_registers:
  "serves key ch \<Longrightarrow> sends_to key (write_registers w ch unit_id addr ws fn)"
  by (auto simp: sends_to_def act_keeps_def sends_def write_registers_def Let_def sessions_ok_def)

lemma sends_toD:
  assumes "sends_to key m" and "sessions_ok s" and "m s = (r, t)"
  shows "sessions_ok t \<and> (\<exists>l. sent t = sent s @ l \<and> length l \<le> 1 \<and> (\<forall>x \<in> set l. aimed_at key x))"
  using assms by (auto simp: sends_to_def act_keeps_def sends_def dest: spec [of _ s])

lemma write_setpoint_sends:
  "sends_to (mb_host b, mb_port b, is_secure trust creds) (write_setpoint w b value trust creds)"
  unfolding write_setpoint_def
  by (intro sends_to_bind sends_to_bind_channel silent_lift sends_to_write_registers)


definition ex_binding :: modbus_tcp_binding where
  "ex_binding = \<lparr>mb_host = ''10.0.0.7'', mb_port = 502, mb_unit_id = ''1'', mb_address = 40100,
     mb_scale = 10, mb_offset = 0, mb_data_type = Int16, mb_word_order = HighLow,
     mb_function_code = Some 6, mb_scale_factor_address = None\<rparr>"

definition ex_world :: "u16 \<Rightarrow> world" where
  "ex_world v = \<lparr>w_tls = (\<lambda>_ _. True), w_enable = (\<lambda>_. True), w_range = (\<lambda>_ _. True),
     w_multiple = (\<lambda>_ _. True), w_read = (\<lambda>_ _ _ cnt _ n. if n < 2 then Failure else Answer (replicate (unat cnt) v)),
     w_write = (\<lambda>_ _ _ _ _ n. if n < 2 then Failure else Answer ()),
     w_https = (\<lambda>_. True), w_http = True, w_patch = (\<lambda>_ _ _ _ _. Status 200)\<rparr>"

lemmas ex_modbus_defs = ex_binding_def ex_world_def south_init_def

lemma MAX_ATTEMPTS_Suc: "MAX_ATTEMPTS = Suc (Suc (Suc (Suc (Suc 0))))"
  by (simp add: MAX_ATTEMPTS_def)

lemma sessions_ok_init: "sessions_ok south_init"
  by (simp add: sessions_ok_def south_init_def)


text \<open>
  The device the reader sees: it answers a read of the registers that were written with the
  payload of that write.
\<close>

definition reads_back :: "world \<Rightarrow> south_write \<Rightarrow> read_function_code \<Rightarrow> bool" where
  "reads_back w x fn \<longleftrightarrow> (case x of
     RegisterWrite ch unit_id addr payload _ \<Rightarrow>
       read_registers w ch unit_id addr (of_nat (length payload)) fn = Ok payload
   | HttpPatch _ _ _ _ _ \<Rightarrow> False)"

lemma encode_scaled_close:
  assumes "encode_raw (to_raw value scale offset) data_type order = Ok ws" and "data_type \<noteq> Float32"
  obtains r where "decode_raw ws data_type order = Ok (Fin r)"
    and "\<bar>r * scale + offset - value\<bar> \<le> \<bar>scale\<bar> / 2"
proof -
  have "scale \<noteq> 0"
    using assms(1) by (auto simp: to_raw_def encode_raw_def fits_def inf_of_sign_def
        split: if_splits modbus_data_type.splits)
  define x where "x = (value - offset) / scale"
  have enc: "encode_raw (Fin x) data_type order = Ok ws"
    using assms(1) \<open>scale \<noteq> 0\<close> by (simp add: to_raw_def x_def)
  have "of_int (rust_round x) * scale + offset - value = (of_int (rust_round x) - x) * scale"
    using \<open>scale \<noteq> 0\<close> by (simp add: x_def field_simps)
  then have "\<bar>of_int (rust_round x) * scale + offset - value\<bar> = \<bar>of_int (rust_round x) - x\<bar> * \<bar>scale\<bar>"
    by (simp add: abs_mult)
  also have "\<dots> \<le> 1 / 2 * \<bar>scale\<bar>"
    by (intro mult_right_mono rust_round_bounds) simp
  finally show ?thesis
    using that [of "of_int (rust_round x)"] decode_integer_raw [OF enc assms(2)] by simp
qed

text \<open>
  (C5) A setpoint that was written reads back as itself: whenever the write of a value to an
  integer register succeeds, it sent exactly one request, of as many registers as the type
  spans; and a device that answers a read of them with what was written gives a reading within
  half a step of the binding's scale of the value, in the same units.
\<close>

theorem written_setpoint_reads_back:
  assumes "write_setpoint w b value trust creds s = (Ok (), s')" and "mb_data_type b \<noteq> Float32"
    and "mb_scale_factor_address b = None"
  shows "\<exists>ch unit_id ws fn. sent s' = sent s @ [RegisterWrite ch unit_id (mb_address b) ws fn] \<and>
    length ws = unat (register_count (mb_data_type b)) \<and>
    (\<forall>w'. reads_back w' (RegisterWrite ch unit_id (mb_address b) ws fn) Holding \<longrightarrow>
      (\<exists>v. read_on w' ch (b\<lparr>mb_function_code := None\<rparr>) = Ok (Fin v) \<and> \<bar>v - value\<bar> \<le> \<bar>mb_scale b\<bar> / 2))"
proof -
  from assms(1) obtain fn ws ch unit_id t where
    fn: "write_function (mb_function_code b) (mb_data_type b) = Ok fn"
    and ws: "encode_raw (to_raw value (mb_scale b) (mb_offset b)) (mb_data_type b) (mb_word_order b) = Ok ws"
    and ch: "write_channel w (mb_host b) (mb_port b) trust creds s = (Ok ch, t)"
    and unit_id: "parse_unit_id (mb_unit_id b) = Ok unit_id"
    and wr: "write_registers w ch unit_id (mb_address b) ws fn t = (Ok (), s')"
    by (auto simp: write_setpoint_def bind_act_Ok)
  note len = encode_raw_length [OF ws]
  have t: "sent t = sent s"
    using ch by (auto simp: write_channel_def Let_def split: option.splits outcome.splits)
  have "(case fn of Single \<Rightarrow> take 1 ws | Multiple \<Rightarrow> ws) = ws"
    using fn len by (auto simp: write_function_def split: option.splits if_splits write_function_code.splits)
  with wr t have sent: "sent s' = sent s @ [RegisterWrite ch unit_id (mb_address b) ws fn]"
    by (auto simp: write_registers_def Let_def split: if_splits)
  obtain r where r: "decode_raw ws (mb_data_type b) (mb_word_order b) = Ok (Fin r)"
    "\<bar>r * mb_scale b + mb_offset b - value\<bar> \<le> \<bar>mb_scale b\<bar> / 2"
    by (rule encode_scaled_close [OF ws assms(2)])
  have "read_on w' ch (b\<lparr>mb_function_code := None\<rparr>) = Ok (Fin (r * mb_scale b + mb_offset b))"
    if "reads_back w' (RegisterWrite ch unit_id (mb_address b) ws fn) Holding" for w'
    using that r(1) unit_id assms(3) len
    by (simp add: reads_back_def read_on_def read_function_def apply_scale_offset_def)
  with sent len r(2) show ?thesis by blast
qed

lemma ex_write:
  "write_setpoint (ex_world 13) ex_binding 130 None None south_init =
    (Ok (), south_init\<lparr>sessions := [(''10.0.0.7'', 502, False) \<mapsto> TcpChannel ''10.0.0.7'' 502],
      sent := [RegisterWrite (TcpChannel ''10.0.0.7'' 502) 1 40100 [13] Single]\<rparr>)"
proof -
  have "rust_round 13 = 13"
    using rust_round_of_int [of 13] by simp
  moreover have "parse_unit_id ''1'' = Ok 1"
    by (simp add: parse_unit_id_def parse_u8_def digit_value_def Let_def)
  moreover have "write_function (Some 6) Int16 = Ok Single"
    by (simp add: write_function_def)
  ultimately show ?thesis
    by (simp add: write_setpoint_def bind_act_def lift_act_def ex_modbus_defs to_raw_def encode_raw_def
        fits_def encode_finite_def write_channel_def open_channel_def is_secure_def
        write_registers_def MAX_ATTEMPTS_Suc)
qed

theorem written_setpoint_reads_back_witness:
  "\<exists>v. read_on (ex_world 13) (TcpChannel ''10.0.0.7'' 502) (ex_binding\<lparr>mb_function_code := None\<rparr>) = Ok (Fin v) \<and>
    \<bar>v - 130\<bar> \<le> 5"
proof -
  have "reads_back (ex_world 13) (RegisterWrite (TcpChannel ''10.0.0.7'' 502) 1 40100 [13] Single) Holding"
    by (simp add: reads_back_def read_registers_def ex_world_def MAX_ATTEMPTS_Suc)
  then show ?thesis
    using written_setpoint_reads_back [OF ex_write] by (auto simp: ex_binding_def south_init_def)
qed

end
