(* ===== verification/SunSpec.thy ===== *)
theory SunSpec
  imports Modbus
begin

text \<open>
  \<^verbatim>\<open>sunspec/\<close>: the shipped model tables (\<^verbatim>\<open>models.rs\<close>), checking a binding against them and
  resolving it to registers (\<^verbatim>\<open>resolve.rs\<close>), discovery of the model chain (\<^verbatim>\<open>discover.rs\<close>),
  reads (\<^verbatim>\<open>client.rs\<close>), writes (\<^verbatim>\<open>write.rs\<close>), bit commands (\<^verbatim>\<open>bits.rs\<close>) and the command
  word heartbeat (\<^verbatim>\<open>heartbeat.rs\<close>). The model cache \<^verbatim>\<open>MODELS\<close> and the asserted words
  \<^verbatim>\<open>WORDS\<close> are fields of the south side's state. Unsigned sums wrap and shift counts are
  taken modulo the width, as in the release build.
\<close>

section \<open>Models\<close>

datatype point_type = PInt16 | PUint16 | PInt32 | Acc32 | Enum16 | Bitfield32 | Sunssf

definition point_register_count :: "point_type \<Rightarrow> u16" where
  "point_register_count kind = (case kind of
     PInt16 \<Rightarrow> 1 | PUint16 \<Rightarrow> 1 | Enum16 \<Rightarrow> 1 | Sunssf \<Rightarrow> 1
   | PInt32 \<Rightarrow> 2 | Acc32 \<Rightarrow> 2 | Bitfield32 \<Rightarrow> 2)"

record point_def =
  pd_id :: string
  pd_offset :: u16
  pd_kind :: point_type
  pd_sf :: "string option"
  pd_writable :: bool

definition ro :: "string \<Rightarrow> u16 \<Rightarrow> point_type \<Rightarrow> string option \<Rightarrow> point_def" where
  "ro i offset kind sf = \<lparr>pd_id = i, pd_offset = offset, pd_kind = kind, pd_sf = sf, pd_writable = False\<rparr>"

definition rw :: "string \<Rightarrow> u16 \<Rightarrow> point_type \<Rightarrow> string option \<Rightarrow> point_def" where
  "rw i offset kind sf = \<lparr>pd_id = i, pd_offset = offset, pd_kind = kind, pd_sf = sf, pd_writable = True\<rparr>"

definition COMMON :: "point_def list" where
  "COMMON = [
    rw ''DA'' 64 PUint16 None]"

definition INVERTER_THREE_PHASE :: "point_def list" where
  "INVERTER_THREE_PHASE = [
    ro ''A'' 0 PUint16 (Some ''A_SF''),
    ro ''AphA'' 1 PUint16 (Some ''A_SF''),
    ro ''AphB'' 2 PUint16 (Some ''A_SF''),
    ro ''AphC'' 3 PUint16 (Some ''A_SF''),
    ro ''A_SF'' 4 Sunssf None,
    ro ''PPVphAB'' 5 PUint16 (Some ''V_SF''),
    ro ''PPVphBC'' 6 PUint16 (Some ''V_SF''),
    ro ''PPVphCA'' 7 PUint16 (Some ''V_SF''),
    ro ''PhVphA'' 8 PUint16 (Some ''V_SF''),
    ro ''PhVphB'' 9 PUint16 (Some ''V_SF''),
    ro ''PhVphC'' 10 PUint16 (Some ''V_SF''),
    ro ''V_SF'' 11 Sunssf None,
    ro ''W'' 12 PInt16 (Some ''W_SF''),
    ro ''W_SF'' 13 Sunssf None,
    ro ''Hz'' 14 PUint16 (Some ''Hz_SF''),
    ro ''Hz_SF'' 15 Sunssf None,
    ro ''VA'' 16 PInt16 (Some ''VA_SF''),
    ro ''VA_SF'' 17 Sunssf None,
    ro ''VAr'' 18 PInt16 (Some ''VAr_SF''),
    ro ''VAr_SF'' 19 Sunssf None,
    ro ''PF'' 20 PInt16 (Some ''PF_SF''),
    ro ''PF_SF'' 21 Sunssf None,
    ro ''WH'' 22 Acc32 (Some ''WH_SF''),
    ro ''WH_SF'' 24 Sunssf None,
    ro ''DCA'' 25 PUint16 (Some ''DCA_SF''),
    ro ''DCA_SF'' 26 Sunssf None,
    ro ''DCV'' 27 PUint16 (Some ''DCV_SF''),
    ro ''DCV_SF'' 28 Sunssf None,
    ro ''DCW'' 29 PInt16 (Some ''DCW_SF''),
    ro ''DCW_SF'' 30 Sunssf None,
    ro ''TmpCab'' 31 PInt16 (Some ''Tmp_SF''),
    ro ''TmpSnk'' 32 PInt16 (Some ''Tmp_SF''),
    ro ''TmpTrns'' 33 PInt16 (Some ''Tmp_SF''),
    ro ''TmpOt'' 34 PInt16 (Some ''Tmp_SF''),
    ro ''Tmp_SF'' 35 Sunssf None,
    ro ''St'' 36 Enum16 None,
    ro ''StVnd'' 37 Enum16 None,
    ro ''Evt1'' 38 Bitfield32 None,
    ro ''Evt2'' 40 Bitfield32 None,
    ro ''EvtVnd1'' 42 Bitfield32 None,
    ro ''EvtVnd2'' 44 Bitfield32 None,
    ro ''EvtVnd3'' 46 Bitfield32 None,
    ro ''EvtVnd4'' 48 Bitfield32 None]"

definition EPC_CONTROL :: "point_def list" where
  "EPC_CONTROL = [
    rw ''CmdBits'' 0 Bitfield32 None,
    rw ''CmdRealPwr'' 2 PInt32 (Some ''PWR_SF''),
    rw ''CmdReactivePwr'' 4 PInt32 (Some ''PWR_SF''),
    ro ''PWR_SF'' 6 Sunssf None,
    rw ''CmdV'' 7 PUint16 (Some ''V_SF''),
    ro ''V_SF'' 8 Sunssf None,
    rw ''CmdHz'' 9 PUint16 (Some ''HZ_SF''),
    ro ''HZ_SF'' 10 Sunssf None,
    rw ''CtlSrc'' 11 Enum16 None,
    ro ''IMPPT'' 12 PInt16 (Some ''A_SF''),
    ro ''Ivctl'' 13 PInt16 (Some ''A_SF''),
    ro ''Vsol'' 14 PInt16 (Some ''V_SF''),
    ro ''Vbat'' 15 PInt16 (Some ''V_SF''),
    ro ''A_SF'' 16 Sunssf None,
    rw ''Spcl'' 17 Bitfield32 None,
    ro ''SysFlt'' 19 PUint16 None,
    ro ''FltFlgs'' 20 Bitfield32 None,
    ro ''WrnFlgs'' 22 Bitfield32 None,
    rw ''CmdRealCurrent'' 24 PInt16 (Some ''A_SF''),
    rw ''CmdReactiveCurrent'' 25 PInt16 (Some ''A_SF''),
    ro ''RealCurrent'' 26 PInt16 (Some ''A_SF''),
    ro ''ReactiveCurrent'' 27 PInt16 (Some ''A_SF''),
    ro ''LocVAC'' 28 PUint16 (Some ''V_SF''),
    ro ''RemPhVphA'' 29 PUint16 (Some ''V_SF''),
    ro ''RemPhVphB'' 30 PUint16 (Some ''V_SF''),
    ro ''RemPhVphC'' 31 PUint16 (Some ''V_SF''),
    ro ''RemVAC'' 32 PUint16 (Some ''V_SF''),
    ro ''RemHz'' 33 PUint16 (Some ''HZ_SF''),
    ro ''TMP_SF'' 34 Sunssf None,
    ro ''TmpInt'' 35 PInt16 (Some ''TMP_SF''),
    ro ''TmpInlet'' 36 PInt16 (Some ''TMP_SF''),
    ro ''RemPPVphCA'' 37 PUint16 (Some ''V_SF''),
    ro ''RemPPVphAB'' 38 PUint16 (Some ''V_SF''),
    ro ''RemPPVphBC'' 39 PUint16 (Some ''V_SF''),
    rw ''DcILim'' 40 PUint16 (Some ''A_SF''),
    rw ''DcVLim'' 41 PUint16 (Some ''V_SF''),
    rw ''LineILim'' 42 PUint16 (Some ''A_SF''),
    rw ''InputCurrent'' 43 PInt16 (Some ''A_SF'')]"

definition model_points :: "u16 \<Rightarrow> point_def list option" where
  "model_points model_id =
     (if model_id = 1 then Some COMMON
      else if model_id = 103 then Some INVERTER_THREE_PHASE
      else if model_id = 65534 then Some EPC_CONTROL
      else None)"

definition point :: "u16 \<Rightarrow> string \<Rightarrow> point_def option" where
  "point model_id i = Option.bind (model_points model_id) (\<lambda>points. find (\<lambda>p. pd_id p = i) points)"

section \<open>Resolution\<close>

definition BITFIELD_BITS :: u8 where
  "BITFIELD_BITS = 32"

definition readable :: "sunspec_binding \<Rightarrow> point_def outcome" where
  "readable b =
     bind_outcome (ok_or (point (ss_model_id b) (ss_point b))
       (E ''no such point in a shipped SunSpec model'' [S (ss_point b), W (unat (ss_model_id b))])) (\<lambda>d.
     case ss_bit b of
       None \<Rightarrow> Ok d
     | Some n \<Rightarrow>
         if pd_kind d = Bitfield32 then
           (if n < BITFIELD_BITS then Ok d else Err (E ''bit is past a bitfield32'' [W (unat n)]))
         else Err (E ''not a bitfield'' [S (ss_point b)]))"

definition writable :: "sunspec_binding \<Rightarrow> point_def outcome" where
  "writable b = bind_outcome (readable b) (\<lambda>d.
     if \<not> pd_writable d then Err (E ''read-only'' [S (ss_point b), W (unat (ss_model_id b))])
     else if pd_kind d = Bitfield32 \<and> ss_bit b = None then
       Err (E ''is a bitfield; a command names one bit'' [S (ss_point b)])
     else Ok d)"

definition address :: "model_map \<Rightarrow> sunspec_binding \<Rightarrow> point_def \<Rightarrow> (u16 \<times> u16 option) outcome" where
  "address models b d = (case models (ss_model_id b) of
     None \<Rightarrow> Err (E ''device serves no such SunSpec model'' [W (unat (ss_model_id b))])
   | Some start \<Rightarrow>
       (case pd_sf d of
          None \<Rightarrow> Ok (start + pd_offset d, None)
        | Some i \<Rightarrow>
            (case point (ss_model_id b) i of
               None \<Rightarrow> Abort Panicked
             | Some sf \<Rightarrow> Ok (start + pd_offset d, Some (start + pd_offset sf)))))"

section \<open>Discovery\<close>

definition MARKER :: "u16 list" where
  "MARKER = [0x5375, 0x6e53]"

definition BASES :: "u16 list" where
  "BASES = [40000, 0, 50000]"

definition END :: u16 where
  "END = 0xFFFF"

fun is_exception :: "err \<Rightarrow> bool" where
  "is_exception (Ctx msg as e) = (e = modbus_exception)"
| "is_exception (E msg as) = False"

text \<open>
  The loop of \<^verbatim>\<open>walk\<close>. The answer to a header read depends on its address alone, so after as
  many rounds as there are addresses the loop has come back to one it has seen and never ends:
  running out of rounds is the abort \<open>Looping\<close>.
\<close>

fun walk_loop :: "world \<Rightarrow> channel \<Rightarrow> u8 \<Rightarrow> nat \<Rightarrow> u16 \<Rightarrow> model_map \<Rightarrow> model_map outcome" where
  "walk_loop w ch unit_id 0 addr models = Abort Looping"
| "walk_loop w ch unit_id (Suc n) addr models =
     bind_outcome (read_registers w ch unit_id addr 2 Holding) (\<lambda>header.
     case header of
       i # len # _ \<Rightarrow>
         if i = END then Ok models
         else
           let start = addr + 2; models = models(i \<mapsto> start) in
           if unat start + unat len \<ge> 65536 then
             Err (E ''SunSpec model runs past register 65535'' [W (unat i), W (unat addr)])
           else walk_loop w ch unit_id n (start + len) models
     | _ \<Rightarrow> Abort Panicked)"

definition walk :: "world \<Rightarrow> channel \<Rightarrow> u8 \<Rightarrow> u16 \<Rightarrow> model_map outcome" where
  "walk w ch unit_id addr = walk_loop w ch unit_id 65537 addr Map.empty"

fun discover_from :: "world \<Rightarrow> channel \<Rightarrow> u8 \<Rightarrow> u16 list \<Rightarrow> model_map outcome" where
  "discover_from w ch unit_id [] = Err (E ''no SunSpec marker'' [])"
| "discover_from w ch unit_id (base # bases) = (case read_registers w ch unit_id base 2 Holding of
     Ok ws \<Rightarrow> if ws = MARKER then walk w ch unit_id (base + 2) else discover_from w ch unit_id bases
   | Err e \<Rightarrow> if is_exception e then discover_from w ch unit_id bases
              else Err (Ctx ''SunSpec discovery'' [] e)
   | Abort a \<Rightarrow> Abort a)"

definition discover :: "world \<Rightarrow> channel \<Rightarrow> u8 \<Rightarrow> model_map outcome" where
  "discover w ch unit_id = discover_from w ch unit_id BASES"

section \<open>Reads\<close>

definition key_of :: "sunspec_binding \<Rightarrow> model_key outcome" where
  "key_of b = bind_outcome (ok_or (parse_u8 (ss_unit_id b)) (E ''unit_id isn't a u8'' [S (ss_unit_id b)]))
     (\<lambda>unit_id. Ok (ss_host b, ss_port b, unit_id))"

definition models_of :: "world \<Rightarrow> channel \<Rightarrow> model_key \<Rightarrow> model_map act" where
  "models_of w ch key = (\<lambda>s. case models_cache s key of
     Some models \<Rightarrow> (Ok models, s)
   | None \<Rightarrow>
       (case discover w ch (snd (snd key)) of
          Ok models \<Rightarrow> (Ok models, s\<lparr>models_cache := (models_cache s)(key \<mapsto> models)\<rparr>)
        | Err e \<Rightarrow> (Err e, s)
        | Abort a \<Rightarrow> (Abort a, s)))"

definition forget :: "model_key \<Rightarrow> south \<Rightarrow> south" where
  "forget key s = s\<lparr>models_cache := (models_cache s)(key := None)\<rparr>"

definition not_implemented :: "point_type \<Rightarrow> u16 list" where
  "not_implemented kind = (case kind of
     PInt16 \<Rightarrow> [0x8000] | Sunssf \<Rightarrow> [0x8000]
   | PUint16 \<Rightarrow> [0xFFFF] | Enum16 \<Rightarrow> [0xFFFF]
   | PInt32 \<Rightarrow> [0x8000, 0] | Acc32 \<Rightarrow> [0, 0] | Bitfield32 \<Rightarrow> [0xFFFF, 0xFFFF])"

definition data_type_of :: "point_type \<Rightarrow> modbus_data_type" where
  "data_type_of kind = (case kind of
     PInt16 \<Rightarrow> Int16 | Sunssf \<Rightarrow> Int16 | PUint16 \<Rightarrow> Uint16 | Enum16 \<Rightarrow> Uint16
   | PInt32 \<Rightarrow> Int32 | Acc32 \<Rightarrow> Uint32 | Bitfield32 \<Rightarrow> Uint32)"

definition read_registers_of :: "world \<Rightarrow> channel \<Rightarrow> u8 \<Rightarrow> u16 \<Rightarrow> point_type \<Rightarrow> u16 list outcome" where
  "read_registers_of w ch unit_id addr kind =
     bind_outcome (read_registers w ch unit_id addr (point_register_count kind) Holding) (\<lambda>ws.
       if ws = not_implemented kind then Err (E ''SunSpec's not implemented'' [W (unat addr)]) else Ok ws)"

text \<open>\<^verbatim>\<open>raw as u32\<close> saturates.\<close>

fun as_u32 :: "f64x \<Rightarrow> u32" where
  "as_u32 (Fin x) = (if x < 0 then 0 else if x \<ge> 4294967296 then 4294967295 else word_of_int \<lfloor>x\<rfloor>)"
| "as_u32 PosInf = 4294967295"
| "as_u32 NegInf = 0"
| "as_u32 NaN = 0"

definition read_point :: "world \<Rightarrow> channel \<Rightarrow> model_key \<Rightarrow> sunspec_binding \<Rightarrow> point_def \<Rightarrow> f64x act" where
  "read_point w ch key b d =
     bind_act (models_of w ch key) (\<lambda>models.
     bind_act (lift_act (address models b d)) (\<lambda>(addr, sf_addr).
     bind_act (lift_act (read_registers_of w ch (snd (snd key)) addr (pd_kind d))) (\<lambda>ws.
     bind_act (lift_act (decode_raw ws (data_type_of (pd_kind d)) HighLow)) (\<lambda>raw.
     case ss_bit b of
       Some n \<Rightarrow> lift_act (Ok (Fin (of_bool (bit (as_u32 raw) (unat n mod 32)))))
     | None \<Rightarrow>
         (case sf_addr of
            None \<Rightarrow> lift_act (Ok raw)
          | Some a \<Rightarrow>
              bind_act (lift_act (read_registers_of w ch (snd (snd key)) a Sunssf)) (\<lambda>sf.
              case sf of [] \<Rightarrow> lift_act (Abort Panicked) | sf_word # _ \<Rightarrow> lift_act (apply_sunssf raw sf_word)))))))"

text \<open>A failed request drops the device's model map.\<close>

definition or_forget :: "'a act \<Rightarrow> model_key \<Rightarrow> 'a act" where
  "or_forget m key = (\<lambda>s. case m s of
     (Err e, s') \<Rightarrow> (Err e, forget key s') | (x, s') \<Rightarrow> (x, s'))"

definition read_on_sunspec :: "world \<Rightarrow> channel \<Rightarrow> sunspec_binding \<Rightarrow> f64x act" where
  "read_on_sunspec w ch b =
     bind_act (lift_act (readable b)) (\<lambda>d.
     bind_act (lift_act (key_of b)) (\<lambda>key.
     ctx_act (or_forget (read_point w ch key b d) key) ''sunspec'' [W (unat (ss_model_id b)), S (ss_point b)]))"

section \<open>Writes\<close>

definition write_point :: "world \<Rightarrow> sunspec_binding \<Rightarrow> f64 \<Rightarrow> model_key \<Rightarrow> device_trust option \<Rightarrow> gateway_credentials option \<Rightarrow> unit act" where
  "write_point w b value key trust creds =
     bind_act (lift_act (writable b)) (\<lambda>d.
     if ss_bit b \<noteq> None then lift_act (Err (E ''bit commands aren't written as setpoints'' [S (ss_point b)]))
     else
       bind_act (write_channel w (ss_host b) (ss_port b) trust creds) (\<lambda>ch.
       bind_act (models_of w ch key) (\<lambda>models.
       bind_act (lift_act (address models b d)) (\<lambda>(addr, sf_addr).
       bind_act
         (case sf_addr of
            None \<Rightarrow> lift_act (Ok (Fin 1))
          | Some a \<Rightarrow>
              bind_act (lift_act (read_registers_of w ch (snd (snd key)) a Sunssf)) (\<lambda>sf.
              case sf of [] \<Rightarrow> lift_act (Abort Panicked) | sf_word # _ \<Rightarrow> lift_act (apply_sunssf (Fin 1) sf_word)))
       (\<lambda>scale.
       bind_act (lift_act (encode_raw (Fin value / scale) (data_type_of (pd_kind d)) HighLow)) (\<lambda>ws.
         write_registers w ch (snd (snd key)) addr ws Multiple))))))"

definition write_setpoint_sunspec :: "world \<Rightarrow> sunspec_binding \<Rightarrow> f64 \<Rightarrow> device_trust option \<Rightarrow> gateway_credentials option \<Rightarrow> unit act" where
  "write_setpoint_sunspec w b value trust creds =
     bind_act (lift_act (key_of b)) (\<lambda>key.
       ctx_act (or_forget (write_point w b value key trust creds) key)
         ''sunspec'' [W (unat (ss_model_id b)), S (ss_point b)])"

definition word_address :: "world \<Rightarrow> channel \<Rightarrow> model_key \<Rightarrow> sunspec_binding \<Rightarrow> (u16 \<times> point_def) act" where
  "word_address w ch key b =
     bind_act (lift_act (readable b)) (\<lambda>d.
     if pd_kind d \<noteq> Bitfield32 then lift_act (Err (E ''isn't a bitfield'' [S (ss_point b)]))
     else
       bind_act (models_of w ch key) (\<lambda>models.
       bind_act (lift_act (address models b d)) (\<lambda>(addr, _). lift_act (Ok (addr, d)))))"

definition read_word :: "world \<Rightarrow> sunspec_binding \<Rightarrow> device_trust option \<Rightarrow> gateway_credentials option \<Rightarrow> u32 act" where
  "read_word w b trust creds =
     bind_act (lift_act (key_of b)) (\<lambda>key.
     bind_act (write_channel w (ss_host b) (ss_port b) trust creds) (\<lambda>ch.
     bind_act (word_address w ch key b) (\<lambda>(addr, d).
     bind_act (lift_act (read_registers_of w ch (snd (snd key)) addr (pd_kind d))) (\<lambda>ws.
       lift_act (decode_uint32 ws HighLow)))))"

definition write_word :: "world \<Rightarrow> sunspec_binding \<Rightarrow> u32 \<Rightarrow> device_trust option \<Rightarrow> gateway_credentials option \<Rightarrow> unit act" where
  "write_word w b word trust creds =
     bind_act (lift_act (key_of b)) (\<lambda>key.
     bind_act (write_channel w (ss_host b) (ss_port b) trust creds) (\<lambda>ch.
     bind_act (word_address w ch key b) (\<lambda>(addr, _).
       ctx_act (or_forget (write_registers w ch (snd (snd key)) addr (encode_uint32 word HighLow) Multiple) key)
         ''sunspec'' [W (unat (ss_model_id b)), S (ss_point b)])))"

section \<open>Bit commands\<close>

datatype bit_action = SetBit | ClearBit | PulseBit

definition action_of :: "string \<Rightarrow> f64 \<Rightarrow> bit_action outcome" where
  "action_of verb value =
     (if verb = ''enable'' \<or> verb = ''start'' then Ok SetBit
      else if verb = ''disable'' \<or> verb = ''stop'' then Ok ClearBit
      else if verb = ''clear'' \<or> verb = ''reset'' then Ok PulseBit
      else if verb = ''set'' then Ok (if value \<noteq> 0 then SetBit else ClearBit)
      else Err (E ''verb doesn't drive a bit'' [S verb]))"

definition word_key_of :: "sunspec_binding \<Rightarrow> word_key" where
  "word_key_of b = (ss_host b, ss_port b, ss_unit_id b, ss_model_id b, ss_point b)"

text \<open>\<^verbatim>\<open>1u32 << bit\<close>.\<close>

definition bit_mask :: "u8 \<Rightarrow> u32" where
  "bit_mask n = push_bit (unat n mod 32) 1"

definition apply_action :: "u32 option \<Rightarrow> u8 \<Rightarrow> bit_action \<Rightarrow> (u32 \<times> u32) outcome" where
  "apply_action word n action =
     bind_outcome (ok_or word (E ''no heartbeat running; the PCS isn't listening'' [])) (\<lambda>word.
     let mask = bit_mask n in
     Ok (case action of
           SetBit \<Rightarrow> (word OR mask, word OR mask)
         | ClearBit \<Rightarrow> (word AND NOT mask, word AND NOT mask)
         | PulseBit \<Rightarrow> (word OR mask, word AND NOT mask)))"

definition write_bit :: "world \<Rightarrow> sunspec_binding \<Rightarrow> bit_action \<Rightarrow> device_trust option \<Rightarrow> gateway_credentials option \<Rightarrow> unit act" where
  "write_bit w b action trust creds =
     bind_act (lift_act (ok_or (ss_bit b) (E ''names no bit'' [S (ss_point b)]))) (\<lambda>n s.
     bind_act (lift_act (apply_action (words_cache s (word_key_of b)) n action)) (\<lambda>(now, keep).
     bind_act (write_word w b now trust creds) (\<lambda>_ t.
       (Ok (), t\<lparr>words_cache := (words_cache t)(word_key_of b \<mapsto> keep)\<rparr>))) s)"

section \<open>The command word heartbeat\<close>

record beat =
  bt_device_id :: string
  bt_point :: sunspec_binding
  bt_owned :: u32

definition add_beat :: "string \<Rightarrow> (word_key \<times> beat) list \<Rightarrow> command_source \<Rightarrow> (word_key \<times> beat) list" where
  "add_beat device_id found source = (case cs_binding source of
     Sunspec b \<Rightarrow>
       (case ss_bit b of
          None \<Rightarrow> found
        | Some n \<Rightarrow>
            let key = word_key_of b;
                old = (case map_of found key of
                         Some bt \<Rightarrow> bt
                       | None \<Rightarrow> \<lparr>bt_device_id = device_id, bt_point = b\<lparr>ss_bit := None\<rparr>, bt_owned = 0\<rparr>)
            in AList.update key (old\<lparr>bt_owned := bt_owned old OR bit_mask n\<rparr>) found)
   | _ \<Rightarrow> found)"

definition beats :: "(string \<times> (string \<times> command_source) list) list \<Rightarrow> beat list" where
  "beats commands =
     map snd (foldl (\<lambda>found (device_id, channels). foldl (add_beat device_id) found (map snd channels)) [] commands)"

text \<open>\<^verbatim>\<open>heartbeat::steerable\<close>: the broker link is up and the device is not locked out.\<close>

definition steerable :: "bool \<Rightarrow> string set \<Rightarrow> string \<Rightarrow> bool" where
  "steerable link locked device_id \<longleftrightarrow> link \<and> device_id \<notin> locked"

text \<open>
  One round of the loop in \<^verbatim>\<open>spawn\<close>. The word's lock is held from the check to the write, so a
  round is one step with respect to the bit commands of the same word.
\<close>

definition seed_word :: "world \<Rightarrow> beat \<Rightarrow> device_trust option \<Rightarrow> gateway_credentials option \<Rightarrow> u32 act" where
  "seed_word w bt trust creds = (\<lambda>s.
     case words_cache s (word_key_of (bt_point bt)) of
       Some word \<Rightarrow> (Ok word, s)
     | None \<Rightarrow>
         bind_act (read_word w (bt_point bt) trust creds) (\<lambda>word t.
           let seeded = word AND NOT (bt_owned bt) in
           (Ok seeded, t\<lparr>words_cache := (words_cache t)(word_key_of (bt_point bt) \<mapsto> seeded)\<rparr>)) s)"

definition beat_once :: "world \<Rightarrow> bool \<Rightarrow> string set \<Rightarrow> beat \<Rightarrow> device_trust option \<Rightarrow> gateway_credentials option \<Rightarrow> south \<Rightarrow> south" where
  "beat_once w link locked bt trust creds s =
     (if \<not> steerable link locked (bt_device_id bt)
      then s\<lparr>words_cache := (words_cache s)(word_key_of (bt_point bt) := None)\<rparr>
      else snd (bind_act (seed_word w bt trust creds)
                  (\<lambda>asserted. write_word w (bt_point bt) asserted trust creds) s))"

section \<open>The model tables\<close>

text \<open>The scale factor a point names is a scale-factor point of the same table.\<close>

definition sf_ok :: "point_def list \<Rightarrow> point_def \<Rightarrow> bool" where
  "sf_ok points d = (case pd_sf d of
     None \<Rightarrow> True
   | Some i \<Rightarrow> (case find (\<lambda>p. pd_id p = i) points of None \<Rightarrow> False | Some sf \<Rightarrow> pd_kind sf = Sunssf))"

text \<open>Each point lies past the registers of the one before it.\<close>

fun laid_out :: "nat \<Rightarrow> point_def list \<Rightarrow> bool" where
  "laid_out n [] = (n \<le> 65536)"
| "laid_out n (d # ds) =
     (n \<le> unat (pd_offset d) \<and> laid_out (unat (pd_offset d) + unat (point_register_count (pd_kind d))) ds)"

lemmas model_table_defs = COMMON_def INVERTER_THREE_PHASE_def EPC_CONTROL_def ro_def rw_def

lemma tables_sf_ok: "\<forall>m \<in> {COMMON, INVERTER_THREE_PHASE, EPC_CONTROL}. list_all (sf_ok m) m"
  by (simp add: model_table_defs sf_ok_def)

lemma tables_laid_out: "\<forall>m \<in> {COMMON, INVERTER_THREE_PHASE, EPC_CONTROL}. laid_out 0 m"
  by (simp add: model_table_defs point_register_count_def)

lemma model_points_cases: "model_points m = Some t \<Longrightarrow> t \<in> {COMMON, INVERTER_THREE_PHASE, EPC_CONTROL}"
  by (auto simp: model_points_def split: if_splits)

lemma point_sf:
  assumes "point m i = Some d" and "pd_sf d = Some j"
  shows "\<exists>sf. point m j = Some sf \<and> pd_kind sf = Sunssf"
proof -
  from assms(1) obtain t where t: "model_points m = Some t" and d: "find (\<lambda>p. pd_id p = i) t = Some d"
    by (auto simp: point_def bind_eq_Some_conv)
  have "list_all (sf_ok t) t"
    using tables_sf_ok model_points_cases [OF t] by blast
  moreover have "d \<in> set t"
    using d by (auto simp: find_Some_iff)
  ultimately have "sf_ok t d" by (simp add: list_all_iff)
  with t assms(2) show ?thesis
    by (auto simp: sf_ok_def point_def split: option.splits)
qed

lemma readable_point: "readable b = Ok d \<Longrightarrow> point (ss_model_id b) (ss_point b) = Some d"
  by (auto simp: readable_def split: option.splits if_splits)

text \<open>
  Resolving a readable point never panics: on a device that serves the binding's model the
  point and its scale factor have an address, the point's offset and the scale factor's past the
  model's first register, and a model the device does not serve is an error. In every shipped
  table the points lie one past the other without overlap.
\<close>

lemma address_resolves:
  assumes "readable b = Ok d"
  shows "(case models (ss_model_id b) of
      None \<Rightarrow> \<exists>e. address models b d = Err e
    | Some start \<Rightarrow> (\<exists>sf_addr. address models b d = Ok (start + pd_offset d, sf_addr) \<and>
        (\<forall>j. pd_sf d = Some j \<longrightarrow>
          (\<exists>sf. point (ss_model_id b) j = Some sf \<and> pd_kind sf = Sunssf \<and> sf_addr = Some (start + pd_offset sf))))) \<and>
    (\<forall>t. model_points (ss_model_id b) = Some t \<longrightarrow> laid_out 0 t)"
  using point_sf [OF readable_point [OF assms]] tables_laid_out model_points_cases [of "ss_model_id b"]
  by (fastforce simp: address_def split: option.splits)

definition ex_sunspec :: "string \<Rightarrow> u8 option \<Rightarrow> sunspec_binding" where
  "ex_sunspec pt n = \<lparr>ss_host = ''10.0.0.9'', ss_port = 502, ss_unit_id = ''1'', ss_model_id = 65534,
     ss_point = pt, ss_bit = n\<rparr>"

section \<open>Discovery ends\<close>

lemma retry_no_abort: "retry f a n \<noteq> Abort x"
  by (induction f a n rule: retry.induct) (auto split: reply.splits)

lemma read_registers_no_abort: "read_registers w ch u addr cnt fn \<noteq> Abort x"
  by (simp add: read_registers_def retry_no_abort)

text \<open>
  No model header in the last two registers: there is no room past it for the model, and what
  the device answers there is the end marker or an error.
\<close>

definition header_before_end :: "world \<Rightarrow> channel \<Rightarrow> u8 \<Rightarrow> bool" where
  "header_before_end w ch u \<longleftrightarrow> (\<forall>addr \<in> {65534, 65535}.
     case read_registers w ch u addr 2 Holding of Ok (i # _) \<Rightarrow> i = END | _ \<Rightarrow> True)"

lemma u16_high: "\<not> unat (addr :: u16) < 65534 \<Longrightarrow> addr \<in> {65534, 65535}"
proof -
  assume *: "\<not> unat addr < 65534"
  have "unat addr < 65536" using unat_u16_less [of addr] by simp
  with * have "unat addr = 65534 \<or> unat addr = 65535" by arith
  moreover have "of_nat (unat addr) = addr" by simp
  ultimately have "addr = of_nat 65534 \<or> addr = of_nat 65535" by metis
  then show ?thesis by simp
qed

lemma walk_loop_ends:
  assumes "header_before_end w ch u" and "65536 \<le> unat addr + 2 * n"
  shows "walk_loop w ch u n addr m \<noteq> Abort Looping"
  using assms(2)
proof (induction n arbitrary: addr m)
  case 0
  then show ?case using unat_u16_less [of addr] by simp
next
  case (Suc n)
  show ?case
  proof (cases "unat addr < 65534")
    case True
    then have start: "unat (addr + 2) = unat addr + 2"
      by (simp add: unat_word_ariths)
    have "65536 \<le> unat (addr + 2 + len) + 2 * n" if "unat (addr + 2) + unat len < 65536" for len
      using that start Suc.prems by (simp add: unat_word_ariths)
    then show ?thesis
      using Suc.IH read_registers_no_abort [of w ch u addr 2 Holding]
      by (cases "read_registers w ch u addr 2 Holding") (auto simp: Let_def split: list.splits)
  next
    case False
    with assms(1) u16_high [OF False] show ?thesis
      using read_registers_no_abort [of w ch u addr 2 Holding]
      by (cases "read_registers w ch u addr 2 Holding") (auto simp: header_before_end_def split: list.splits)
  qed
qed

text \<open>
  (C29) Discovery returns: on a device with no model header in its last two registers the walk
  along the model chain ends, whatever lengths the headers report, a length that runs past the
  address space included.
\<close>

theorem discover_ends:
  assumes "header_before_end w ch u"
  shows "discover w ch u \<noteq> Abort Looping"
proof -
  have "discover_from w ch u bases \<noteq> Abort Looping" for bases
  proof (induction bases)
    case Nil
    show ?case by simp
  next
    case (Cons base bases)
    then show ?case
      using walk_loop_ends [OF assms, of "base + 2" 65537] read_registers_no_abort [of w ch u base 2 Holding]
      by (auto simp: walk_def split: outcome.splits)
  qed
  then show ?thesis by (simp add: discover_def)
qed

definition ex_device :: "(u16 \<Rightarrow> u16 list reply) \<Rightarrow> world" where
  "ex_device f = (ex_world 0)\<lparr>w_read := (\<lambda>_ _ addr _ _ _. f addr)\<rparr>"

lemma ex_device_read:
  "read_registers (ex_device f) ch u addr cnt fn = (case f addr of
     Answer ws \<Rightarrow> Ok ws
   | ModbusException \<Rightarrow> Err (Ctx ''modbus refused'' [] modbus_exception)
   | Failure \<Rightarrow> Err (Ctx ''modbus exhausted retries'' [] (E ''request failed'' [])))"
  by (simp add: read_registers_def ex_device_def ex_world_def MAX_ATTEMPTS_Suc split: reply.split)

theorem discover_ends_witness:
  "discover (ex_device (\<lambda>addr. if addr = 40000 then Answer MARKER else if addr < 60000 then Answer [103, 50]
      else ModbusException)) (TcpChannel ''h'' 502) 1 \<noteq> Abort Looping"
  by (rule discover_ends) (simp add: header_before_end_def ex_device_read)

text \<open>
  A header in the last two registers is not caught by the check of the length: its first point's
  address wraps to 0 and the walk goes on from there, here back to the same header.
\<close>

lemma walk_loop_stuck:
  assumes "f 65534 = Answer [7, 65534]"
  shows "walk_loop (ex_device f) ch u n 65534 m = Abort Looping"
proof (induction n arbitrary: m)
  case 0
  show ?case by simp
next
  case (Suc n)
  have wrap: "(131070 :: u16) = 65534" by simp
  from Suc assms show ?case
    by (simp add: ex_device_read END_def wrap)
qed

definition ex_wrapping :: "u16 \<Rightarrow> u16 list reply" where
  "ex_wrapping addr = (if addr = 40000 then Answer MARKER else if addr = 40002 then Answer [103, 25530]
     else Answer [7, 65534])"

lemma ex_wrapping_simps:
  "ex_wrapping 40000 = Answer MARKER" "ex_wrapping 40002 = Answer [103, 25530]"
  "ex_wrapping 65534 = Answer [7, 65534]"
  by (simp_all add: ex_wrapping_def)

theorem discover_wraps_forever:
  "discover (ex_device ex_wrapping) ch u = Abort Looping"
proof -
  have "walk_loop (ex_device ex_wrapping) ch u (Suc 65536) 40002 Map.empty = Abort Looping"
    using walk_loop_stuck [of ex_wrapping ch u 65536 "[103 \<mapsto> 40004]"]
    by (subst walk_loop.simps) (simp add: ex_device_read ex_wrapping_simps END_def)
  then show ?thesis
    by (simp add: discover_def BASES_def walk_def ex_device_read ex_wrapping_simps del: walk_loop.simps)
qed

section \<open>The asserted word\<close>

text \<open>Operations that change neither the asserted words nor what was sent.\<close>

definition quiet :: "south \<Rightarrow> south \<Rightarrow> bool" where
  "quiet s t \<longleftrightarrow> words_cache t = words_cache s \<and> sent t = sent s"

lemma quiet_refl: "quiet s s"
  by (simp add: quiet_def)

lemma quiet_trans: "quiet s t \<Longrightarrow> quiet t u \<Longrightarrow> quiet s u"
  by (simp add: quiet_def)

lemmas quiet_bind = act_keeps_bind [where R = quiet, OF quiet_trans]

lemmas quiet_lift = act_keeps_lift [where R = quiet, OF quiet_refl]

lemma quiet_write_channel: "act_keeps quiet (write_channel w host port trust creds)"
  by (auto simp: act_keeps_def quiet_def write_channel_def Let_def split: option.splits outcome.splits)

lemma quiet_models_of: "act_keeps quiet (models_of w ch key)"
  by (auto simp: act_keeps_def quiet_def models_of_def split: option.splits outcome.splits)

lemma quiet_word_address: "act_keeps quiet (word_address w ch key b)"
  unfolding word_address_def
  by (auto intro!: quiet_bind quiet_lift quiet_models_of)

lemma quiet_read_word: "act_keeps quiet (read_word w b trust creds)"
  unfolding read_word_def
  by (auto intro!: quiet_bind quiet_lift quiet_write_channel quiet_word_address)

lemma act_keepsD: "act_keeps R m \<Longrightarrow> m s = (r, t) \<Longrightarrow> R s t"
  by (metis act_keeps_def snd_conv)

text \<open>Whatever becomes of the write of a word, that word is all it can have sent.\<close>

definition sent_word :: "u32 \<Rightarrow> south_write \<Rightarrow> bool" where
  "sent_word word x \<longleftrightarrow> (\<exists>ch u a. x = RegisterWrite ch u a (encode_uint32 word HighLow) Multiple)"

definition word_written :: "u32 \<Rightarrow> south \<Rightarrow> south \<Rightarrow> bool" where
  "word_written word s t \<longleftrightarrow> words_cache t = words_cache s \<and>
     (\<exists>l. sent t = sent s @ l \<and> length l \<le> 1 \<and> (\<forall>x \<in> set l. sent_word word x))"

lemma quiet_word_written: "quiet s t \<Longrightarrow> word_written word s t"
  by (auto simp: quiet_def word_written_def)

lemma quiet_then_written: "quiet s t \<Longrightarrow> word_written word t u \<Longrightarrow> word_written word s u"
  by (simp add: quiet_def word_written_def)

lemma bind_quiet_written:
  assumes "act_keeps quiet m" and "\<And>x. act_keeps (word_written word) (f x)"
  shows "act_keeps (word_written word) (bind_act m f)"
  unfolding act_keeps_def
proof
  fix s
  obtain y t where m: "m s = (y, t)" by (cases "m s")
  note q = act_keepsD [OF assms(1) m]
  show "word_written word s (snd (bind_act m f s))"
    using q assms(2) m
    by (cases y) (auto simp: bind_act_def act_keeps_def quiet_word_written intro: quiet_then_written)
qed

lemma write_word_written: "act_keeps (word_written word) (write_word w b word trust creds)"
proof -
  have "act_keeps (word_written word) (or_forget (write_registers w ch u addr (encode_uint32 word HighLow) Multiple) key)"
    for ch u addr key
    by (auto simp: act_keeps_def word_written_def or_forget_def forget_def write_registers_def Let_def sent_word_def
        split: outcome.splits)
  then show ?thesis
    unfolding write_word_def
    by (auto intro!: bind_quiet_written quiet_lift quiet_write_channel quiet_word_address simp: act_keeps_ctx)
qed

lemma bit_mask_bit: "bit (bit_mask m) k \<longleftrightarrow> k = unat m mod 32"
  by (auto simp: bit_mask_def bit_simps)

definition bit_effect :: "u8 \<Rightarrow> bit_action \<Rightarrow> u32 \<Rightarrow> u32 \<Rightarrow> u32 \<Rightarrow> bool" where
  "bit_effect m action word now keep \<longleftrightarrow> (\<forall>k < 32.
     (bit now k \<longleftrightarrow> (if k = unat m mod 32 then action \<noteq> ClearBit else bit word k)) \<and>
     (bit keep k \<longleftrightarrow> (if k = unat m mod 32 then action = SetBit else bit word k)))"

lemma apply_action_bits:
  "apply_action (Some word) m action = Ok (now, keep) \<Longrightarrow> bit_effect m action word now keep"
  by (cases action) (auto simp: apply_action_def Let_def bit_simps bit_mask_bit bit_effect_def)

lemma write_bit_word:
  assumes "ss_bit b = Some m" and "write_bit w b action trust creds s = (r, t)"
  shows "case words_cache s (word_key_of b) of
      None \<Rightarrow> (\<exists>e. r = Err e) \<and> t = s
    | Some word \<Rightarrow> (\<exists>now keep. apply_action (Some word) m action = Ok (now, keep) \<and>
        (\<exists>l. sent t = sent s @ l \<and> length l \<le> 1 \<and> (\<forall>x \<in> set l. sent_word now x)) \<and>
        words_cache t = (if r = Ok () then (words_cache s)(word_key_of b \<mapsto> keep) else words_cache s) \<and>
        bit_effect m action word now keep)"
proof (cases "words_cache s (word_key_of b)")
  case None
  with assms show ?thesis
    by (auto simp: write_bit_def bind_act_def lift_act_def apply_action_def)
next
  case (Some word)
  obtain now keep where ap: "apply_action (Some word) m action = Ok (now, keep)"
    by (cases "apply_action (Some word) m action") (auto simp: apply_action_def Let_def)
  obtain r' u where ww: "write_word w b now trust creds s = (r', u)" by fastforce
  note written = act_keepsD [OF write_word_written ww]
  have "r' = Ok () \<and> r = Ok () \<and> t = u\<lparr>words_cache := (words_cache u)(word_key_of b \<mapsto> keep)\<rparr> \<or> r \<noteq> Ok () \<and> t = u"
    using assms Some ap ww by (cases r') (auto simp: write_bit_def bind_act_def lift_act_def)
  then have "sent t = sent u"
    "words_cache t = (if r = Ok () then (words_cache s)(word_key_of b \<mapsto> keep) else words_cache s)"
    using written by (auto simp: word_written_def)
  with Some ap written apply_action_bits [OF ap] show ?thesis
    by (auto simp: word_written_def)
qed

text \<open>
  A bit command moves its own bit and no other: with a heartbeat running the word written
  has the bit on for set and pulse and off for clear and every other bit as asserted; the word
  asserted from then on is the same, except that a pulse leaves its bit off. Only that word is
  sent. Without a heartbeat the command fails and nothing is sent.
\<close>

lemma write_bit_effect:
  assumes "ss_bit b = Some m" and "write_bit w b action trust creds s = (r, t)"
  shows "case words_cache s (word_key_of b) of
      None \<Rightarrow> (\<exists>e. r = Err e) \<and> t = s
    | Some word \<Rightarrow> (\<exists>now keep. apply_action (Some word) m action = Ok (now, keep) \<and>
        (\<exists>l. sent t = sent s @ l \<and> length l \<le> 1 \<and> (\<forall>x \<in> set l. sent_word now x)) \<and>
        words_cache t = (if r = Ok () then (words_cache s)(word_key_of b \<mapsto> keep) else words_cache s) \<and>
        bit_effect m action word now keep)"
  using assms by (rule write_bit_word)

text \<open>
  The life of one asserted word: beats of its heartbeat, steerable or not, and bit commands on
  it, in any order and with any answers of the device; none of the commands turns bit \<open>n\<close> on.
\<close>

inductive word_run :: "beat \<Rightarrow> nat \<Rightarrow> south \<Rightarrow> south \<Rightarrow> bool" for bt n s where
  start: "word_run bt n s s"
| a_beat: "word_run bt n s t \<Longrightarrow> word_run bt n s (beat_once w link locked bt trust creds t)"
| a_command: "word_run bt n s t \<Longrightarrow> word_key_of b = word_key_of (bt_point bt) \<Longrightarrow> ss_bit b = Some m \<Longrightarrow>
    unat m mod 32 \<noteq> n \<or> action = ClearBit \<Longrightarrow>
    word_run bt n s (snd (write_bit w b action trust creds t))"

inductive_cases word_runE: "word_run bt n s t"

definition bit_off :: "beat \<Rightarrow> nat \<Rightarrow> south \<Rightarrow> bool" where
  "bit_off bt n s = (case words_cache s (word_key_of (bt_point bt)) of None \<Rightarrow> True | Some word \<Rightarrow> \<not> bit word n)"

definition sent_bit_off :: "nat \<Rightarrow> south_write \<Rightarrow> bool" where
  "sent_bit_off n x \<longleftrightarrow> (\<exists>word. sent_word word x \<and> \<not> bit word n)"

lemma beat_once_bit_off:
  assumes "bit_off bt n s" and "bit (bt_owned bt) n" and "t = beat_once w link locked bt trust creds s"
  shows "bit_off bt n t \<and> (\<exists>l. sent t = sent s @ l \<and> (\<forall>x \<in> set l. sent_bit_off n x))"
proof (cases "steerable link locked (bt_device_id bt)")
  case False
  with assms(3) show ?thesis
    by (simp add: beat_once_def bit_off_def)
next
  case True
  obtain y u where seed: "seed_word w bt trust creds s = (y, u)" by fastforce
  have u: "sent u = sent s \<and> bit_off bt n u \<and> (\<forall>word. y = Ok word \<longrightarrow> \<not> bit word n)"
  proof (cases "words_cache s (word_key_of (bt_point bt))")
    case None
    obtain y' u' where rd: "read_word w (bt_point bt) trust creds s = (y', u')" by fastforce
    have "quiet s u'" by (rule act_keepsD [OF quiet_read_word rd])
    with None rd seed assms(2) show ?thesis
      by (cases y') (auto simp: seed_word_def bind_act_def quiet_def bit_off_def Let_def bit_simps)
  next
    case (Some word)
    with seed assms(1) show ?thesis by (auto simp: seed_word_def bit_off_def)
  qed
  show ?thesis
  proof (cases y)
    case (Ok word)
    have "t = snd (write_word w (bt_point bt) word trust creds u)"
      using True seed Ok assms(3) by (simp add: beat_once_def bind_act_def)
    then have "word_written word u t"
      using write_word_written by (simp add: act_keeps_def)
    with u Ok show ?thesis
      by (auto simp: word_written_def bit_off_def sent_bit_off_def)
  qed (use True seed assms(3) u in \<open>auto simp: beat_once_def bind_act_def\<close>)
qed

lemma write_bit_bit_off:
  assumes "bit_off bt n s" and "word_key_of b = word_key_of (bt_point bt)" and "ss_bit b = Some m"
    and "unat m mod 32 \<noteq> n \<or> action = ClearBit" and "n < 32" and "t = snd (write_bit w b action trust creds s)"
  shows "bit_off bt n t \<and> (\<exists>l. sent t = sent s @ l \<and> (\<forall>x \<in> set l. sent_bit_off n x))"
proof -
  have eff: "write_bit w b action trust creds s = (fst (write_bit w b action trust creds s), t)"
    by (simp add: assms(6))
  show ?thesis
  proof (cases "words_cache s (word_key_of b)")
    case None
    with write_bit_word [OF assms(3) eff] assms(1) show ?thesis by simp
  next
    case (Some word)
    with assms(1,2) have "\<not> bit word n" by (simp add: bit_off_def)
    moreover obtain now keep l where "sent t = sent s @ l" and "\<forall>x \<in> set l. sent_word now x"
      and "words_cache t = words_cache s \<or> words_cache t = (words_cache s)(word_key_of b \<mapsto> keep)"
      and "bit_effect m action word now keep"
      using write_bit_word [OF assms(3) eff] Some by (simp split: if_splits) blast+
    moreover from this have "\<not> bit now n" "\<not> bit keep n"
      using \<open>\<not> bit word n\<close> assms(4,5) by (auto simp: bit_effect_def)
    ultimately show ?thesis
      using Some assms(2) by (auto simp: bit_off_def sent_bit_off_def)
  qed
qed

text \<open>
  (C18) A tripped power converter never resumes on its own: from a state in which the asserted
  word is forgotten (as it is after any beat that found the broker link down or the device locked
  out) or has the bit off, no interleaving of beats and bit commands that does not turn the bit on
  ever sends a word with that bit on, whatever the device reads when the word is seeded again.
\<close>

theorem no_resume_without_command:
  assumes "word_run bt n s t" and "bit_off bt n s" and "bit (bt_owned bt) n"
  shows "\<exists>l. sent t = sent s @ l \<and> (\<forall>x \<in> set l. sent_bit_off n x)"
proof -
  have n: "n < 32"
    using assms(3) by (auto dest: bit_imp_le_length)
  have "bit_off bt n t \<and> (\<exists>l. sent t = sent s @ l \<and> (\<forall>x \<in> set l. sent_bit_off n x))"
    using assms(1)
  proof induction
    case start
    with assms(2) show ?case by simp
  next
    case (a_beat t w link locked trust creds)
    then show ?case
      using beat_once_bit_off [OF _ assms(3) refl, of t w link locked trust creds] by fastforce
  next
    case (a_command t b m action w trust creds)
    then show ?case
      using write_bit_bit_off [OF _ a_command.hyps(2-4) n refl, of t w trust creds] by fastforce
  qed
  then show ?thesis by blast
qed

definition ex_beat :: beat where
  "ex_beat = \<lparr>bt_device_id = ''pcs'', bt_point = ex_sunspec ''CmdBits'' None, bt_owned = 1\<rparr>"

theorem no_resume_without_command_witness:
  "list_all (sent_bit_off 0)
     (sent (beat_once (ex_world 0) True {} ex_beat None None (beat_once (ex_world 0) False {} ex_beat None None south_init)))"
proof -
  have "word_run ex_beat 0 south_init
      (beat_once (ex_world 0) True {} ex_beat None None (beat_once (ex_world 0) False {} ex_beat None None south_init))"
    by (intro word_run.intros)
  from no_resume_without_command [OF this] show ?thesis
    by (fastforce simp: bit_off_def south_init_def ex_beat_def list_all_iff)
qed

section \<open>Where SunSpec writes go\<close>

lemma silent_models_of [simp]: "silent (models_of w ch key)"
  by (auto simp: silent_def act_keeps_def models_of_def sessions_ok_def split: option.splits outcome.splits)

lemma silent_word_address: "silent (word_address w ch key b)"
  unfolding word_address_def by (auto intro!: silent_bind)

lemma sends_to_or_forget: "sends_to key m \<Longrightarrow> sends_to key (or_forget m k)"
  unfolding or_forget_def by (rule sends_to_after) (auto simp: forget_def split: outcome.split)

lemma write_point_sends:
  "sends_to (ss_host b, ss_port b, is_secure trust creds) (write_point w b value key trust creds)"
  unfolding write_point_def
  by (auto intro!: sends_to_bind sends_to_bind_channel silent_bind sends_to_write_registers
      split: option.splits list.splits)

lemma write_setpoint_sunspec_sends:
  "sends_to (ss_host b, ss_port b, is_secure trust creds) (write_setpoint_sunspec w b value trust creds)"
  unfolding write_setpoint_sunspec_def
  by (auto intro!: sends_to_bind sends_to_or_forget write_point_sends)

lemma write_word_sends:
  "sends_to (ss_host b, ss_port b, is_secure trust creds) (write_word w b word trust creds)"
  unfolding write_word_def
  by (auto intro!: sends_to_bind sends_to_bind_channel sends_to_or_forget sends_to_write_registers silent_word_address)

lemma sends_to_then_words:
  assumes "sends_to key m"
  shows "sends_to key (bind_act m (\<lambda>x t. (Ok y, t\<lparr>words_cache := f t\<rparr>)))"
  using assms unfolding bind_act_def by (rule sends_to_after) (auto split: outcome.split)

lemma write_bit_sends:
  "sends_to (ss_host b, ss_port b, is_secure trust creds) (write_bit w b action trust creds)"
proof -
  let ?F = "\<lambda>n u. bind_act (lift_act (apply_action (words_cache u (word_key_of b)) n action)) (\<lambda>(now, keep).
     bind_act (write_word w b now trust creds) (\<lambda>_ t.
       (Ok (), t\<lparr>words_cache := (words_cache t)(word_key_of b \<mapsto> keep)\<rparr>)))"
  have "sends_to (ss_host b, ss_port b, is_secure trust creds) (?F n u)" for n and u :: south
    by (rule sends_to_bind) (auto intro!: sends_to_then_words write_word_sends)
  then have "sends_to (ss_host b, ss_port b, is_secure trust creds) (\<lambda>s. ?F n s s)" for n
    by (rule sends_to_depends [where f = "?F n"])
  then show ?thesis
    unfolding write_bit_def by (rule sends_to_bind [OF silent_lift])
qed

end
