(* ===== verification/Dispatch.thy ===== *)
theory Dispatch
  imports Distribution SunSpec
begin

text \<open>
  The command path: \<^verbatim>\<open>redfish/write.rs\<close>, writing shares (\<^verbatim>\<open>dispatch/distribute.rs\<close>) and caps
  (\<^verbatim>\<open>dispatch/power_cap.rs\<close>), the requested setpoints (\<^verbatim>\<open>dispatch/requested.rs\<close>), command
  topics (\<^verbatim>\<open>dispatch/topic.rs\<close>) and \<^verbatim>\<open>execute_setpoint\<close> and \<^verbatim>\<open>handle_command\<close>
  (\<^verbatim>\<open>dispatch/mod.rs\<close>). Whether the broker takes an event and what \<^verbatim>\<open>serde_json\<close> makes of a
  payload are parameters.
\<close>

section \<open>Redfish writes\<close>

definition unescape_token :: "string \<Rightarrow> string" where
  "unescape_token token = replace_all ''~0'' ''~'' (replace_all ''~1'' ''/'' token)"

definition nest :: "string \<Rightarrow> json \<Rightarrow> json" where
  "nest pointer value =
     foldl (\<lambda>inner token. JObj [(unescape_token token, inner)]) value (rev (drop 1 (split_on (CHR ''/'') pointer)))"

text \<open>\<^verbatim>\<open>json!\<close> of a float that is not finite is null.\<close>

definition json_number :: "f64x \<Rightarrow> json" where
  "json_number x = (case x of Fin a \<Rightarrow> JNum a | _ \<Rightarrow> JNull)"

definition http_client :: "world \<Rightarrow> device_trust option \<Rightarrow> gateway_credentials option \<Rightarrow> http_scheme outcome" where
  "http_client w trust creds = (case (trust, creds) of
     (Some (TlsMutual _), Some c) \<Rightarrow>
       if w_https w c then Ok (Https c) else Err (E ''redfish https client'' [])
   | _ \<Rightarrow> if w_http w then Ok Http else Err (E ''redfish http client'' []))"

definition write_setpoint_redfish :: "world \<Rightarrow> redfish_binding \<Rightarrow> f64 \<Rightarrow> device_trust option \<Rightarrow> gateway_credentials option \<Rightarrow> unit act" where
  "write_setpoint_redfish w b value trust creds =
     bind_act (lift_act (ok_or (rf_json_pointer b) (E ''redfish write needs a json_pointer'' [S (rf_uri b)]))) (\<lambda>pointer.
     bind_act (lift_act (http_client w trust creds)) (\<lambda>scheme s.
       let body = nest pointer (json_number (Fin value / Fin (rf_scale b))) in
       ((case w_patch w scheme (rf_host b) (rf_port b) (rf_uri b) body of
           SendFailed \<Rightarrow> Err (Ctx ''PATCH'' [S (rf_uri b)] (E ''send'' []))
         | Status n \<Rightarrow>
             if 200 \<le> n \<and> n < 300 then Ok ()
             else Err (E ''PATCH refused'' [S (rf_uri b), W n])),
        s\<lparr>sent := sent s @ [HttpPatch scheme (rf_host b) (rf_port b) (rf_uri b) body]\<rparr>)))"

section \<open>Writing shares\<close>

type_synonym trust_map = "string \<rightharpoonup> device_trust"

definition write_share :: "world \<Rightarrow> string \<Rightarrow> f64 \<Rightarrow> string \<Rightarrow> device_channels \<Rightarrow> trust_map \<Rightarrow> gateway_credentials option \<Rightarrow> unit act" where
  "write_share w device_id share channel_key channels trusts creds =
     bind_act (lift_act (ok_or (channel_lookup channels device_id channel_key)
         (E ''child has no binding'' [S device_id, S channel_key]))) (\<lambda>binding.
     ctx_act
       (case binding of
          ModbusTcp b \<Rightarrow> write_setpoint w b share (trusts device_id) creds
        | Sunspec b \<Rightarrow> write_setpoint_sunspec w b share (trusts device_id) creds
        | _ \<Rightarrow> lift_act (Err (E ''child's binding is not modbus_tcp or sunspec'' [S device_id, S channel_key])))
       ''write to child failed'' [S device_id])"

fun write_shares :: "world \<Rightarrow> (string \<times> f64) list \<Rightarrow> string \<Rightarrow> device_channels \<Rightarrow> trust_map \<Rightarrow> gateway_credentials option \<Rightarrow> unit act" where
  "write_shares w [] channel_key channels trusts creds = lift_act (Ok ())"
| "write_shares w ((device_id, share) # shares) channel_key channels trusts creds =
     bind_act (write_share w device_id share channel_key channels trusts creds)
       (\<lambda>_. write_shares w shares channel_key channels trusts creds)"

definition dispatch_distribute :: "world \<Rightarrow> instant \<Rightarrow> distribute_binding \<Rightarrow> f64 \<Rightarrow> string \<Rightarrow> string \<Rightarrow> device_channels \<Rightarrow> trust_map \<Rightarrow> string set \<Rightarrow> gateway_credentials option \<Rightarrow> input_cache \<Rightarrow> unit act" where
  "dispatch_distribute w now b target channel_key site_id channels trusts locked creds cache =
     bind_act (lift_act (envelope_guard_config b)) (\<lambda>guard.
     if guard \<noteq> None then lift_act (Ok ())
     else
       bind_act (lift_act (compute_shares now b target site_id cache locked)) (\<lambda>shares.
       bind_act (write_shares w shares channel_key channels trusts creds) (\<lambda>_.
       if target \<noteq> 0 \<and> list_all (\<lambda>(_, s). s = 0) shares
       then lift_act (Err (E ''no rack could take the target; all held at 0 W'' [N target]))
       else lift_act (Ok ()))))"

section \<open>Power caps\<close>

definition child_cap_watts :: "cap_child \<Rightarrow> f64 \<Rightarrow> f64 outcome" where
  "child_cap_watts c percent =
     bind_outcome (clamp (cc_max_w c * percent / 100) (cc_min_w c) (cc_max_w c)) (\<lambda>exact.
       Ok (of_int \<lceil>of_int (rust_round (exact * 1000000)) / 1000000 :: f64\<rceil>))"

definition child_caps :: "power_cap_binding \<Rightarrow> f64 \<Rightarrow> (string \<times> string \<times> f64) list outcome" where
  "child_caps b percent =
     collect_outcome (map (\<lambda>c. bind_outcome (child_cap_watts c percent)
         (\<lambda>w. Ok (cc_device_id c, ''set_'' @ cc_target c, w))) (pc_children b))"

definition write_one :: "world \<Rightarrow> string \<times> string \<times> f64 \<Rightarrow> device_channels \<Rightarrow> trust_map \<Rightarrow> gateway_credentials option \<Rightarrow> unit act" where
  "write_one w item channels trusts creds = (case item of (device_id, key, watts) \<Rightarrow>
     (case channel_lookup channels device_id key of
        Some (Redfish b) \<Rightarrow> write_setpoint_redfish w b watts (trusts device_id) creds
      | Some _ \<Rightarrow> lift_act (Err (E ''power cap child isn't a Redfish binding'' [S device_id, S key]))
      | None \<Rightarrow> lift_act (Err (E ''power cap child isn't in the spec'' [S device_id, S key]))))"

text \<open>
  The stream of writes: every one is made, in the order the list has them, and the failures are
  collected. (The code keeps up to 32 in flight; the order in which they land is then open.)
\<close>

fun write_each :: "world \<Rightarrow> (string \<times> string \<times> f64) list \<Rightarrow> device_channels \<Rightarrow> trust_map \<Rightarrow> gateway_credentials option \<Rightarrow> err list act" where
  "write_each w [] channels trusts creds = lift_act (Ok [])"
| "write_each w (item # items) channels trusts creds = (\<lambda>s.
     case write_one w item channels trusts creds s of
       (Ok _, s') \<Rightarrow> write_each w items channels trusts creds s'
     | (Err e, s') \<Rightarrow>
         bind_act (write_each w items channels trusts creds)
           (\<lambda>failed. lift_act (Ok (Ctx ''cap'' [S (fst item), S (fst (snd item))] e # failed))) s'
     | (Abort a, s') \<Rightarrow> (Abort a, s'))"

definition write_caps :: "world \<Rightarrow> (string \<times> string \<times> f64) list \<Rightarrow> device_channels \<Rightarrow> trust_map \<Rightarrow> string set \<Rightarrow> gateway_credentials option \<Rightarrow> unit act" where
  "write_caps w caps channels trusts locked creds =
     bind_act (write_each w (filter (\<lambda>c. fst c \<notin> locked) caps) channels trusts creds) (\<lambda>failed.
       if failed \<noteq> [] then lift_act (Err (E ''cap writes failed'' [W (length failed)])) else lift_act (Ok ()))"

definition dispatch_power_cap :: "world \<Rightarrow> power_cap_binding \<Rightarrow> f64 \<Rightarrow> device_channels \<Rightarrow> trust_map \<Rightarrow> string set \<Rightarrow> gateway_credentials option \<Rightarrow> unit act" where
  "dispatch_power_cap w b percent channels trusts locked creds =
     bind_act (lift_act (child_caps b percent)) (\<lambda>caps. write_caps w caps channels trusts locked creds)"

section \<open>Requested setpoints\<close>

type_synonym requested = "string \<rightharpoonup> (string \<rightharpoonup> f64)"

definition requested_of :: "requested \<Rightarrow> string \<Rightarrow> string \<Rightarrow> f64 option" where
  "requested_of r device_id key = Option.bind (r device_id) (\<lambda>m. m key)"

definition record_request :: "requested \<Rightarrow> string \<Rightarrow> string \<Rightarrow> f64 \<Rightarrow> f64 option \<times> requested" where
  "record_request r device_id key value =
     (let m = (case r device_id of Some m \<Rightarrow> m | None \<Rightarrow> Map.empty) in
      (m key, r(device_id \<mapsto> m(key \<mapsto> value))))"

definition restore_request :: "requested \<Rightarrow> string \<Rightarrow> string \<Rightarrow> f64 \<Rightarrow> f64 option \<Rightarrow> requested" where
  "restore_request r device_id key value previous = (case r device_id of
     None \<Rightarrow> r
   | Some m \<Rightarrow> if m key \<noteq> Some value then r else r(device_id \<mapsto> m(key := previous)))"

section \<open>Setpoints\<close>

definition verb_of :: "string \<Rightarrow> string" where
  "verb_of channel_key = (case split_once (CHR ''_'') channel_key of Some (v, _) \<Rightarrow> v | None \<Rightarrow> channel_key)"

definition execute_setpoint :: "world \<Rightarrow> instant \<Rightarrow> protocol_binding \<Rightarrow> f64 \<Rightarrow> string \<Rightarrow> string \<Rightarrow> string \<Rightarrow> device_channels \<Rightarrow> trust_map \<Rightarrow> string set \<Rightarrow> gateway_credentials option \<Rightarrow> input_cache \<Rightarrow> unit act" where
  "execute_setpoint w now binding value device_id channel_key site_id channels trusts locked creds cache =
     (case binding of
        ModbusTcp b \<Rightarrow> write_setpoint w b value (trusts device_id) creds
      | Redfish b \<Rightarrow> write_setpoint_redfish w b value (trusts device_id) creds
      | Sunspec b \<Rightarrow>
          if ss_bit b \<noteq> None then
            bind_act (lift_act (action_of (verb_of channel_key) value))
              (\<lambda>action. write_bit w b action (trusts device_id) creds)
          else write_setpoint_sunspec w b value (trusts device_id) creds
      | PowerCap p \<Rightarrow> dispatch_power_cap w p value channels trusts locked creds
      | Distribute d \<Rightarrow> dispatch_distribute w now d value channel_key site_id channels trusts locked creds cache
      | other \<Rightarrow> lift_act (Err (E ''unsupported protocol for commands'' [S (protocol_name other)])))"

section \<open>Commands\<close>

record command_topic =
  ct_device_id :: string
  ct_verb :: string
  ct_target :: string

definition parse_command_topic :: "string \<Rightarrow> string \<Rightarrow> command_topic option" where
  "parse_command_topic topic site_id = (case split_on (CHR ''/'') topic of
     a # b # c # device_id # d # verb # target # _ \<Rightarrow>
       if a = ''sites'' \<and> b = site_id \<and> c = ''devices'' \<and> device_id \<noteq> [] \<and> d = ''commands'' \<and> verb \<noteq> [] \<and> target \<noteq> []
       then Some \<lparr>ct_device_id = device_id, ct_verb = verb, ct_target = target\<rparr> else None
   | _ \<Rightarrow> None)"

record command_frame =
  cf_ts :: string
  cf_value :: f64
  cf_command_id :: string

datatype phase = Received | Done | Failed

record dispatch_event =
  ev_topic :: string
  ev_command_id :: string
  ev_phase :: phase
  ev_reason :: "err option"

definition event_topic :: "string \<Rightarrow> string \<Rightarrow> string" where
  "event_topic site_id device_id = ''sites/'' @ site_id @ ''/devices/'' @ device_id @ ''/events/dispatch_state''"

text \<open>\<^verbatim>\<open>format!("{err}")\<close> prints the outermost message only.\<close>

fun outermost :: "err \<Rightarrow> err" where
  "outermost (E msg as) = E msg as"
| "outermost (Ctx msg as e) = E msg as"

record gateway =
  g_south :: south
  g_requested :: requested
  g_events :: "dispatch_event list"

definition publish_event :: "(dispatch_event \<Rightarrow> bool) \<Rightarrow> string \<Rightarrow> string \<Rightarrow> phase \<Rightarrow> err option \<Rightarrow> gateway \<Rightarrow> unit outcome \<times> gateway" where
  "publish_event accepts topic command_id phase reason g =
     (let ev = \<lparr>ev_topic = topic, ev_command_id = command_id, ev_phase = phase, ev_reason = reason\<rparr> in
      if accepts ev then (Ok (), g\<lparr>g_events := g_events g @ [ev]\<rparr>)
      else (Err (Ctx ''publish dispatch event'' [S topic] (E ''publish'' [])), g))"

text \<open>
  A payload is opaque: what \<^verbatim>\<open>serde_json\<close> makes of it is the parameter \<open>parse_frame\<close>.
\<close>

text \<open>What a command runs on: the live device maps and the locked set, and the cache.\<close>

record devices =
  dv_channels :: device_channels
  dv_trust :: trust_map
  dv_locked :: "string set"

definition handle_command :: "world \<Rightarrow> instant \<Rightarrow> (dispatch_event \<Rightarrow> bool) \<Rightarrow> ('p \<Rightarrow> command_frame option) \<Rightarrow> string \<Rightarrow> devices \<Rightarrow> gateway_credentials option \<Rightarrow> input_cache \<Rightarrow> string \<Rightarrow> 'p \<Rightarrow> gateway \<Rightarrow> unit outcome \<times> gateway" where
  "handle_command w now accepts parse_frame site_id dv creds cache topic payload g =
     (case parse_command_topic topic site_id of
        None \<Rightarrow> (Ok (), g)
      | Some cmd \<Rightarrow>
     (case map_of (dv_channels dv) (ct_device_id cmd) of
        None \<Rightarrow> (Ok (), g)
      | Some channels \<Rightarrow>
     (case parse_frame payload of
        None \<Rightarrow> (Ok (), g)
      | Some frame \<Rightarrow>
          let device_id = ct_device_id cmd;
              events = event_topic site_id device_id;
              ack = publish_event accepts events (cf_command_id frame) in
          (case ack Received None g of
             (Ok _, g) \<Rightarrow>
               if device_id \<in> dv_locked dv then ack Failed (Some (E ''device is locked out'' [S device_id])) g
               else
                 let channel_key = command_key (ct_verb cmd) (ct_target cmd) in
                 (case map_of channels channel_key of
                    None \<Rightarrow> ack Failed (Some (E ''unknown command for device'' [S channel_key, S device_id])) g
                  | Some binding \<Rightarrow>
                      let (previous, req) = record_request (g_requested g) device_id channel_key (cf_value frame);
                          (r, south') = execute_setpoint w now binding (cf_value frame) device_id channel_key site_id
                             (dv_channels dv) (dv_trust dv) (dv_locked dv) creds cache (g_south g);
                          g = g\<lparr>g_requested := req, g_south := south'\<rparr>
                      in (case r of
                            Ok _ \<Rightarrow> ack Done None g
                          | Err e \<Rightarrow>
                              ack Failed (Some (outermost e))
                                (g\<lparr>g_requested := restore_request req device_id channel_key (cf_value frame) previous\<rparr>)
                          | Abort a \<Rightarrow> (Abort a, g)))
           | failed \<Rightarrow> failed))))"

section \<open>The protocols a setpoint is written through\<close>

text \<open>
  What the command path relies on of a protocol's \<^verbatim>\<open>write_setpoint\<close>: on every path it sends at
  most one request, to the binding's own endpoint and secured as the device's trust asks for,
  and when it reports success it has sent one.
\<close>

locale setpoint_writer =
  fixes wr :: "world \<Rightarrow> 'b \<Rightarrow> f64 \<Rightarrow> device_trust option \<Rightarrow> gateway_credentials option \<Rightarrow> unit act"
    and host :: "'b \<Rightarrow> string"
    and port :: "'b \<Rightarrow> u16"
  assumes wr_sends: "sends_to (host b, port b, is_secure trust creds) (wr w b v trust creds)"
    and wr_done: "wr w b v trust creds s = (Ok (), t) \<Longrightarrow> sent t \<noteq> sent s"
begin

lemma wr_done_one:
  assumes "wr w b v trust creds s = (Ok (), t)" and "sessions_ok s"
  shows "\<exists>x. sent t = sent s @ [x] \<and> aimed_at (host b, port b, is_secure trust creds) x"
proof -
  obtain l where l: "sent t = sent s @ l" "length l \<le> 1" "\<forall>x \<in> set l. aimed_at (host b, port b, is_secure trust creds) x"
    using sends_toD [OF wr_sends assms(2,1)] by blast
  with wr_done [OF assms(1)] obtain x where "l = [x]"
    by (cases l) auto
  with l show ?thesis by auto
qed

lemma wr_keeps: "sessions_ok s \<Longrightarrow> wr w b v trust creds s = (r, t) \<Longrightarrow> sessions_ok t"
  using sends_toD [OF wr_sends] by blast

end

lemma write_registers_sent: "write_registers w ch u addr ws fn s = (Ok (), t) \<Longrightarrow> sent t \<noteq> sent s"
  by (auto simp: write_registers_def Let_def split: if_splits)

lemma silent_sent: "silent m \<Longrightarrow> m s = (r, t) \<Longrightarrow> sent t = sent s"
  by (auto simp: silent_def act_keeps_def dest: spec [of _ s])

lemma write_channel_sent: "write_channel w host port trust creds s = (r, t) \<Longrightarrow> sent t = sent s"
  by (auto simp: write_channel_def Let_def split: option.splits outcome.splits)

interpretation modbus_writer: setpoint_writer write_setpoint mb_host mb_port
proof
  show "sends_to (mb_host b, mb_port b, is_secure trust creds) (write_setpoint w b v trust creds)" for b trust creds w v
    by (rule write_setpoint_sends)
  show "sent t \<noteq> sent s" if "write_setpoint w b v trust creds s = (Ok (), t)" for w b v trust creds s t
    using that by (auto simp: write_setpoint_def bind_act_Ok dest!: write_channel_sent write_registers_sent)
qed

lemma or_forget_Ok [simp]: "or_forget m key s = (Ok x, t) \<longleftrightarrow> m s = (Ok x, t)"
  by (auto simp: or_forget_def split: prod.splits outcome.splits)

lemma case_list_lift:
  "(case xs of [] \<Rightarrow> lift_act e | x # _ \<Rightarrow> lift_act (f x)) = lift_act (case xs of [] \<Rightarrow> e | x # _ \<Rightarrow> f x)"
  by (cases xs) simp_all

lemma write_point_sent: "write_point w b v key trust creds s = (Ok (), t) \<Longrightarrow> sent t \<noteq> sent s"
  by (auto simp: write_point_def bind_act_Ok case_list_lift split: if_splits option.splits
      dest!: write_channel_sent write_registers_sent silent_sent [OF silent_models_of])

interpretation sunspec_writer: setpoint_writer write_setpoint_sunspec ss_host ss_port
proof
  show "sends_to (ss_host b, ss_port b, is_secure trust creds) (write_setpoint_sunspec w b v trust creds)" for b trust creds w v
    by (rule write_setpoint_sunspec_sends)
  show "sent t \<noteq> sent s" if "write_setpoint_sunspec w b v trust creds s = (Ok (), t)" for w b v trust creds s t
    using that by (auto simp: write_setpoint_sunspec_def bind_act_Ok dest!: write_point_sent)
qed

lemma http_client_secure: "http_client w trust creds = Ok scheme \<Longrightarrow> is_secure trust creds \<longleftrightarrow> scheme \<noteq> Http"
  by (auto simp: http_client_def is_secure_def split: option.splits device_trust.splits if_splits)

interpretation redfish_writer: setpoint_writer write_setpoint_redfish rf_host rf_port
proof
  show "sends_to (rf_host b, rf_port b, is_secure trust creds) (write_setpoint_redfish w b v trust creds)" for b trust creds w v
    using http_client_secure [of w trust creds]
    by (auto simp: sends_to_def act_keeps_def sends_def write_setpoint_redfish_def bind_act_def lift_act_def
        sessions_ok_def Let_def split: outcome.splits)
  show "sent t \<noteq> sent s" if "write_setpoint_redfish w b v trust creds s = (Ok (), t)" for w b v trust creds s t
    using that by (auto simp: write_setpoint_redfish_def bind_act_Ok Let_def)
qed

section \<open>Locked-out devices\<close>

text \<open>
  Requests aimed at the binding of some device that is not locked out. Only bindings of a
  device itself have an endpoint; distribute and power-cap bindings reach one through a child.
\<close>

definition endpoint :: "protocol_binding \<Rightarrow> (string \<times> u16) option" where
  "endpoint binding = (case binding of
     ModbusTcp b \<Rightarrow> Some (mb_host b, mb_port b)
   | Sunspec b \<Rightarrow> Some (ss_host b, ss_port b)
   | Redfish b \<Rightarrow> Some (rf_host b, rf_port b)
   | _ \<Rightarrow> None)"

definition permitted :: "device_channels \<Rightarrow> trust_map \<Rightarrow> string set \<Rightarrow> gateway_credentials option \<Rightarrow> south_write \<Rightarrow> bool" where
  "permitted channels trusts locked creds x \<longleftrightarrow> (\<exists>device_id key binding h p. device_id \<notin> locked \<and>
     channel_lookup channels device_id key = Some binding \<and> endpoint binding = Some (h, p) \<and>
     aimed_at (h, p, is_secure (trusts device_id) creds) x)"

definition sends_only :: "(south_write \<Rightarrow> bool) \<Rightarrow> 'a act \<Rightarrow> bool" where
  "sends_only P m \<longleftrightarrow> act_keeps (\<lambda>s t. sessions_ok s \<longrightarrow> sessions_ok t \<and>
     (\<exists>l. sent t = sent s @ l \<and> (\<forall>x \<in> set l. P x))) m"

lemma sends_only_lift [simp]: "sends_only P (lift_act x)"
  by (simp add: sends_only_def act_keeps_def lift_act_def)

lemma sends_only_bind: "sends_only P m \<Longrightarrow> (\<And>x. sends_only P (f x)) \<Longrightarrow> sends_only P (bind_act m f)"
  unfolding sends_only_def by (erule act_keeps_bind [rotated]) fastforce+

lemma sends_only_bind_lift:
  assumes "\<And>x. y = Ok x \<Longrightarrow> sends_only P (f x)"
  shows "sends_only P (bind_act (lift_act y) f)"
  using assms by (cases y) (auto simp: sends_only_def act_keeps_def bind_act_def lift_act_def)

lemma sends_only_ctx [simp]: "sends_only P (ctx_act m msg as) = sends_only P m"
  by (simp add: sends_only_def act_keeps_ctx)

lemma sends_to_only:
  assumes "sends_to key m" and "\<And>x. aimed_at key x \<Longrightarrow> P x"
  shows "sends_only P m"
  using assms by (fastforce simp: sends_to_def sends_only_def sends_def act_keeps_def)

lemma sends_only_permitted:
  assumes "sends_to (h, p, is_secure (trusts d) creds) m" and "d \<notin> locked"
    and "channel_lookup channels d key = Some binding" and "endpoint binding = Some (h, p)"
  shows "sends_only (permitted channels trusts locked creds) m"
  using assms(2-) by (intro sends_to_only [OF assms(1)]) (unfold permitted_def, blast)

lemma write_share_permitted:
  assumes "d \<notin> locked"
  shows "sends_only (permitted channels trusts locked creds) (write_share w d v key channels trusts creds)"
  unfolding write_share_def
proof (rule sends_only_bind_lift)
  fix binding
  assume "ok_or (channel_lookup channels d key) (E ''child has no binding'' [S d, S key]) = Ok binding"
  then have "channel_lookup channels d key = Some binding" by simp
  note permit = sends_only_permitted [OF _ assms this]
  show "sends_only (permitted channels trusts locked creds) (ctx_act
       (case binding of
          ModbusTcp b \<Rightarrow> write_setpoint w b v (trusts d) creds
        | Sunspec b \<Rightarrow> write_setpoint_sunspec w b v (trusts d) creds
        | _ \<Rightarrow> lift_act (Err (E ''child's binding is not modbus_tcp or sunspec'' [S d, S key])))
       ''write to child failed'' [S d])"
    by (cases binding)
      (auto intro: permit [OF modbus_writer.wr_sends] permit [OF sunspec_writer.wr_sends] simp: endpoint_def)
qed

lemma write_shares_permitted:
  "\<forall>(d, v) \<in> set shares. d \<notin> locked \<Longrightarrow>
    sends_only (permitted channels trusts locked creds) (write_shares w shares key channels trusts creds)"
  by (induction w shares key channels trusts creds rule: write_shares.induct)
    (auto intro!: sends_only_bind write_share_permitted)

lemma push_missing_ids: "set (map fst (foldl push_missing shares cs)) \<subseteq> fst ` set shares \<union> cp_device_id ` set cs"
proof (induction cs arbitrary: shares)
  case Nil
  show ?case by simp
next
  case (Cons c cs)
  from Cons.IH [of "push_missing shares c"] show ?case
    by (auto simp: push_missing_def split: if_splits)
qed

lemma compute_shares_unlocked:
  assumes "compute_shares now b t site cache locked = Ok shares" and "(d, v) \<in> set shares"
  shows "d \<notin> locked"
proof -
  from assms(1) obtain p cs where cs: "split_children now b t site cache locked = Ok cs"
    and sh: "shares = foldl push_missing (allocate t cs p) cs"
    by (auto simp: compute_shares_def)
  have "fst ` set (allocate t cs p) \<subseteq> cp_device_id ` set cs"
    using arg_cong [OF map_fst_allocate [of t cs p], of set] eligible_subset [of cs] by auto
  moreover have "d \<in> set (map fst shares)"
    using assms(2) by (metis fst_conv image_eqI set_map)
  ultimately have "d \<in> cp_device_id ` set cs"
    using push_missing_ids [of "allocate t cs p" cs] sh by blast
  also have "cp_device_id ` set cs = ca_device_id ` {c \<in> set (d_children b). ca_device_id c \<notin> locked}"
    using arg_cong [OF split_children_ids [OF cs], of set] by auto
  finally show ?thesis by auto
qed

lemma dispatch_distribute_permitted:
  "sends_only (permitted channels trusts locked creds)
     (dispatch_distribute w now b t key site channels trusts locked creds cache)"
  unfolding dispatch_distribute_def
proof (rule sends_only_bind_lift)
  fix guard
  have "sends_only (permitted channels trusts locked creds)
      (bind_act (write_shares w shares key channels trusts creds) (\<lambda>_.
         if t \<noteq> 0 \<and> list_all (\<lambda>(_, s). s = 0) shares
         then lift_act (Err (E ''no rack could take the target; all held at 0 W'' [N t])) else lift_act (Ok ())))"
    if "compute_shares now b t site cache locked = Ok shares" for shares
    using compute_shares_unlocked [OF that] by (intro sends_only_bind write_shares_permitted) auto
  then show "sends_only (permitted channels trusts locked creds)
      (if guard \<noteq> None then lift_act (Ok ())
       else bind_act (lift_act (compute_shares now b t site cache locked)) (\<lambda>shares.
         bind_act (write_shares w shares key channels trusts creds) (\<lambda>_.
         if t \<noteq> 0 \<and> list_all (\<lambda>(_, s). s = 0) shares
         then lift_act (Err (E ''no rack could take the target; all held at 0 W'' [N t])) else lift_act (Ok ()))))"
    by (simp add: sends_only_bind_lift)
qed

lemma write_one_permitted:
  assumes "fst item \<notin> locked"
  shows "sends_only (permitted channels trusts locked creds) (write_one w item channels trusts creds)"
  using assms sends_only_permitted [OF redfish_writer.wr_sends]
  by (auto simp: write_one_def endpoint_def split: prod.splits option.splits protocol_binding.splits)

lemma write_each_permitted:
  assumes "\<forall>i \<in> set items. fst i \<notin> locked"
  shows "sends_only (permitted channels trusts locked creds) (write_each w items channels trusts creds)"
  using assms
proof (induction items)
  case Nil
  show ?case by simp
next
  case (Cons item items)
  let ?P = "permitted channels trusts locked creds"
  have one: "sends_only ?P (write_one w item channels trusts creds)"
    using Cons.prems by (intro write_one_permitted) simp
  have rest: "sends_only ?P (bind_act (write_each w items channels trusts creds) (\<lambda>l. lift_act (Ok (f l))))" for f
    using Cons by (intro sends_only_bind) auto
  show ?case
    unfolding sends_only_def act_keeps_def
  proof (intro allI impI)
    fix s assume ok: "sessions_ok s"
    obtain r t where wo: "write_one w item channels trusts creds s = (r, t)" by fastforce
    with one ok obtain l where t: "sessions_ok t" "sent t = sent s @ l" "\<forall>x \<in> set l. ?P x"
      by (fastforce simp: sends_only_def act_keeps_def dest: spec [of _ s])
    have "sessions_ok u \<and> (\<exists>l. sent u = sent t @ l \<and> (\<forall>x \<in> set l. ?P x))"
      if "sends_only ?P m" and "u = snd (m t)" for m :: "err list act" and u
      using that t(1) by (simp add: sends_only_def act_keeps_def)
    from this [OF Cons.IH refl] this [OF rest refl] t wo Cons.prems
    show "sessions_ok (snd (write_each w (item # items) channels trusts creds s)) \<and>
        (\<exists>l. sent (snd (write_each w (item # items) channels trusts creds s)) = sent s @ l \<and> (\<forall>x \<in> set l. ?P x))"
      by (cases r) (fastforce+)
  qed
qed

lemma dispatch_power_cap_permitted:
  "sends_only (permitted channels trusts locked creds) (dispatch_power_cap w b v channels trusts locked creds)"
  unfolding dispatch_power_cap_def write_caps_def
  by (intro sends_only_bind sends_only_lift write_each_permitted) auto

lemma execute_setpoint_permitted:
  assumes "d \<notin> locked" and "channel_lookup channels d key = Some binding"
  shows "sends_only (permitted channels trusts locked creds)
    (execute_setpoint w now binding v d key site channels trusts locked creds cache)"
proof -
  note permit = sends_only_permitted [OF _ assms]
  show ?thesis
    by (cases binding)
      (auto simp: execute_setpoint_def endpoint_def
        intro!: sends_only_bind dispatch_distribute_permitted dispatch_power_cap_permitted
        intro: permit [OF modbus_writer.wr_sends] permit [OF sunspec_writer.wr_sends]
          permit [OF redfish_writer.wr_sends] permit [OF write_bit_sends])
qed

section \<open>Commands\<close>

lemma sends_onlyD:
  assumes "sends_only P m" and "sessions_ok s" and "m s = (r, t)"
  shows "sessions_ok t \<and> (\<exists>l. sent t = sent s @ l \<and> (\<forall>x \<in> set l. P x))"
  using assms by (auto simp: sends_only_def act_keeps_def dest: spec [of _ s])

lemma publish_event_south [simp]:
  "g_south (snd (publish_event accepts topic i ph reason g)) = g_south g"
  "g_requested (snd (publish_event accepts topic i ph reason g)) = g_requested g"
  by (simp_all add: publish_event_def Let_def)

text \<open>
  The course of one command, as its ways out of \<^verbatim>\<open>handle_command\<close>: dropped, refused, or carried
  out. The last two only after the broker took the \<open>Received\<close> event.
\<close>

datatype course = Dropped | Unheard | Refused err | Executed protocol_binding command_topic command_frame

definition course_of :: "(dispatch_event \<Rightarrow> bool) \<Rightarrow> ('p \<Rightarrow> command_frame option) \<Rightarrow> string \<Rightarrow> devices \<Rightarrow> string \<Rightarrow> 'p \<Rightarrow> course" where
  "course_of accepts parse_frame site_id dv topic payload =
     (case parse_command_topic topic site_id of None \<Rightarrow> Dropped | Some cmd \<Rightarrow>
     (case map_of (dv_channels dv) (ct_device_id cmd) of None \<Rightarrow> Dropped | Some channels \<Rightarrow>
     (case parse_frame payload of None \<Rightarrow> Dropped | Some frame \<Rightarrow>
        if \<not> accepts \<lparr>ev_topic = event_topic site_id (ct_device_id cmd), ev_command_id = cf_command_id frame,
              ev_phase = Received, ev_reason = None\<rparr> then Unheard
        else if ct_device_id cmd \<in> dv_locked dv then Refused (E ''device is locked out'' [S (ct_device_id cmd)])
        else (case map_of channels (command_key (ct_verb cmd) (ct_target cmd)) of
            None \<Rightarrow> Refused (E ''unknown command for device'' [S (command_key (ct_verb cmd) (ct_target cmd)), S (ct_device_id cmd)])
          | Some binding \<Rightarrow> Executed binding cmd frame))))"

lemma handle_command_other:
  assumes "\<forall>b c f. course_of accepts parse_frame site dv topic payload \<noteq> Executed b c f"
  shows "g_south (snd (handle_command w now accepts parse_frame site dv creds cache topic payload g)) = g_south g"
    and "g_requested (snd (handle_command w now accepts parse_frame site dv creds cache topic payload g)) = g_requested g"
  using assms by (auto simp: handle_command_def course_of_def publish_event_def Let_def split: option.splits if_splits)

lemma course_Executed:
  assumes "course_of accepts parse_frame site dv topic payload = Executed b cmd f"
  shows "ct_device_id cmd \<notin> dv_locked dv"
    and "channel_lookup (dv_channels dv) (ct_device_id cmd) (command_key (ct_verb cmd) (ct_target cmd)) = Some b"
    and "parse_command_topic topic site = Some cmd"
  using assms by (auto simp: course_of_def channel_lookup_def split: option.splits if_splits)

lemma handle_command_executed:
  assumes "course_of accepts parse_frame site dv topic payload = Executed b cmd f"
    and "execute_setpoint w now b (cf_value f) (ct_device_id cmd) (command_key (ct_verb cmd) (ct_target cmd)) site
           (dv_channels dv) (dv_trust dv) (dv_locked dv) creds cache (g_south g) = (r, south')"
    and "record_request (g_requested g) (ct_device_id cmd) (command_key (ct_verb cmd) (ct_target cmd)) (cf_value f) = (prev, req)"
  shows "handle_command w now accepts parse_frame site dv creds cache topic payload g =
    (let ack = publish_event accepts (event_topic site (ct_device_id cmd)) (cf_command_id f);
         g1 = (snd (ack Received None g))\<lparr>g_requested := req, g_south := south'\<rparr>
     in case r of
          Ok _ \<Rightarrow> ack Done None g1
        | Err e \<Rightarrow> ack Failed (Some (outermost e)) (g1\<lparr>g_requested := restore_request req (ct_device_id cmd)
            (command_key (ct_verb cmd) (ct_target cmd)) (cf_value f) prev\<rparr>)
        | Abort a \<Rightarrow> (Abort a, g1))"
proof -
  from assms(1) obtain channels where
    "parse_command_topic topic site = Some cmd" "map_of (dv_channels dv) (ct_device_id cmd) = Some channels"
    "parse_frame payload = Some f" "ct_device_id cmd \<notin> dv_locked dv"
    "map_of channels (command_key (ct_verb cmd) (ct_target cmd)) = Some b"
    "accepts \<lparr>ev_topic = event_topic site (ct_device_id cmd), ev_command_id = cf_command_id f,
       ev_phase = Received, ev_reason = None\<rparr>"
    by (auto simp: course_of_def split: option.splits if_splits)
  with assms(2,3) show ?thesis
    by (cases r) (simp_all add: handle_command_def publish_event_def Let_def)
qed

lemma handle_command_south:
  assumes "course_of accepts parse_frame site dv topic payload = Executed b cmd f"
  shows "g_south (snd (handle_command w now accepts parse_frame site dv creds cache topic payload g)) =
    snd (execute_setpoint w now b (cf_value f) (ct_device_id cmd) (command_key (ct_verb cmd) (ct_target cmd)) site
      (dv_channels dv) (dv_trust dv) (dv_locked dv) creds cache (g_south g))"
proof -
  obtain r south' where ex: "execute_setpoint w now b (cf_value f) (ct_device_id cmd) (command_key (ct_verb cmd) (ct_target cmd)) site
      (dv_channels dv) (dv_trust dv) (dv_locked dv) creds cache (g_south g) = (r, south')" by fastforce
  obtain prev req where rq: "record_request (g_requested g) (ct_device_id cmd) (command_key (ct_verb cmd) (ct_target cmd)) (cf_value f) = (prev, req)"
    by fastforce
  show ?thesis
    unfolding handle_command_executed [OF assms ex rq] ex by (cases r) (simp_all add: Let_def)
qed

text \<open>
  The gateway never writes to a locked-out device: whatever a command asks and however its
  writes fare, every request it sends goes to the endpoint of a binding of some device that is
  not locked out, over the security that device's trust requires, a module's racks and a fleet's
  power limits included; a command to a locked-out device sends nothing.
\<close>

lemma handle_command_respects_lockout:
  assumes "sessions_ok (g_south g)"
    and "handle_command w now accepts parse_frame site dv creds cache topic payload g = (r, g')"
  shows "sessions_ok (g_south g') \<and>
    (\<exists>l. sent (g_south g') = sent (g_south g) @ l \<and>
      (\<forall>x \<in> set l. permitted (dv_channels dv) (dv_trust dv) (dv_locked dv) creds x) \<and>
      (\<forall>cmd. parse_command_topic topic site = Some cmd \<and> ct_device_id cmd \<in> dv_locked dv \<longrightarrow> l = []))"
proof (cases "\<exists>b cmd f. course_of accepts parse_frame site dv topic payload = Executed b cmd f")
  case True
  then obtain b cmd f where c: "course_of accepts parse_frame site dv topic payload = Executed b cmd f" by blast
  note south = handle_command_south [OF c, of w now creds cache g]
  from sends_onlyD [OF execute_setpoint_permitted [OF course_Executed(1,2) [OF c]] assms(1) surjective_pairing]
    south assms(2) course_Executed(1,3) [OF c] show ?thesis
    by fastforce
next
  case False
  with handle_command_other(1) [of accepts parse_frame site dv topic payload w now creds cache g] assms show ?thesis
    by fastforce
qed

lemma requested_of_record: "record_request r d k v = (prev, r') \<Longrightarrow>
    requested_of r' = (requested_of r)(d := (requested_of r d)(k \<mapsto> v)) \<and> prev = requested_of r d k"
  by (auto simp: record_request_def requested_of_def Let_def intro!: ext split: option.splits)

lemma requested_of_restore: "requested_of (restore_request r d k v prev) =
    (if requested_of r d k = Some v then (requested_of r)(d := (requested_of r d)(k := prev)) else requested_of r)"
  by (auto simp: restore_request_def requested_of_def fun_eq_iff split: option.splits)

lemma restore_undoes_record:
  assumes "record_request r d k v = (prev, r')"
  shows "requested_of (restore_request r' d k v prev) = requested_of r"
  using requested_of_record [OF assms] by (simp add: requested_of_restore fun_upd_idem)

definition ack_event :: "string \<Rightarrow> command_topic \<Rightarrow> command_frame \<Rightarrow> phase \<Rightarrow> err option \<Rightarrow> dispatch_event" where
  "ack_event site cmd f ph reason = \<lparr>ev_topic = event_topic site (ct_device_id cmd), ev_command_id = cf_command_id f,
     ev_phase = ph, ev_reason = reason\<rparr>"

lemma publish_event_accepted:
  "\<forall>ev. accepts ev \<Longrightarrow> publish_event accepts (event_topic site (ct_device_id cmd)) (cf_command_id f) ph reason g =
    (Ok (), g\<lparr>g_events := g_events g @ [ack_event site cmd f ph reason]\<rparr>)"
  by (simp add: publish_event_def ack_event_def Let_def)

text \<open>
  (C30) The lifecycle an operator sees is the one that happened. With the broker taking events, a
  command that reaches its binding is acknowledged as received and then, when its write succeeds,
  as done, its value being the device's requested setpoint from then on; when the write fails, as
  failed with the outermost reason, and every requested setpoint is what it was before. A panic
  leaves the command received and unanswered.
\<close>

theorem handle_command_acks:
  assumes "\<forall>ev. accepts ev"
    and "course_of accepts parse_frame site dv topic payload = Executed b cmd f"
    and "handle_command w now accepts parse_frame site dv creds cache topic payload g = (r, g')"
  defines "d \<equiv> ct_device_id cmd" and "k \<equiv> command_key (ct_verb cmd) (ct_target cmd)"
  shows "case fst (execute_setpoint w now b (cf_value f) d k site
        (dv_channels dv) (dv_trust dv) (dv_locked dv) creds cache (g_south g)) of
      Ok _ \<Rightarrow> r = Ok () \<and>
        g_events g' = g_events g @ [ack_event site cmd f Received None, ack_event site cmd f Done None] \<and>
        requested_of (g_requested g') = (requested_of (g_requested g))(d := (requested_of (g_requested g) d)(k \<mapsto> cf_value f))
    | Err e \<Rightarrow> r = Ok () \<and>
        g_events g' = g_events g @ [ack_event site cmd f Received None, ack_event site cmd f Failed (Some (outermost e))] \<and>
        requested_of (g_requested g') = requested_of (g_requested g)
    | Abort a \<Rightarrow> r = Abort a \<and> g_events g' = g_events g @ [ack_event site cmd f Received None]"
proof -
  obtain x south' where ex: "execute_setpoint w now b (cf_value f) d k site
      (dv_channels dv) (dv_trust dv) (dv_locked dv) creds cache (g_south g) = (x, south')" by fastforce
  obtain prev req where rq: "record_request (g_requested g) d k (cf_value f) = (prev, req)" by fastforce
  note hc = handle_command_executed [OF assms(2) ex [unfolded d_def k_def] rq [unfolded d_def k_def]]
  show ?thesis
    unfolding ex fst_conv
    using hc assms(3) requested_of_record [OF rq] restore_undoes_record [OF rq]
    by (cases x) (auto simp: Let_def publish_event_accepted [OF assms(1)] d_def k_def)
qed

text \<open>
  Undoing a request compares values, so it cannot tell a newer command from its own: when a newer
  command asks for the same value while the older one is still being written, the older one's
  failure takes the newer request with it, although that was acknowledged as done.
\<close>

theorem restore_undoes_newer_equal_command:
  assumes "record_request r d k v = (p1, r1)" and "record_request r1 d k v = (p2, r2)"
    and "requested_of r d k \<noteq> Some v"
  shows "requested_of r2 d k = Some v \<and> requested_of (restore_request r2 d k v p1) d k \<noteq> Some v"
  using requested_of_record [OF assms(1)] requested_of_record [OF assms(2)] assms(3)
  by (simp add: requested_of_restore)

text \<open>A newer command with another value is kept.\<close>

lemma restore_keeps_other_command:
  assumes "record_request r d k v = (p1, r1)" and "record_request r1 d k v' = (p2, r2)" and "v' \<noteq> v"
  shows "restore_request r2 d k v p1 = r2"
  using assms by (auto simp: record_request_def restore_request_def Let_def)

section \<open>Shares that land\<close>

definition child_write :: "device_channels \<Rightarrow> trust_map \<Rightarrow> gateway_credentials option \<Rightarrow> string \<Rightarrow> string \<times> f64 \<Rightarrow> south_write \<Rightarrow> bool" where
  "child_write channels trusts creds key share x \<longleftrightarrow> (\<exists>binding h p.
     channel_lookup channels (fst share) key = Some binding \<and> endpoint binding = Some (h, p) \<and>
     aimed_at (h, p, is_secure (trusts (fst share)) creds) x)"

lemma write_share_spec:
  assumes "sessions_ok s" and "write_share w d v key channels trusts creds s = (r, t)"
  shows "sessions_ok t \<and> (\<exists>l. sent t = sent s @ l \<and> length l \<le> 1 \<and> (r = Ok () \<longrightarrow> length l = 1) \<and>
    (\<forall>x \<in> set l. child_write channels trusts creds key (d, v) x))"
proof (cases "channel_lookup channels d key")
  case None
  with assms show ?thesis
    by (auto simp: write_share_def bind_act_def lift_act_def)
next
  case (Some binding)
  have spec: ?thesis
    if m: "sends_to (h, p, is_secure (trusts d) creds) m" and sentm: "\<And>t'. m s = (Ok (), t') \<Longrightarrow> sent t' \<noteq> sent s"
      and e: "endpoint binding = Some (h, p)" and eq: "ctx_act m msg as s = (r, t)" for h p m msg as
  proof -
    obtain r' where r': "m s = (r', t)" "r = Ok () \<longleftrightarrow> r' = Ok ()"
      using eq by (cases "m s") (auto simp: ctx_act_def)
    from sends_toD [OF m assms(1) r'(1)] obtain l where
      "sessions_ok t" "sent t = sent s @ l" "length l \<le> 1" "\<forall>x \<in> set l. aimed_at (h, p, is_secure (trusts d) creds) x"
      by blast
    moreover from this have "length l = 1" if "r = Ok ()"
      using sentm r' that by (cases l) auto
    ultimately show ?thesis
      using Some e by (auto simp: child_write_def)
  qed
  show ?thesis
  proof (cases binding)
    case (ModbusTcp b)
    with Some assms(2) show ?thesis
      by (intro spec [OF modbus_writer.wr_sends modbus_writer.wr_done])
        (auto simp: write_share_def bind_act_def lift_act_def endpoint_def)
  next
    case (Sunspec b)
    with Some assms(2) show ?thesis
      by (intro spec [OF sunspec_writer.wr_sends sunspec_writer.wr_done])
        (auto simp: write_share_def bind_act_def lift_act_def endpoint_def)
  qed (use Some assms in \<open>auto simp: write_share_def bind_act_def lift_act_def ctx_act_def\<close>)
qed

lemma write_shares_lands:
  assumes "sessions_ok s" and "write_shares w shares key channels trusts creds s = (r, t)"
  shows "sessions_ok t \<and> (\<exists>l. sent t = sent s @ l \<and> length l \<le> length shares \<and> (r = Ok () \<longrightarrow> length l = length shares) \<and>
    list_all2 (child_write channels trusts creds key) (take (length l) shares) l)"
  using assms
proof (induction shares arbitrary: s)
  case Nil
  then show ?case by (auto simp: lift_act_def)
next
  case (Cons share shares)
  obtain d v where [simp]: "share = (d, v)" by (cases share)
  obtain r1 t1 where first: "write_share w d v key channels trusts creds s = (r1, t1)" by fastforce
  from write_share_spec [OF Cons.prems(1) first] obtain l1 where l1: "sessions_ok t1" "sent t1 = sent s @ l1"
    "length l1 \<le> 1" "r1 = Ok () \<longrightarrow> length l1 = 1" "\<forall>x \<in> set l1. child_write channels trusts creds key (d, v) x"
    by blast
  show ?case
  proof (cases "r1 = Ok ()")
    case True
    with l1 obtain x where x: "l1 = [x]" by (cases l1) auto
    have "write_shares w shares key channels trusts creds t1 = (r, t)"
      using Cons.prems(2) first True by (simp add: bind_act_def)
    from Cons.IH [OF l1(1) this] obtain l where "sessions_ok t" "sent t = sent t1 @ l" "length l \<le> length shares"
      "r = Ok () \<longrightarrow> length l = length shares" "list_all2 (child_write channels trusts creds key) (take (length l) shares) l"
      by blast
    with l1 x show ?thesis by (intro conjI exI [of _ "x # l"]) auto
  next
    case False
    with Cons.prems(2) first have "t = t1" "r \<noteq> Ok ()"
      by (cases r1; auto simp: bind_act_def)+
    with l1 show ?thesis
      by (cases l1) (auto intro!: exI [of _ l1])
  qed
qed

text \<open>
  Writing the shares stops at the first failure: the requests that were sent go, one each
  and in order, to a prefix of the children, over each child's own binding, and success means
  that every child of the list was sent its request.
\<close>

lemma write_shares_prefix:
  assumes "sessions_ok s" and "write_shares w shares key channels trusts creds s = (r, t)"
  shows "\<exists>l. sent t = sent s @ l \<and> length l \<le> length shares \<and> (r = Ok () \<longrightarrow> length l = length shares) \<and>
    list_all2 (child_write channels trusts creds key) (take (length l) shares) l"
  using write_shares_lands [OF assms] by blast

definition ex_devices :: devices where
  "ex_devices = \<lparr>dv_channels = [(''r1'', [(''set_active_power'', ModbusTcp ex_binding)]),
       (''r2'', [(''set_active_power'', ModbusTcp ex_binding)])],
     dv_trust = Map.empty, dv_locked = {''r2''}\<rparr>"

definition ex_gateway :: gateway where
  "ex_gateway = \<lparr>g_south = south_init, g_requested = Map.empty, g_events = []\<rparr>"

definition ex_frame :: command_frame where
  "ex_frame = \<lparr>cf_ts = ''t'', cf_value = 130, cf_command_id = ''id''\<rparr>"

lemma ex_topic:
  "parse_command_topic ''sites/s/devices/r2/commands/set/active_power/watts'' ''s'' =
     Some \<lparr>ct_device_id = ''r2'', ct_verb = ''set'', ct_target = ''active_power''\<rparr>"
  "parse_command_topic ''sites/s/devices/r1/commands/set/active_power/watts'' ''s'' =
     Some \<lparr>ct_device_id = ''r1'', ct_verb = ''set'', ct_target = ''active_power''\<rparr>"
  by (simp_all add: parse_command_topic_def)

theorem handle_command_acks_witness:
  "g_events (snd (handle_command (ex_world 13) 0 (\<lambda>_. True) (\<lambda>_. Some ex_frame) ''s'' ex_devices None Map.empty
      ''sites/s/devices/r1/commands/set/active_power/watts'' () ex_gateway)) =
   [ack_event ''s'' \<lparr>ct_device_id = ''r1'', ct_verb = ''set'', ct_target = ''active_power''\<rparr> ex_frame Received None,
    ack_event ''s'' \<lparr>ct_device_id = ''r1'', ct_verb = ''set'', ct_target = ''active_power''\<rparr> ex_frame Done None]"
proof -
  let ?cmd = "\<lparr>ct_device_id = ''r1'', ct_verb = ''set'', ct_target = ''active_power''\<rparr>"
  have c: "course_of (\<lambda>_. True) (\<lambda>_. Some ex_frame) ''s'' ex_devices
      ''sites/s/devices/r1/commands/set/active_power/watts'' () = Executed (ModbusTcp ex_binding) ?cmd ex_frame"
    by (simp add: course_of_def ex_topic ex_devices_def command_key_def)
  have ex: "fst (execute_setpoint (ex_world 13) 0 (ModbusTcp ex_binding) (cf_value ex_frame) ''r1'' k ''s''
      (dv_channels ex_devices) (dv_trust ex_devices) (dv_locked ex_devices) None Map.empty (g_south ex_gateway)) = Ok ()" for k
    by (simp add: execute_setpoint_def ex_frame_def ex_devices_def ex_gateway_def ex_write)
  have "\<forall>ev :: dispatch_event. True" by simp
  from handle_command_acks [OF this c surjective_pairing, of "ex_world 13" 0 None Map.empty ex_gateway] ex show ?thesis
    by (simp add: ex_gateway_def)
qed

section \<open>Power caps\<close>

lemma rust_round_le_int: "y \<le> of_int m \<Longrightarrow> rust_round y \<le> m"
  using rust_round_bounds [of y] by linarith

text \<open>
  A fleet percentage becomes a cap on each child: computing it panics exactly when the
  child's range is empty; otherwise it is a whole number of watts, at least the asked share of
  the child's maximum held inside its range (to half a microwatt) and less than one watt above
  it; and a child whose maximum is a whole number is never capped above that maximum.
\<close>

lemma child_cap_watts_bounds:
  shows "(child_cap_watts c percent = Abort Panicked \<longleftrightarrow> cc_max_w c < cc_min_w c) \<and>
    (cc_min_w c \<le> cc_max_w c \<longrightarrow> (\<exists>w. child_cap_watts c percent = Ok (of_int w) \<and>
      (let exact = max (cc_min_w c) (min (cc_max_w c) (cc_max_w c * percent / 100)) in
       exact - 1 / 2000000 \<le> of_int w \<and> of_int w < exact + 1 + 1 / 2000000) \<and>
      (\<forall>m. cc_max_w c = of_int m \<longrightarrow> w \<le> m)))"
proof -
  define exact where "exact = max (cc_min_w c) (min (cc_max_w c) (cc_max_w c * percent / 100))"
  define w where "w = \<lceil>of_int (rust_round (exact * 1000000)) / 1000000 :: f64\<rceil>"
  have near: "\<bar>of_int (rust_round (exact * 1000000)) - exact * 1000000\<bar> \<le> 1 / 2"
    by (rule rust_round_bounds)
  have ceil: "of_int (rust_round (exact * 1000000)) / 1000000 \<le> (of_int w :: f64)"
    "of_int w < of_int (rust_round (exact * 1000000)) / 1000000 + (1 :: f64)"
    unfolding w_def by linarith+
  have bounds: "exact - 1 / 2000000 \<le> of_int w" "of_int w < exact + 1 + 1 / 2000000"
    using near ceil by linarith+
  have "w \<le> m" if "cc_max_w c = of_int m" "cc_min_w c \<le> cc_max_w c" for m
  proof -
    have "exact * 1000000 \<le> of_int (m * 1000000)"
      using that by (simp add: exact_def)
    then have "rust_round (exact * 1000000) \<le> m * 1000000"
      by (rule rust_round_le_int)
    then have "of_int (rust_round (exact * 1000000)) / 1000000 \<le> (of_int m :: f64)"
      by linarith
    then show ?thesis by (simp add: w_def ceiling_le_iff)
  qed
  moreover have "child_cap_watts c percent = Ok (of_int w)" if "cc_min_w c \<le> cc_max_w c"
    using that by (simp add: child_cap_watts_def clamp_Ok_iff exact_def w_def) 
  moreover have "child_cap_watts c percent = Abort Panicked \<longleftrightarrow> cc_max_w c < cc_min_w c"
    by (auto simp: child_cap_watts_def clamp_def not_le)
  ultimately show ?thesis
    using bounds unfolding exact_def [symmetric] by (auto simp: Let_def)
qed

text \<open>
  The rounding up to whole watts comes after the clamp, so a child whose maximum is not a whole
  number is capped above it.
\<close>

theorem child_cap_above_max:
  "child_cap_watts \<lparr>cc_device_id = ''g'', cc_target = ''power_limit'', cc_min_w = 200, cc_max_w = 699.5\<rparr> 100 = Ok 700"
proof -
  have "rust_round 699500000 = 699500000"
    using rust_round_of_int [of 699500000] by simp
  moreover have "\<lceil>1399 / 2 :: real\<rceil> = 700" by (simp add: ceiling_eq_iff)
  ultimately show ?thesis
    by (simp add: child_cap_watts_def clamp_def)
qed

end
