(* ===== verification/Envelope_Control.thy ===== *)
theory Envelope_Control
  imports Distribution
begin

text \<open>
  The envelope's control law: the point-of-interconnection servo (\<^verbatim>\<open>envelope/poi_servo.rs\<close>),
  the bounds of a tick (\<^verbatim>\<open>envelope/bounds.rs\<close>), the controller
  (\<^verbatim>\<open>envelope/control_law.rs\<close>), its anti-windup (\<^verbatim>\<open>envelope/anti_windup.rs\<close>) and the ramp to
  zero on a quiet meter (\<^verbatim>\<open>envelope/stale.rs\<close>). Bounds and headrooms are extended floats, as a
  missing limit is an infinity; the output is finite, and leaving the finite numbers would be an
  abort, as would the panics of \<^verbatim>\<open>clamp\<close> and \<^verbatim>\<open>unreachable!\<close>.
\<close>

section \<open>Inputs\<close>

record envelope_tick =
  et_import_limit :: "f64 option"
  et_export_limit :: "f64 option"
  et_active_power :: f64
  et_requested_setpoint :: f64
  et_poi_active_power :: "f64 option"
  et_poi_fresh :: bool
  et_hold_approach :: bool
  et_power_min :: f64
  et_power_max :: f64
  et_dt :: duration

record bounds =
  b_ceiling :: f64x
  b_floor :: f64x
  b_headroom_export :: f64x
  b_headroom_import :: f64x
  b_jumped :: bool

section \<open>The servo\<close>

definition APPROACH_GAIN_PER_SEC :: f64 where
  "APPROACH_GAIN_PER_SEC = 1 / 10"

definition VIOLATION_GAIN_PER_SEC :: f64 where
  "VIOLATION_GAIN_PER_SEC = 3 / 10"

record limit =
  l_now :: "f64 option"
  l_prev :: "f64 option"

definition poi_headroom :: "f64 \<Rightarrow> f64 option \<Rightarrow> f64x" where
  "poi_headroom signed_poi lm = (case lm of None \<Rightarrow> PosInf | Some l \<Rightarrow> Fin (signed_poi + l))"

definition jump :: "f64 \<Rightarrow> limit \<Rightarrow> f64x \<Rightarrow> f64x" where
  "jump signed_poi lm hr =
     (let before = (case l_prev lm of None \<Rightarrow> PosInf | Some p \<Rightarrow> Fin (signed_poi + p)) in
      max_f64x (min_f64x before (Fin 0) - min_f64x hr (Fin 0)) (Fin 0))"

definition servo_step :: "f64 \<Rightarrow> limit \<Rightarrow> f64x \<Rightarrow> f64x \<Rightarrow> duration \<Rightarrow> f64x" where
  "servo_step signed_poi lm hr opposite dt =
     (if l_now lm = None then PosInf
      else
        let j = jump signed_poi lm hr;
            measured = hr + j;
            rate = (if Fin 0 \<le> measured then Fin APPROACH_GAIN_PER_SEC * measured
                    else
                      let excess = - measured in
                      - max_f64x (min_f64x (Fin VIOLATION_GAIN_PER_SEC * excess) (Fin APPROACH_GAIN_PER_SEC * opposite))
                          (Fin APPROACH_GAIN_PER_SEC * excess))
        in rate * Fin (as_secs_f64 dt) - j)"

definition poi_bounds :: "f64 \<Rightarrow> f64 \<Rightarrow> limit \<Rightarrow> limit \<Rightarrow> duration \<Rightarrow> bounds" where
  "poi_bounds u p_poi import_lim export_lim dt =
     (let headroom_export = poi_headroom p_poi (l_now export_lim);
          headroom_import = poi_headroom (- p_poi) (l_now import_lim);
          up = servo_step p_poi export_lim headroom_export headroom_import dt;
          down = servo_step (- p_poi) import_lim headroom_import headroom_export dt;
          export_jumped = (Fin 0 < jump p_poi export_lim headroom_export);
          import_jumped = (Fin 0 < jump (- p_poi) import_lim headroom_import);
          ceil = Fin u + up;
          flr = Fin u - down;
          (ceil, flr) =
            (if ceil < flr then (if import_jumped \<and> \<not> export_jumped then (flr, flr) else (ceil, ceil))
             else (ceil, flr))
      in \<lparr>b_ceiling = ceil, b_floor = flr, b_headroom_export = headroom_export,
          b_headroom_import = headroom_import, b_jumped = (export_jumped \<or> import_jumped)\<rparr>)"

section \<open>Bounds of a tick\<close>

definition hold_bounds :: "f64 \<Rightarrow> bounds \<Rightarrow> bounds" where
  "hold_bounds u b =
     (let b = (if u \<ge> 0 then b\<lparr>b_ceiling := min_f64x (b_ceiling b) (Fin u)\<rparr>
               else b\<lparr>b_floor := max_f64x (b_floor b) (Fin u)\<rparr>)
      in b\<lparr>b_floor := min_f64x (b_floor b) (b_ceiling b)\<rparr>)"

definition for_tick :: "f64 \<Rightarrow> f64 option \<times> f64 option \<Rightarrow> envelope_tick \<Rightarrow> bounds" where
  "for_tick u prev_limits t = (case et_poi_active_power t of
     Some p_poi \<Rightarrow>
       let dt = (if et_poi_fresh t then et_dt t else 0);
           b = poi_bounds u p_poi \<lparr>l_now = et_import_limit t, l_prev = fst prev_limits\<rparr>
                 \<lparr>l_now = et_export_limit t, l_prev = snd prev_limits\<rparr> dt
       in if et_hold_approach t then hold_bounds u b else b
   | None \<Rightarrow>
       let ceil = (case et_export_limit t of None \<Rightarrow> PosInf | Some e \<Rightarrow> Fin e);
           flr = (case et_import_limit t of None \<Rightarrow> NegInf | Some i \<Rightarrow> Fin (- i))
       in \<lparr>b_ceiling = ceil, b_floor = flr, b_headroom_export = ceil - Fin (et_active_power t),
           b_headroom_import = Fin (et_active_power t) - flr, b_jumped = False\<rparr>)"

section \<open>The controller\<close>

definition JUMP_HOLD_READINGS :: nat where
  "JUMP_HOLD_READINGS = 3"

datatype mode = Normal | Constrained | Ramping

record controller =
  c_mode :: mode
  dwell_elapsed :: duration
  current_output :: f64
  c_config :: envelope_config
  prev_limits :: "f64 option \<times> f64 option"
  jump_hold :: nat

definition controller_new :: "envelope_config \<Rightarrow> f64 \<Rightarrow> controller" where
  "controller_new config initial_output = \<lparr>c_mode = Normal, dwell_elapsed = 0, current_output = initial_output,
     c_config = config, prev_limits = (None, None), jump_hold = 0\<rparr>"

definition ctrl_write :: "f64 \<Rightarrow> controller \<Rightarrow> f64 option \<times> controller" where
  "ctrl_write value c =
     (if \<bar>value - current_output c\<bar> < EPSILON then (None, c)
      else (Some value, c\<lparr>current_output := value\<rparr>))"

text \<open>The last part of \<^verbatim>\<open>tick\<close>: the match on the mode, once no limit is violated.\<close>

definition ramp_target :: "envelope_tick \<Rightarrow> f64 \<Rightarrow> f64 \<Rightarrow> controller \<Rightarrow> (f64 option \<times> controller) outcome" where
  "ramp_target input flr ceil c =
     bind_outcome (clamp (et_requested_setpoint input) flr ceil) (\<lambda>target.
     let delta = target - current_output c;
         rated = (if delta \<ge> 0 then et_power_max input else \<bar>et_power_min input\<bar>);
         max_step = ec_ramp_rate_per_sec (c_config c) * rated * as_secs_f64 (et_dt input)
     in Ok (if \<bar>delta\<bar> \<le> max_step then ctrl_write target (c\<lparr>c_mode := Normal\<rparr>)
            else ctrl_write (current_output c + max_step * signum delta) c))"

definition settle :: "envelope_tick \<Rightarrow> f64 \<Rightarrow> f64 \<Rightarrow> controller \<Rightarrow> (f64 option \<times> controller) outcome" where
  "settle input flr ceil c = (case c_mode c of
     Normal \<Rightarrow> bind_outcome (clamp (et_requested_setpoint input) flr ceil) (\<lambda>v. Ok (ctrl_write v c))
   | Ramping \<Rightarrow> ramp_target input flr ceil c
   | Constrained \<Rightarrow> Abort Panicked)"

text \<open>The middle part: the dwell while constrained.\<close>

definition recovery :: "envelope_tick \<Rightarrow> f64 \<Rightarrow> f64 \<Rightarrow> f64x \<Rightarrow> f64x \<Rightarrow> controller \<Rightarrow> controller outcome" where
  "recovery input flr ceil headroom_export headroom_import c =
     bind_outcome (clamp (et_requested_setpoint input) flr ceil) (\<lambda>target.
     let margin_export = ec_hysteresis_margin (c_config c) * et_power_max input;
         margin_import = ec_hysteresis_margin (c_config c) * \<bar>et_power_min input\<bar>;
         clear = (if target < current_output c then Fin margin_import \<le> headroom_import
                  else Fin margin_export \<le> headroom_export)
     in Ok (if clear then
              let d = dwell_elapsed c + et_dt input in
              c\<lparr>dwell_elapsed := d, c_mode := (if d \<ge> ec_hysteresis_dwell (c_config c) then Ramping else c_mode c)\<rparr>
            else c\<lparr>dwell_elapsed := 0\<rparr>))"

definition hold_reading :: "controller \<Rightarrow> envelope_tick \<Rightarrow> controller \<times> envelope_tick" where
  "hold_reading c input =
     (if jump_hold c > 0 \<and> et_poi_fresh input
      then (c\<lparr>jump_hold := jump_hold c - 1\<rparr>, input\<lparr>et_poi_fresh := False\<rparr>) else (c, input))"

definition tick :: "controller \<Rightarrow> envelope_tick \<Rightarrow> (f64 option \<times> controller) outcome" where
  "tick c input =
     (let (c, held) = hold_reading c input;
          b = for_tick (current_output c) (prev_limits c) held;
          c = (if b_jumped b then c\<lparr>jump_hold := JUMP_HOLD_READINGS\<rparr> else c)
      in
      bind_outcome (to_finite (min_f64x (b_ceiling b) (Fin (et_power_max input)))) (\<lambda>ceil.
      bind_outcome (to_finite (min_f64x (max_f64x (b_floor b) (Fin (et_power_min input))) (Fin ceil))) (\<lambda>flr.
      let c = c\<lparr>prev_limits := (et_import_limit input, et_export_limit input)\<rparr> in
      if b_headroom_export b \<le> Fin 0 \<or> b_headroom_import b \<le> Fin 0 then
        bind_outcome (clamp (et_requested_setpoint input) flr ceil) (\<lambda>v.
          Ok (ctrl_write v (c\<lparr>c_mode := Constrained, dwell_elapsed := 0\<rparr>)))
      else if c_mode c = Constrained then
        bind_outcome (recovery input flr ceil (b_headroom_export b) (b_headroom_import b) c) (\<lambda>c.
          if c_mode c = Constrained then Ok (None, c) else settle input flr ceil c)
      else settle input flr ceil c)))"

text \<open>\<^verbatim>\<open>anti_windup.rs\<close> and \<^verbatim>\<open>stale.rs\<close>.\<close>

definition sync_to_delivered :: "f64 \<Rightarrow> controller \<Rightarrow> controller" where
  "sync_to_delivered delivered c = c\<lparr>current_output := delivered\<rparr>"

definition ramp_to_zero :: "controller \<Rightarrow> envelope_guard \<Rightarrow> duration \<Rightarrow> f64 \<times> controller" where
  "ramp_to_zero c guard dt =
     (let u = current_output c;
          rated = (if u > 0 then eg_power_max guard else \<bar>eg_power_min guard\<bar>);
          step = ec_ramp_rate_per_sec (eg_control guard) * rated * as_secs_f64 dt;
          v = (if \<bar>u\<bar> \<le> step then 0 else u - step * signum u)
      in (v, c\<lparr>current_output := v\<rparr>))"

section \<open>The bounds are in range\<close>

definition fin_or_pos :: "f64x \<Rightarrow> bool" where
  "fin_or_pos x \<longleftrightarrow> (\<exists>a. x = Fin a) \<or> x = PosInf"

definition fin_or_neg :: "f64x \<Rightarrow> bool" where
  "fin_or_neg x \<longleftrightarrow> (\<exists>a. x = Fin a) \<or> x = NegInf"

lemma fin_or_Fin [simp]: "fin_or_pos (Fin a)" "fin_or_neg (Fin a)" "fin_or_pos PosInf" "fin_or_neg NegInf"
  by (simp_all add: fin_or_pos_def fin_or_neg_def)

lemma fin_or_pos_poi_headroom [simp]: "fin_or_pos (poi_headroom p l)"
  by (simp add: poi_headroom_def split: option.split)

text \<open>The jump as a number, and the step as a number for a limit that is there.\<close>

definition jump_w :: "f64 \<Rightarrow> limit \<Rightarrow> f64" where
  "jump_w p lm = (case l_now lm of
     None \<Rightarrow> 0
   | Some l \<Rightarrow> max 0 ((case l_prev lm of None \<Rightarrow> 0 | Some l' \<Rightarrow> min 0 (p + l')) - min 0 (p + l)))"

lemma jump_Fin: "jump p lm (poi_headroom p (l_now lm)) = Fin (jump_w p lm)"
  by (cases "l_prev lm"; cases "l_now lm") (simp_all add: jump_def jump_w_def poi_headroom_def Let_def max.commute min.commute)

lemma jump_w_nonneg [simp]: "0 \<le> jump_w p lm"
  by (simp add: jump_w_def split: option.split)

definition servo_w :: "f64 \<Rightarrow> f64 \<Rightarrow> f64x \<Rightarrow> f64 \<Rightarrow> f64" where
  "servo_w hr j opposite dt =
     (let measured = hr + j in
      (if measured \<ge> 0 then measured / 10
       else (case opposite of
               Fin opp \<Rightarrow> - max (min (3 / 10 * - measured) (opp / 10)) (- measured / 10)
             | _ \<Rightarrow> 3 / 10 * measured)) * dt - j)"

lemma servo_step_Fin:
  assumes "l_now lm = Some l" and "fin_or_pos opposite"
  shows "servo_step p lm (poi_headroom p (l_now lm)) opposite dt = Fin (servo_w (p + l) (jump_w p lm) opposite (as_secs_f64 dt))"
proof -
  have hr: "poi_headroom p (l_now lm) = Fin (p + l)"
    using assms(1) by (simp add: poi_headroom_def)
  have j: "jump p lm (Fin (p + l)) = Fin (jump_w p lm)"
    using jump_Fin [of p lm] hr by simp
  from assms(2) show ?thesis
    unfolding fin_or_pos_def servo_step_def hr j Let_def
    by (auto simp: assms(1) servo_w_def APPROACH_GAIN_PER_SEC_def VIOLATION_GAIN_PER_SEC_def inf_of_sign_def
        max_def min_def Let_def) (simp_all add: algebra_simps)
qed

lemma servo_step_fin_or_pos:
  assumes "fin_or_pos opposite"
  shows "fin_or_pos (servo_step p lm (poi_headroom p (l_now lm)) opposite dt)"
proof (cases "l_now lm")
  case None
  then show ?thesis by (simp add: servo_step_def)
next
  case (Some l)
  show ?thesis by (simp add: servo_step_Fin [OF Some assms] del: fin_or_pos_poi_headroom)
qed

lemma fin_or_add: "fin_or_pos x \<Longrightarrow> fin_or_pos (Fin u + x)" "fin_or_pos x \<Longrightarrow> fin_or_neg (Fin u - x)"
  by (auto simp: fin_or_pos_def fin_or_neg_def)

lemma poi_bounds_shape:
  fixes u p imp ex dt
  defines "b \<equiv> poi_bounds u p imp ex dt"
  shows "fin_or_pos (b_ceiling b)" and "fin_or_neg (b_floor b)"
    and "b_headroom_export b = poi_headroom p (l_now ex)" and "b_headroom_import b = poi_headroom (- p) (l_now imp)"
proof -
  let ?up = "servo_step p ex (poi_headroom p (l_now ex)) (poi_headroom (- p) (l_now imp)) dt"
  let ?down = "servo_step (- p) imp (poi_headroom (- p) (l_now imp)) (poi_headroom p (l_now ex)) dt"
  have 1: "fin_or_pos (Fin u + ?up)" and 2: "fin_or_neg (Fin u - ?down)"
    by (auto intro!: fin_or_add servo_step_fin_or_pos)
  have 3: "fin_or_pos (Fin u - ?down)" "fin_or_neg (Fin u + ?up)" if "Fin u + ?up < Fin u - ?down"
    using 1 2 that by (auto simp: fin_or_pos_def fin_or_neg_def)
  show "fin_or_pos (b_ceiling b)" "fin_or_neg (b_floor b)"
    using 1 2 3 by (auto simp: b_def poi_bounds_def Let_def)
  show "b_headroom_export b = poi_headroom p (l_now ex)" "b_headroom_import b = poi_headroom (- p) (l_now imp)"
    by (auto simp: b_def poi_bounds_def Let_def)
qed

lemma for_tick_shape:
  fixes u pl t
  defines "b \<equiv> for_tick u pl t"
  shows "fin_or_pos (b_ceiling b)" and "fin_or_neg (b_floor b)"
    and "fin_or_pos (b_headroom_export b)" and "fin_or_pos (b_headroom_import b)"
proof -
  have hold: "fin_or_pos (b_ceiling (hold_bounds u b')) \<and> fin_or_neg (b_floor (hold_bounds u b')) \<and>
      b_headroom_export (hold_bounds u b') = b_headroom_export b' \<and> b_headroom_import (hold_bounds u b') = b_headroom_import b'"
    if "fin_or_pos (b_ceiling b')" "fin_or_neg (b_floor b')" for b'
    using that by (auto simp: hold_bounds_def Let_def fin_or_pos_def fin_or_neg_def)
  show "fin_or_pos (b_ceiling b)" "fin_or_neg (b_floor b)" "fin_or_pos (b_headroom_export b)" "fin_or_pos (b_headroom_import b)"
    using hold by (cases "et_poi_active_power t";
      auto simp: b_def for_tick_def Let_def poi_bounds_shape split: option.split)+
qed

section \<open>A tick\<close>

text \<open>What a tick works with: the bounds cut to the module's rating, as numbers.\<close>

definition tick_bounds :: "controller \<Rightarrow> envelope_tick \<Rightarrow> bounds" where
  "tick_bounds c input = for_tick (current_output c) (prev_limits c) (snd (hold_reading c input))"

definition tick_ceil :: "controller \<Rightarrow> envelope_tick \<Rightarrow> f64" where
  "tick_ceil c input = (case b_ceiling (tick_bounds c input) of
     Fin a \<Rightarrow> min a (et_power_max input) | _ \<Rightarrow> et_power_max input)"

definition tick_floor :: "controller \<Rightarrow> envelope_tick \<Rightarrow> f64" where
  "tick_floor c input = min (tick_ceil c input) (case b_floor (tick_bounds c input) of
     Fin a \<Rightarrow> max a (et_power_min input) | _ \<Rightarrow> et_power_min input)"

definition violated :: "controller \<Rightarrow> envelope_tick \<Rightarrow> bool" where
  "violated c input \<longleftrightarrow> b_headroom_export (tick_bounds c input) \<le> Fin 0 \<or> b_headroom_import (tick_bounds c input) \<le> Fin 0"

definition tick_target :: "controller \<Rightarrow> envelope_tick \<Rightarrow> f64" where
  "tick_target c input = max (tick_floor c input) (min (tick_ceil c input) (et_requested_setpoint input))"

lemma tick_floor_le_ceil [simp]: "tick_floor c input \<le> tick_ceil c input"
  by (simp add: tick_floor_def)

text \<open>The state after the bookkeeping of the hold and the limits.\<close>

definition tick_start :: "controller \<Rightarrow> envelope_tick \<Rightarrow> controller" where
  "tick_start c input =
     (let c' = fst (hold_reading c input);
          c' = (if b_jumped (tick_bounds c input) then c'\<lparr>jump_hold := JUMP_HOLD_READINGS\<rparr> else c')
      in c'\<lparr>prev_limits := (et_import_limit input, et_export_limit input)\<rparr>)"

lemma hold_reading_keeps [simp]:
  "current_output (fst (hold_reading c input)) = current_output c"
  "c_mode (fst (hold_reading c input)) = c_mode c"
  "dwell_elapsed (fst (hold_reading c input)) = dwell_elapsed c"
  "c_config (fst (hold_reading c input)) = c_config c"
  "prev_limits (fst (hold_reading c input)) = prev_limits c"
  by (simp_all add: hold_reading_def)

lemma tick_start_keeps [simp]:
  "current_output (tick_start c input) = current_output c"
  "c_mode (tick_start c input) = c_mode c"
  "dwell_elapsed (tick_start c input) = dwell_elapsed c"
  "c_config (tick_start c input) = c_config c"
  by (simp_all add: tick_start_def Let_def)

lemma clamp_target: "clamp (et_requested_setpoint input) (tick_floor c input) (tick_ceil c input) = Ok (tick_target c input)"
  by (simp add: clamp_Ok_iff tick_target_def)

lemma tick_eq:
  "tick c input =
     (let c1 = tick_start c input; b = tick_bounds c input;
          flr = tick_floor c input; ceil = tick_ceil c input in
      if violated c input then Ok (ctrl_write (tick_target c input) (c1\<lparr>c_mode := Constrained, dwell_elapsed := 0\<rparr>))
      else if c_mode c = Constrained then
        bind_outcome (recovery input flr ceil (b_headroom_export b) (b_headroom_import b) c1) (\<lambda>c2.
          if c_mode c2 = Constrained then Ok (None, c2) else settle input flr ceil c2)
      else settle input flr ceil c1)"
proof -
  have b: "for_tick (current_output (fst (hold_reading c input))) (prev_limits (fst (hold_reading c input)))
      (snd (hold_reading c input)) = tick_bounds c input"
    by (simp add: tick_bounds_def)
  have 1: "to_finite (min_f64x (b_ceiling (tick_bounds c input)) (Fin (et_power_max input))) = Ok (tick_ceil c input)"
    using for_tick_shape(1) [of "current_output c" "prev_limits c" "snd (hold_reading c input)"]
    by (auto simp: tick_bounds_def tick_ceil_def fin_or_pos_def)
  have 2: "to_finite (min_f64x (max_f64x (b_floor (tick_bounds c input)) (Fin (et_power_min input))) (Fin (tick_ceil c input))) =
      Ok (tick_floor c input)"
    using for_tick_shape(2) [of "current_output c" "prev_limits c" "snd (hold_reading c input)"]
    by (auto simp: tick_bounds_def tick_floor_def fin_or_neg_def min.commute)
  show ?thesis
    unfolding tick_def Let_def split_beta b 1 2 bind_outcome.simps
    by (simp add: clamp_target violated_def tick_start_def Let_def)
qed

definition clear :: "controller \<Rightarrow> envelope_tick \<Rightarrow> bool" where
  "clear c input \<longleftrightarrow>
     (if tick_target c input < current_output c
      then Fin (ec_hysteresis_margin (c_config c) * \<bar>et_power_min input\<bar>) \<le> b_headroom_import (tick_bounds c input)
      else Fin (ec_hysteresis_margin (c_config c) * et_power_max input) \<le> b_headroom_export (tick_bounds c input))"

definition max_step :: "controller \<Rightarrow> envelope_tick \<Rightarrow> f64" where
  "max_step c input = ec_ramp_rate_per_sec (c_config c)
     * (if tick_target c input \<ge> current_output c then et_power_max input else \<bar>et_power_min input\<bar>)
     * as_secs_f64 (et_dt input)"

text \<open>One step of the ramp from a controller that differs from \<open>c\<close> in its bookkeeping only.\<close>

definition ramp_step :: "controller \<Rightarrow> envelope_tick \<Rightarrow> controller \<Rightarrow> f64 option \<times> controller" where
  "ramp_step c input c1 =
     (let delta = tick_target c input - current_output c in
      if \<bar>delta\<bar> \<le> max_step c input then ctrl_write (tick_target c input) (c1\<lparr>c_mode := Normal\<rparr>)
      else ctrl_write (current_output c + max_step c input * signum delta) c1)"

lemma ramp_target_step:
  assumes "current_output c1 = current_output c" and "c_config c1 = c_config c"
  shows "ramp_target input (tick_floor c input) (tick_ceil c input) c1 = Ok (ramp_step c input c1)"
  by (simp add: ramp_target_def clamp_target ramp_step_def max_step_def assms Let_def)

text \<open>What a tick comes to in each mode; it never aborts.\<close>

definition tick_next :: "controller \<Rightarrow> envelope_tick \<Rightarrow> f64 option \<times> controller" where
  "tick_next c input =
     (let c1 = tick_start c input; d = dwell_elapsed c + et_dt input in
      if violated c input then ctrl_write (tick_target c input) (c1\<lparr>c_mode := Constrained, dwell_elapsed := 0\<rparr>)
      else (case c_mode c of
          Normal \<Rightarrow> ctrl_write (tick_target c input) c1
        | Ramping \<Rightarrow> ramp_step c input c1
        | Constrained \<Rightarrow>
            if \<not> clear c input then (None, c1\<lparr>dwell_elapsed := 0\<rparr>)
            else if d < ec_hysteresis_dwell (c_config c) then (None, c1\<lparr>dwell_elapsed := d\<rparr>)
            else ramp_step c input (c1\<lparr>dwell_elapsed := d, c_mode := Ramping\<rparr>)))"

lemma tick_result: "tick c input = Ok (tick_next c input)"
proof (cases "c_mode c")
  case Constrained
  have "recovery input (tick_floor c input) (tick_ceil c input) (b_headroom_export (tick_bounds c input))
      (b_headroom_import (tick_bounds c input)) (tick_start c input) =
    Ok (if clear c input then
          (tick_start c input)\<lparr>dwell_elapsed := dwell_elapsed c + et_dt input,
             c_mode := (if dwell_elapsed c + et_dt input \<ge> ec_hysteresis_dwell (c_config c) then Ramping else Constrained)\<rparr>
        else (tick_start c input)\<lparr>dwell_elapsed := 0\<rparr>)"
    using Constrained by (simp add: recovery_def clamp_target clear_def Let_def)
  with Constrained show ?thesis
    by (simp add: tick_eq tick_next_def Let_def settle_def ramp_target_step not_less)
qed (simp_all add: tick_eq tick_next_def Let_def settle_def clamp_target ramp_target_step)

lemma ctrl_write_keeps [simp]:
  "c_mode (snd (ctrl_write v c)) = c_mode c" "dwell_elapsed (snd (ctrl_write v c)) = dwell_elapsed c"
  "c_config (snd (ctrl_write v c)) = c_config c"
  by (simp_all add: ctrl_write_def)

lemma ctrl_write_output:
  "current_output (snd (ctrl_write v c)) = v \<or>
    (current_output (snd (ctrl_write v c)) = current_output c \<and> \<bar>v - current_output c\<bar> < EPSILON)"
  by (simp add: ctrl_write_def)

text \<open>The controller stepped by its task.\<close>

definition tick_step :: "controller \<Rightarrow> envelope_tick \<Rightarrow> controller" where
  "tick_step c input = snd (tick_next c input)"

lemma ctrl_write_reports:
  "case fst (ctrl_write v c) of
     Some x \<Rightarrow> current_output (snd (ctrl_write v c)) = x
   | None \<Rightarrow> current_output (snd (ctrl_write v c)) = current_output c"
  by (simp add: ctrl_write_def)

lemma tick_next_reports:
  "case fst (tick_next c input) of
     Some v \<Rightarrow> current_output (snd (tick_next c input)) = v
   | None \<Rightarrow> current_output (snd (tick_next c input)) = current_output c"
  by (simp add: tick_next_def ramp_step_def ctrl_write_def Let_def split: mode.split)


section \<open>Where the output can go\<close>

lemma tick_target_le: "tick_target c input \<le> et_power_max input"
proof -
  have "tick_ceil c input \<le> et_power_max input"
    by (simp add: tick_ceil_def split: f64x.split)
  moreover from this have "tick_floor c input \<le> et_power_max input"
    by (rule order_trans [OF tick_floor_le_ceil])
  ultimately show ?thesis by (auto simp: tick_target_def)
qed

lemma max_step_sign: "0 \<le> ec_ramp_rate_per_sec (c_config c) \<Longrightarrow> 0 \<le> et_power_max input \<Longrightarrow> 0 \<le> max_step c input"
  by (simp add: max_step_def)

text \<open>The ramp moves from the output to the target without passing it.\<close>

definition between :: "f64 \<Rightarrow> f64 \<Rightarrow> f64 \<Rightarrow> bool" where
  "between a b x \<longleftrightarrow> min a b \<le> x \<and> x \<le> max a b"

lemma ramp_step_between:
  assumes "current_output c1 = current_output c" and "0 \<le> max_step c input"
  shows "between (current_output c) (tick_target c input) (current_output (snd (ramp_step c input c1)))"
    and "\<bar>current_output (snd (ramp_step c input c1)) - current_output c\<bar> \<le> max_step c input"
  using assms by (auto simp: between_def ramp_step_def ctrl_write_def Let_def signum_def min_def max_def)

lemma ctrl_write_between:
  "current_output c1 = current_output c \<Longrightarrow> between (current_output c) v (current_output (snd (ctrl_write v c1)))"
  by (simp add: between_def ctrl_write_def)

lemma tick_step_between:
  assumes "0 \<le> ec_ramp_rate_per_sec (c_config c)" and "0 \<le> et_power_max input"
  shows "between (current_output c) (tick_target c input) (current_output (tick_step c input))"
proof -
  have s: "0 \<le> max_step c input" by (rule max_step_sign [OF assms])
  have "between (current_output c) (tick_target c input) (current_output c)"
    by (simp add: between_def)
  then show ?thesis
    by (auto simp: tick_step_def tick_next_def Let_def split: mode.split
        intro!: ctrl_write_between ramp_step_between(1) [OF _ s])
qed

text \<open>What the task does with its controller: ticks, syncs to what was delivered, and the ramp to zero.\<close>

datatype envelope_event = Tick envelope_tick | Delivered f64 | Quiet envelope_guard duration

fun envelope_step :: "controller \<Rightarrow> envelope_event \<Rightarrow> controller" where
  "envelope_step c (Tick input) = tick_step c input"
| "envelope_step c (Delivered d) = sync_to_delivered d c"
| "envelope_step c (Quiet guard dt) = snd (ramp_to_zero c guard dt)"

text \<open>Events of a module rated at \<open>pmax\<close> whose configuration ramps at \<open>rate\<close>.\<close>

fun rated_event :: "f64 \<Rightarrow> envelope_event \<Rightarrow> bool" where
  "rated_event pmax (Tick input) \<longleftrightarrow> et_power_max input = pmax"
| "rated_event pmax (Delivered d) \<longleftrightarrow> d \<le> pmax"
| "rated_event pmax (Quiet guard dt) \<longleftrightarrow> eg_power_max guard = pmax \<and> 0 \<le> ec_ramp_rate_per_sec (eg_control guard)"

definition within_rating :: "f64 \<Rightarrow> controller \<Rightarrow> bool" where
  "within_rating pmax c \<longleftrightarrow> 0 \<le> pmax \<and> 0 \<le> ec_ramp_rate_per_sec (c_config c) \<and> current_output c \<le> pmax"

lemma tick_step_config [simp]: "c_config (tick_step c input) = c_config c"
  by (simp add: tick_step_def tick_next_def ramp_step_def Let_def split: mode.split)

lemma ramp_to_zero_toward:
  assumes "0 \<le> ec_ramp_rate_per_sec (eg_control guard)" and "0 \<le> eg_power_max guard"
  shows "between (current_output c) 0 (current_output (snd (ramp_to_zero c guard dt)))"
proof -
  let ?step = "ec_ramp_rate_per_sec (eg_control guard) * (if current_output c > 0 then eg_power_max guard else \<bar>eg_power_min guard\<bar>) * as_secs_f64 dt"
  have "0 \<le> ?step" using assms by (intro mult_nonneg_nonneg) simp_all
  then show ?thesis
    by (auto simp: ramp_to_zero_def Let_def between_def signum_def)
qed

lemma envelope_step_within_rating:
  assumes "within_rating pmax c" and "rated_event pmax e"
  shows "within_rating pmax (envelope_step c e)"
proof (cases e)
  case (Tick input)
  with assms tick_step_between [of c input] tick_target_le [of c input] show ?thesis
    by (auto simp: within_rating_def between_def)
next
  case (Delivered d)
  with assms show ?thesis by (simp add: within_rating_def sync_to_delivered_def)
next
  case (Quiet guard dt)
  with assms ramp_to_zero_toward [of guard c dt] show ?thesis
    by (auto simp: within_rating_def between_def ramp_to_zero_def Let_def)
qed

interpretation envelope_machine: stepped envelope_step "rated_event pmax" "within_rating pmax" for pmax
  by unfold_locales (rule envelope_step_within_rating)

text \<open>
  (C32) The output never passes the module's discharge rating: from a controller within it, after
  any sequence of ticks with any limits and readings, of syncs to what was delivered within the
  rating, and of ramps to zero, the output is still at most the rating.
\<close>

theorem output_within_rating:
  assumes "0 \<le> pmax" and "0 \<le> ec_ramp_rate_per_sec config" and "u \<le> pmax" and "\<forall>e \<in> set es. rated_event pmax e"
  shows "current_output (foldl envelope_step (controller_new config u) es) \<le> pmax"
  using envelope_machine.run_inv [of pmax "controller_new config u" es] assms
  by (simp add: within_rating_def controller_new_def)

definition ex_tick :: "f64 \<Rightarrow> f64 \<Rightarrow> f64 option \<Rightarrow> envelope_tick" where
  "ex_tick ex_limit request poi = \<lparr>et_import_limit = Some 1000, et_export_limit = Some ex_limit, et_active_power = 0,
     et_requested_setpoint = request, et_poi_active_power = poi, et_poi_fresh = True, et_hold_approach = False,
     et_power_min = - 100, et_power_max = 100, et_dt = secs 1\<rparr>"

definition ex_config :: envelope_config where
  "ex_config = \<lparr>ec_ramp_rate_per_sec = 1 / 10, ec_hysteresis_margin = 1 / 20, ec_hysteresis_dwell = secs 10\<rparr>"

theorem output_within_rating_witness:
  "current_output (foldl envelope_step (controller_new ex_config 0) [Tick (ex_tick 1000 5000 None), Delivered 60]) \<le> 100"
  by (rule output_within_rating) (simp_all add: ex_config_def ex_tick_def)

text \<open>
  Recovery from a limit is never a step: while a controller is constrained or ramping and no
  limit is violated, a tick moves the output toward its target, never past it, and by at most the
  configured fraction of the rating in that direction times the tick's length.
\<close>

lemma recovery_is_ramped:
  assumes "tick c input = Ok (w, c')" and "\<not> violated c input" and "c_mode c \<noteq> Normal"
    and "0 \<le> ec_ramp_rate_per_sec (c_config c)" and "0 \<le> et_power_max input"
  shows "between (current_output c) (tick_target c input) (current_output c') \<and>
    \<bar>current_output c' - current_output c\<bar> \<le> ec_ramp_rate_per_sec (c_config c)
      * (if tick_target c input \<ge> current_output c then et_power_max input else \<bar>et_power_min input\<bar>) * as_secs_f64 (et_dt input)"
proof -
  have s: "0 \<le> max_step c input" by (rule max_step_sign [OF assms(4,5)])
  have c': "c' = tick_step c input" using assms(1) by (simp add: tick_result tick_step_def)
  have "\<bar>current_output c' - current_output c\<bar> \<le> max_step c input"
    using assms(2,3) s ramp_step_between(2) [OF _ s]
    by (cases "c_mode c") (auto simp: c' tick_step_def tick_next_def Let_def)
  then show ?thesis
    using tick_step_between [OF assms(4,5)] by (simp add: c' max_step_def)
qed

definition ex_constrained :: "f64 \<Rightarrow> controller" where
  "ex_constrained u = \<lparr>c_mode = Constrained, dwell_elapsed = secs 9, current_output = u, c_config = ex_config,
     prev_limits = (Some 1000, Some 1000), jump_hold = 0\<rparr>"

lemma ex_bounds:
  "tick_bounds (ex_constrained u) (ex_tick e r None) =
    \<lparr>b_ceiling = Fin e, b_floor = Fin (- 1000), b_headroom_export = Fin e, b_headroom_import = Fin 1000, b_jumped = False\<rparr>"
  by (simp add: tick_bounds_def hold_reading_def ex_constrained_def ex_tick_def for_tick_def Let_def)

section \<open>The dwell\<close>

lemma tick_step_constrained:
  assumes "c_mode c = Constrained"
  shows "c_mode (tick_step c input) = Constrained \<Longrightarrow> dwell_elapsed (tick_step c input) \<le> dwell_elapsed c + et_dt input"
    and "c_mode (tick_step c input) \<noteq> Constrained \<Longrightarrow> ec_hysteresis_dwell (c_config c) \<le> dwell_elapsed c + et_dt input"
  using assms by (auto simp: tick_step_def tick_next_def ramp_step_def Let_def not_less split: if_splits)

lemma dwell_run:
  assumes "c_mode c = Constrained" and "c_mode (foldl tick_step c ts) \<noteq> Constrained"
  shows "ec_hysteresis_dwell (c_config c) \<le> dwell_elapsed c + (\<Sum>i \<leftarrow> ts. et_dt i)"
  using assms
proof (induction "ts" arbitrary: c)
  case Nil
  then show ?case by simp
next
  case (Cons i ts)
  show ?case
  proof (cases "c_mode (tick_step c i) = Constrained")
    case True
    from Cons.IH [OF True] Cons.prems(2) tick_step_constrained(1) [OF Cons.prems(1) True] show ?thesis by simp
  next
    case False
    with tick_step_constrained(2) [OF Cons.prems(1)] show ?thesis by fastforce
  qed
qed

text \<open>
  A limit that was violated stays in force for the configured dwell: after a violating tick
  the controller is constrained, and it is still constrained after any further ticks whose
  lengths add up to less than the dwell.
\<close>

lemma constrained_for_dwell:
  assumes "violated c input" and "(\<Sum>i \<leftarrow> ts. et_dt i) < ec_hysteresis_dwell (c_config c)"
  shows "c_mode (foldl tick_step (tick_step c input) ts) = Constrained"
proof -
  have "c_mode (tick_step c input) = Constrained" "dwell_elapsed (tick_step c input) = 0"
    using assms(1) by (simp_all add: tick_step_def tick_next_def Let_def)
  with dwell_run [of "tick_step c input" "ts"] assms(2) show ?thesis by fastforce
qed

section \<open>Violations\<close>

lemma ctrl_write_close: "\<bar>current_output (snd (ctrl_write v c)) - v\<bar> < EPSILON"
  using EPSILON_pos by (auto simp: ctrl_write_def abs_minus_commute)

lemma violated_step:
  assumes "violated c input"
  shows "c_mode (tick_step c input) = Constrained" and "\<bar>current_output (tick_step c input) - tick_target c input\<bar> < EPSILON"
  using assms ctrl_write_close by (simp_all add: tick_step_def tick_next_def Let_def)

lemma violated_output:
  assumes "et_poi_active_power input = None" and "et_export_limit input = Some e" and "et_import_limit input = Some i"
    and "0 \<le> e" and "0 \<le> i" and "et_power_min input \<le> 0" and "0 \<le> et_power_max input"
    and "e \<le> et_active_power input \<or> et_active_power input \<le> - i"
    and "tick c input = Ok (w, c')"
  shows "c_mode c' = Constrained \<and>
    - i - EPSILON < current_output c' \<and> current_output c' < e + EPSILON \<and>
    et_power_min input - EPSILON < current_output c' \<and> current_output c' < et_power_max input + EPSILON"
proof -
  have c': "c' = tick_step c input" using assms(9) by (simp add: tick_result tick_step_def)
  have b: "tick_bounds c input = \<lparr>b_ceiling = Fin e, b_floor = Fin (- i),
      b_headroom_export = Fin (e - et_active_power input), b_headroom_import = Fin (et_active_power input + i), b_jumped = False\<rparr>"
    using assms(1-3) by (simp add: tick_bounds_def hold_reading_def for_tick_def Let_def)
  have v: "violated c input"
    using assms(8) by (auto simp: violated_def b)
  have "- i \<le> tick_target c input \<and> tick_target c input \<le> e \<and>
      et_power_min input \<le> tick_target c input \<and> tick_target c input \<le> et_power_max input"
    using assms(4-7) by (auto simp: tick_target_def tick_floor_def tick_ceil_def b)
  with violated_step [OF v] show ?thesis by (auto simp: c')
qed

text \<open>
  (C8) On a site without a meter at the point of interconnection a limit that is reached is
  applied in the same tick: when the battery's reading is at or past a limit, the output after
  the tick is within both limits and the module's rating (to the smallest step the controller
  writes), whatever was requested; for limits that are not negative.
\<close>

theorem violation_clamps_at_once:
  assumes "et_poi_active_power input = None" and "et_export_limit input = Some e" and "et_import_limit input = Some i"
    and "0 \<le> e" and "0 \<le> i" and "et_power_min input \<le> 0" and "0 \<le> et_power_max input"
    and "e \<le> et_active_power input \<or> et_active_power input \<le> - i"
    and "tick c input = Ok (w, c')"
  shows "c_mode c' = Constrained \<and>
    - i - EPSILON < current_output c' \<and> current_output c' < e + EPSILON \<and>
    et_power_min input - EPSILON < current_output c' \<and> current_output c' < et_power_max input + EPSILON"
  by (rule violated_output [OF assms])

theorem violation_clamps_at_once_witness:
  "current_output (tick_step (controller_new ex_config 90) (ex_tick 0 80 None)) < 0 + EPSILON"
  using violation_clamps_at_once [of "ex_tick 0 80 None" 0 1000 "controller_new ex_config 90"
      "fst (tick_next (controller_new ex_config 90) (ex_tick 0 80 None))"
      "tick_step (controller_new ex_config 90) (ex_tick 0 80 None)"]
  by (simp add: ex_tick_def tick_result tick_step_def)

section \<open>The servo in closed loop\<close>

lemma servo_w_bound:
  assumes "0 \<le> d" and "0 \<le> j"
  shows "servo_w h j opposite d \<le> (h + j) / 10 * d - j"
proof (cases "h + j \<ge> 0")
  case True
  then show ?thesis by (simp add: servo_w_def)
next
  case False
  have "- max (min (3 / 10 * - (h + j)) (opp / 10)) (- (h + j) / 10) \<le> (h + j) / 10" for opp
    using max.cobounded2 [of "- (h + j) / 10" "min (3 / 10 * - (h + j)) (opp / 10)"] by linarith
  moreover have "3 / 10 * (h + j) \<le> (h + j) / 10" using False by simp
  ultimately have "(case opposite of Fin opp \<Rightarrow> - max (min (3 / 10 * - (h + j)) (opp / 10)) (- (h + j) / 10)
      | _ \<Rightarrow> 3 / 10 * (h + j)) \<le> (h + j) / 10"
    by (simp split: f64x.split)
  from mult_right_mono [OF this assms(1)] False show ?thesis
    by (simp add: servo_w_def Let_def)
qed

lemma poi_bounds_ceil:
  assumes "l_now ex = Some e" and "jump_w (- p) imp = 0" and "Fin u' \<le> b_ceiling (poi_bounds u p imp ex dt)"
  shows "u' - u \<le> (p + e + jump_w p ex) / 10 * as_secs_f64 dt - jump_w p ex"
proof -
  let ?up = "servo_w (p + e) (jump_w p ex) (poi_headroom (- p) (l_now imp)) (as_secs_f64 dt)"
  have "servo_step p ex (poi_headroom p (l_now ex)) (poi_headroom (- p) (l_now imp)) dt = Fin ?up"
    by (rule servo_step_Fin [OF assms(1)]) simp
  moreover have "\<not> Fin 0 < jump (- p) imp (poi_headroom (- p) (l_now imp))"
    by (simp add: jump_Fin assms(2))
  ultimately have "b_ceiling (poi_bounds u p imp ex dt) = Fin (u + ?up)"
    by (simp add: poi_bounds_def Let_def)
  with assms(3) servo_w_bound [of "as_secs_f64 dt" "jump_w p ex" "p + e" "poi_headroom (- p) (l_now imp)"] show ?thesis
    by simp
qed

text \<open>
  (C33) The servo does not overshoot the export limit: with a meter at the point of
  interconnection whose reading follows the battery without lag, and readings at most ten seconds
  apart, an output at or below the ceiling leaves the site inside the export limit whenever it was
  inside; and when it was past the limit, the violation left after the tick is at most the one the
  meter already showed under the previous limit, less a tenth of it per second: what a tightening
  of the limit added is gone in one step. (An import limit that tightens into violation in the
  same tick may override the ceiling and is excluded.)
\<close>

theorem servo_no_export_overshoot:
  assumes "l_now ex = Some e" and "jump_w (- p) imp = 0" and "as_secs_f64 dt \<le> 10"
    and "Fin u' \<le> b_ceiling (poi_bounds u p imp ex dt)"
  defines "p' \<equiv> p - (u' - u)"
  shows "(0 \<le> p + e \<longrightarrow> 0 \<le> p' + e) \<and>
    (p + e < 0 \<longrightarrow> (1 - as_secs_f64 dt / 10) *
      max (p + e) (case l_prev ex of None \<Rightarrow> 0 | Some e0 \<Rightarrow> min 0 (p + e0)) \<le> p' + e)"
proof -
  define m where "m = p + e + jump_w p ex"
  have "p' + e \<ge> m * (1 - as_secs_f64 dt / 10)"
    using poi_bounds_ceil [OF assms(1,2,4)] by (simp add: p'_def m_def field_simps)
  moreover have "m = p + e" if "0 \<le> p + e"
    using that assms(1) by (simp add: m_def jump_w_def max_def split: option.split)
  moreover have "m = max (p + e) (case l_prev ex of None \<Rightarrow> 0 | Some e0 \<Rightarrow> min 0 (p + e0))" if "p + e < 0"
    using that assms(1) by (auto simp: m_def jump_w_def max_def min_def split: option.split)
  moreover have "0 \<le> (p + e) * (1 - as_secs_f64 dt / 10)" if "0 \<le> p + e"
    using that assms(3) by (intro mult_nonneg_nonneg) simp_all
  ultimately show ?thesis
    by (auto simp: mult.commute)
qed

theorem servo_no_export_overshoot_witness:
  "Fin 105 \<le> b_ceiling (poi_bounds 100 100 \<lparr>l_now = None, l_prev = None\<rparr> \<lparr>l_now = Some 0, l_prev = Some 0\<rparr> (secs 1)) \<and>
   0 \<le> 100 - (105 - 100) + (0 :: f64)"
proof -
  let ?lm = "\<lparr>l_now = Some 0, l_prev = Some 0\<rparr>"
  have "poi_headroom 100 (Some 0) = Fin 100" by (simp add: poi_headroom_def)
  then have "Fin 105 \<le> b_ceiling (poi_bounds 100 100 \<lparr>l_now = None, l_prev = None\<rparr> ?lm (secs 1))"
    using servo_step_Fin [of ?lm 0 PosInf 100 "secs 1"]
    by (simp add: poi_bounds_def Let_def poi_headroom_def jump_w_def servo_w_def jump_def servo_step_def
        as_secs_f64_def secs_def NANOS_def)
  then show ?thesis
    using servo_no_export_overshoot [of ?lm 0 100 "\<lparr>l_now = None, l_prev = None\<rparr>" "secs 1" 105 100]
    by (simp add: jump_w_def as_secs_f64_def secs_def NANOS_def)
qed

section \<open>A quiet meter\<close>

lemma ramp_to_zero_output:
  assumes "0 \<le> ec_ramp_rate_per_sec (eg_control guard)" and "0 \<le> eg_power_max guard"
    and "step = ec_ramp_rate_per_sec (eg_control guard) * min (eg_power_max guard) \<bar>eg_power_min guard\<bar> * as_secs_f64 dt"
  shows "\<bar>current_output (snd (ramp_to_zero c guard dt))\<bar> \<le> max 0 (\<bar>current_output c\<bar> - step)"
proof -
  let ?rated = "if current_output c > 0 then eg_power_max guard else \<bar>eg_power_min guard\<bar>"
  let ?s = "ec_ramp_rate_per_sec (eg_control guard) * ?rated * as_secs_f64 dt"
  have "step \<le> ?s"
    unfolding assms(3) using assms(1) by (intro mult_right_mono mult_left_mono) auto
  moreover have "0 \<le> ?s"
    using assms(1,2) by (intro mult_nonneg_nonneg) auto
  moreover have "current_output (snd (ramp_to_zero c guard dt)) =
      (if \<bar>current_output c\<bar> \<le> ?s then 0 else current_output c - ?s * signum (current_output c))"
    by (simp add: ramp_to_zero_def Let_def)
  ultimately show ?thesis
    by (auto simp: signum_def max_def abs_if split: if_splits)
qed

text \<open>
  (C34) When the meter goes quiet the battery comes to rest: ramping to zero \<open>n\<close> times with ticks
  of the same length brings the output to exactly 0 W as soon as \<open>n\<close> steps of the slower of the
  two directions cover it, and the output only ever shrinks on the way.
\<close>

theorem quiet_meter_ramps_to_zero:
  assumes "0 \<le> ec_ramp_rate_per_sec (eg_control guard)" and "0 \<le> eg_power_max guard"
    and "step = ec_ramp_rate_per_sec (eg_control guard) * min (eg_power_max guard) \<bar>eg_power_min guard\<bar> * as_secs_f64 dt"
    and "\<bar>current_output c\<bar> \<le> real n * step"
  shows "current_output (((\<lambda>c. snd (ramp_to_zero c guard dt)) ^^ n) c) = 0 \<and>
    \<bar>current_output (snd (ramp_to_zero c guard dt))\<bar> \<le> \<bar>current_output c\<bar>"
proof
  have "\<bar>current_output (((\<lambda>c. snd (ramp_to_zero c guard dt)) ^^ k) c)\<bar> \<le> max 0 (\<bar>current_output c\<bar> - real k * step)" for k
  proof (induction k)
    case 0
    show ?case by simp
  next
    case (Suc k)
    have "0 \<le> step"
      using assms(1,2,3) by simp
    with Suc ramp_to_zero_output [OF assms(1-3), of "((\<lambda>c. snd (ramp_to_zero c guard dt)) ^^ k) c"] show ?case
      by (simp add: max_def algebra_simps split: if_splits)
  qed
  from this [of n] assms(4) show "current_output (((\<lambda>c. snd (ramp_to_zero c guard dt)) ^^ n) c) = 0"
    by simp
  show "\<bar>current_output (snd (ramp_to_zero c guard dt))\<bar> \<le> \<bar>current_output c\<bar>"
    using ramp_to_zero_toward [OF assms(1,2), of c dt] by (auto simp: between_def abs_if min_def max_def split: if_splits)
qed

definition ex_guard :: envelope_guard where
  "ex_guard = \<lparr>eg_control = ex_config, eg_power_min = - 100, eg_power_max = 100, eg_import_limit_topic = ''i'',
     eg_export_limit_topic = ''e'', eg_active_power_topic = ''a'', eg_poi_active_power_topic = Some ''p''\<rparr>"

theorem quiet_meter_ramps_to_zero_witness:
  "current_output (((\<lambda>c. snd (ramp_to_zero c ex_guard (secs 1))) ^^ 9) (ex_constrained (- 85))) = 0"
proof -
  have "\<bar>current_output (ex_constrained (- 85))\<bar> \<le> real 9 * 10"
    by (simp add: ex_constrained_def)
  moreover have "0 \<le> ec_ramp_rate_per_sec (eg_control ex_guard)" "0 \<le> eg_power_max ex_guard"
    "10 = ec_ramp_rate_per_sec (eg_control ex_guard) * min (eg_power_max ex_guard) \<bar>eg_power_min ex_guard\<bar> * as_secs_f64 (secs 1)"
    by (simp_all add: ex_guard_def ex_config_def as_secs_f64_def secs_def NANOS_def)
  ultimately show ?thesis
    using quiet_meter_ramps_to_zero by blast
qed

section \<open>Where the law falls short of its comments\<close>

text \<open>
  The floor is cut to the charge rating before it is lowered to the ceiling, so a ceiling below
  the charge rating takes the output past it: here an export limit that drops to 0 with 500 W
  flowing out asks a module rated at -100 W for -500 W.
\<close>

theorem output_past_charge_rating:
  "current_output (tick_step (controller_new ex_config 0)
     \<lparr>et_import_limit = None, et_export_limit = Some 0, et_active_power = 0, et_requested_setpoint = 0,
      et_poi_active_power = Some (- 500), et_poi_fresh = True, et_hold_approach = False,
      et_power_min = - 100, et_power_max = 100, et_dt = secs 1\<rparr>) = - 500"
proof -
  let ?input = "\<lparr>et_import_limit = None, et_export_limit = Some 0, et_active_power = 0, et_requested_setpoint = 0,
      et_poi_active_power = Some (- 500), et_poi_fresh = True, et_hold_approach = False,
      et_power_min = - 100, et_power_max = 100, et_dt = secs 1\<rparr>"
  let ?ex = "\<lparr>l_now = Some 0, l_prev = None\<rparr>" and ?imp = "\<lparr>l_now = None, l_prev = None\<rparr>"
  have hr: "poi_headroom (- 500) (Some 0) = Fin (- 500)" "poi_headroom 500 None = PosInf"
    by (simp_all add: poi_headroom_def)
  have j: "jump (- 500) ?ex (Fin (- 500)) = Fin 500" "jump 500 ?imp PosInf = Fin 0"
    by (simp_all add: jump_def)
  have s: "servo_step (- 500) ?ex (Fin (- 500)) PosInf dt = Fin (- 500)" "servo_step 500 ?imp PosInf (Fin (- 500)) dt = PosInf" for dt
    by (simp_all add: servo_step_def j)
  have "poi_bounds 0 (- 500) ?imp ?ex dt = \<lparr>b_ceiling = Fin (- 500), b_floor = NegInf,
      b_headroom_export = Fin (- 500), b_headroom_import = PosInf, b_jumped = True\<rparr>" for dt
    by (simp add: poi_bounds_def hr j s Let_def)
  then have "tick_bounds (controller_new ex_config 0) ?input = \<lparr>b_ceiling = Fin (- 500), b_floor = NegInf,
      b_headroom_export = Fin (- 500), b_headroom_import = PosInf, b_jumped = True\<rparr>"
    by (simp add: tick_bounds_def hold_reading_def for_tick_def controller_new_def)
  then have "tick_target (controller_new ex_config 0) ?input = - 500" "violated (controller_new ex_config 0) ?input"
    by (simp_all add: tick_target_def tick_floor_def tick_ceil_def violated_def)
  then show ?thesis
    by (simp add: tick_step_def tick_next_def ctrl_write_def controller_new_def EPSILON_def Let_def)
qed

text \<open>
  While it is constrained the controller keeps its output without looking at the limits again, as
  long as the reading does not violate them: here the export limit tightens from 1000 to 80 W and
  the output stays at 100 W.
\<close>

theorem constrained_output_past_tightened_limit:
  "current_output (tick_step (ex_constrained 100) (ex_tick 80 100 None\<lparr>et_import_limit := Some 1\<rparr>)) = 100"
proof -
  let ?input = "ex_tick 80 100 None\<lparr>et_import_limit := Some 1\<rparr>"
  have b: "tick_bounds (ex_constrained 100) ?input = \<lparr>b_ceiling = Fin 80, b_floor = Fin (- 1),
      b_headroom_export = Fin 80, b_headroom_import = Fin 1, b_jumped = False\<rparr>"
    by (simp add: tick_bounds_def hold_reading_def for_tick_def ex_constrained_def ex_tick_def Let_def)
  have "tick_target (ex_constrained 100) ?input = 80"
    by (simp add: tick_target_def tick_floor_def tick_ceil_def b) (simp add: ex_tick_def)
  then have "\<not> violated (ex_constrained 100) ?input" "\<not> clear (ex_constrained 100) ?input"
    by (simp_all add: violated_def clear_def b) (simp add: ex_tick_def ex_constrained_def ex_config_def)
  then show ?thesis
    by (simp add: tick_step_def tick_next_def Let_def) (simp add: ex_constrained_def)
qed

end
