(* ===== verification/Envelope_Writes.thy ===== *)
theory Envelope_Writes
  imports Gateway_Prelude
begin

text \<open>
  What an envelope task remembers of its own writes: the order of child writes
  (\<^verbatim>\<open>dispatch/write_order.rs\<close>), the gate of the point-of-interconnection servo
  (\<^verbatim>\<open>envelope/poi_gate.rs\<close>) and the write state that plans a tick's writes
  (\<^verbatim>\<open>envelope/writes.rs\<close>).
\<close>

section \<open>Order of writes\<close>

type_synonym shares = "(string \<times> f64) list"

definition last_share :: "(string \<rightharpoonup> f64) \<Rightarrow> string \<Rightarrow> f64" where
  "last_share was i = (case was i of None \<Rightarrow> 0 | Some p \<Rightarrow> \<bar>p\<bar>)"

definition growth :: "(string \<rightharpoonup> f64) \<Rightarrow> string \<times> f64 \<Rightarrow> f64" where
  "growth was c = \<bar>snd c\<bar> - last_share was (fst c)"

definition reductions_first :: "shares \<Rightarrow> (string \<rightharpoonup> f64) \<Rightarrow> shares" where
  "reductions_first changed was = sort_key (growth was) changed"

definition HANDOFF_MIN_FRACTION :: f64 where
  "HANDOFF_MIN_FRACTION = 1 / 100"

definition material_shrink :: "(string \<rightharpoonup> f64) \<Rightarrow> string \<times> f64 \<Rightarrow> bool" where
  "material_shrink was c \<longleftrightarrow> - growth was c > HANDOFF_MIN_FRACTION * last_share was (fst c)"

definition handoff_batch :: "shares \<Rightarrow> (string \<rightharpoonup> f64) \<Rightarrow> bool \<Rightarrow> shares \<times> bool" where
  "handoff_batch changed was deferred_last_tick =
     (if (\<exists>c \<in> set changed. material_shrink was c) \<and> (\<exists>c \<in> set changed. growth was c > 0) \<and> \<not> deferred_last_tick
      then (filter (\<lambda>c. growth was c < 0) changed, True)
      else (changed, False))"

section \<open>The gate\<close>

definition READINGS_AFTER_GROWTH :: nat where
  "READINGS_AFTER_GROWTH = 2"

datatype handoff = Idle | Deferred | GrowthWritten instant nat

record poi_gate =
  last_used :: "instant option"
  handoff :: handoff

definition poi_gate_new :: poi_gate where
  "poi_gate_new = \<lparr>last_used = None, handoff = Idle\<rparr>"

definition gate_take :: "poi_gate \<Rightarrow> instant \<Rightarrow> (bool \<times> bool) \<times> poi_gate" where
  "gate_take g received_at =
     (let fresh = (last_used g \<noteq> Some received_at);
          h = (case handoff g of
                 GrowthWritten w seen \<Rightarrow>
                   if fresh \<and> received_at > w then
                     (if seen + 1 \<ge> READINGS_AFTER_GROWTH then Idle else GrowthWritten w (seen + 1))
                   else GrowthWritten w seen
               | other \<Rightarrow> other)
      in ((fresh, h \<noteq> Idle), \<lparr>last_used = Some received_at, handoff = h\<rparr>))"

definition growth_deferred :: "poi_gate \<Rightarrow> poi_gate" where
  "growth_deferred g = g\<lparr>handoff := Deferred\<rparr>"

definition growth_written :: "instant \<Rightarrow> poi_gate \<Rightarrow> poi_gate" where
  "growth_written now g = (if handoff g = Deferred then g\<lparr>handoff := GrowthWritten now 0\<rparr> else g)"

section \<open>Write state\<close>

record write_state =
  last_written :: "string \<rightharpoonup> f64"
  deferred_growth :: bool
  gate :: poi_gate

definition write_state_new :: write_state where
  "write_state_new = \<lparr>last_written = Map.empty, deferred_growth = False, gate = poi_gate_new\<rparr>"

record plan =
  p_writes :: shares
  completes_handoff :: bool

definition is_changed :: "(string \<rightharpoonup> f64) \<Rightarrow> string \<times> f64 \<Rightarrow> bool" where
  "is_changed was c = (case was (fst c) of None \<Rightarrow> True | Some prev \<Rightarrow> \<bar>snd c - prev\<bar> \<ge> EPSILON)"

text \<open>The children the batch leaves out, at their last landed share.\<close>

definition reasserts :: "(string \<rightharpoonup> f64) \<Rightarrow> string list \<Rightarrow> shares \<Rightarrow> shares" where
  "reasserts was ids writes =
     List.map_filter (\<lambda>i. map_option (\<lambda>v. (i, v)) (was i)) (filter (\<lambda>i. list_all (\<lambda>c. fst c \<noteq> i) writes) ids)"

definition make_plan :: "write_state \<Rightarrow> shares \<Rightarrow> plan option \<times> write_state" where
  "make_plan ws shares =
     (let ids = map fst shares;
          changed = filter (is_changed (last_written ws)) shares;
          held = deferred_growth ws;
          (batch, ws') =
            (if changed = [] then ([], ws)
             else
               let (batch, deferred) = handoff_batch (reductions_first changed (last_written ws)) (last_written ws) held;
                   ws = ws\<lparr>deferred_growth := deferred\<rparr>;
                   ws = (if deferred then ws\<lparr>gate := growth_deferred (gate ws)\<rparr> else ws)
               in (batch, ws));
          writes = batch @ reasserts (last_written ws) ids batch
      in if writes = [] then (None, ws')
         else (Some \<lparr>p_writes = writes, completes_handoff = held \<and> \<not> deferred_growth ws'\<rparr>, ws'))"

definition landed :: "instant \<Rightarrow> plan \<Rightarrow> write_state \<Rightarrow> write_state" where
  "landed now p ws =
     (let ws = (if completes_handoff p then ws\<lparr>gate := growth_written now (gate ws)\<rparr> else ws)
      in ws\<lparr>last_written := last_written ws ++ map_of (rev (p_writes p))\<rparr>)"

section \<open>A handoff never puts more on the bus\<close>

text \<open>What the children hold together, in magnitude, after some of the writes landed.\<close>

definition on_bus :: "(string \<rightharpoonup> f64) \<Rightarrow> string list \<Rightarrow> f64" where
  "on_bus was ids = (\<Sum>i \<leftarrow> ids. last_share was i)"

definition land :: "(string \<rightharpoonup> f64) \<Rightarrow> shares \<Rightarrow> string \<rightharpoonup> f64" where
  "land was writes = was ++ map_of (rev writes)"

lemma land_Nil [simp]: "land was [] = was"
  by (simp add: land_def)

lemma land_snoc: "land was (ws @ [c]) = (land was ws)(fst c \<mapsto> snd c)"
  by (cases c) (simp add: land_def)

lemma on_bus_update:
  assumes "distinct ids" and "i \<in> set ids"
  shows "on_bus (was(i \<mapsto> v)) ids = on_bus was ids + \<bar>v\<bar> - last_share was i"
proof -
  have "on_bus (was(i \<mapsto> v)) ids = (\<Sum>j \<in> set ids. last_share (was(i \<mapsto> v)) j)"
    "on_bus was ids = (\<Sum>j \<in> set ids. last_share was j)"
    using assms(1) by (simp_all add: on_bus_def sum_list_distinct_conv_sum_set)
  moreover have "(\<Sum>j \<in> set ids. last_share (was(i \<mapsto> v)) j) = \<bar>v\<bar> + (\<Sum>j \<in> set ids - {i}. last_share was j)"
    using assms(2) by (subst sum.remove [of _ i]) (auto simp: last_share_def intro!: sum.cong)
  moreover have "(\<Sum>j \<in> set ids. last_share was j) = last_share was i + (\<Sum>j \<in> set ids - {i}. last_share was j)"
    using assms(2) by (subst sum.remove [of _ i]) auto
  ultimately show ?thesis by simp
qed

lemma on_bus_land:
  assumes "distinct ids" and "distinct (map fst writes)" and "fst ` set writes \<subseteq> set ids"
  shows "on_bus (land was writes) ids = on_bus was ids + (\<Sum>c \<leftarrow> writes. growth was c)"
  using assms(2,3)
proof (induction writes rule: rev_induct)
  case Nil
  show ?case by simp
next
  case (snoc c writes)
  have "map_of (rev writes) (fst c) = None"
    using snoc.prems(1) by (simp add: map_of_eq_None_iff)
  then have "last_share (land was writes) (fst c) = last_share was (fst c)"
    by (simp add: last_share_def land_def map_add_def)
  then show ?case
    using snoc on_bus_update [OF assms(1), of "fst c" "land was writes" "snd c"]
    by (simp add: land_snoc growth_def del: fun_upd_apply)
qed

text \<open>A sorted sequence that has gone up does not come down again below where it ends.\<close>

lemma sorted_prefix_sum:
  fixes f :: "'a \<Rightarrow> real"
  assumes "sorted (map f xs)"
  shows "(\<Sum>x \<leftarrow> take n xs. f x) \<le> max 0 (\<Sum>x \<leftarrow> xs. f x)"
proof (cases "\<exists>x \<in> set (take n xs). f x > 0")
  case False
  then have "(\<Sum>x \<leftarrow> take n xs. f x) \<le> 0"
    by (intro sum_list_nonpos) (auto simp: not_less)
  then show ?thesis by simp
next
  case True
  then obtain x where x: "x \<in> set (take n xs)" "f x > 0" by blast
  have "sorted (map f (take n xs) @ map f (drop n xs))"
    using assms by (metis append_take_drop_id map_append)
  then have "\<forall>y \<in> set (drop n xs). f x \<le> f y"
    using x(1) by (auto simp: sorted_append)
  then have "0 \<le> (\<Sum>y \<leftarrow> drop n xs. f y)"
    using x(2) by (intro sum_list_nonneg) force
  moreover have "(\<Sum>x \<leftarrow> xs. f x) = (\<Sum>x \<leftarrow> take n xs. f x) + (\<Sum>x \<leftarrow> drop n xs. f x)"
    by (metis append_take_drop_id map_append sum_list_append)
  ultimately show ?thesis by simp
qed

text \<open>The batch of a tick: what a plan's writes start with.\<close>

lemma handoff_batch_cases:
  assumes "handoff_batch (reductions_first changed was) was held = (batch, deferred)"
  shows "set batch \<subseteq> set changed" and "sorted (map (growth was) batch)"
    and "distinct (map fst changed) \<Longrightarrow> distinct (map fst batch)"
    and "\<not> deferred \<Longrightarrow> set batch = set changed"
    and "deferred \<Longrightarrow> \<not> held \<and> (\<forall>c \<in> set batch. growth was c < 0) \<and> (\<forall>c \<in> set changed - set batch. growth was c \<ge> 0)"
proof -
  have d: "distinct (map fst (reductions_first changed was)) \<longleftrightarrow> distinct (map fst changed)"
    by (rule mset_eq_imp_distinct_iff) (simp add: reductions_first_def)
  show "distinct (map fst batch)" if "distinct (map fst changed)"
    using assms that d by (auto simp: handoff_batch_def distinct_map_filter split: if_splits)
qed (use assms in \<open>auto simp: handoff_batch_def reductions_first_def sorted_filter split: if_splits\<close>)

lemma in_reasserts: "(i, v) \<in> set (reasserts was ids batch) \<longleftrightarrow> i \<in> set ids \<and> i \<notin> fst ` set batch \<and> was i = Some v"
  by (force simp: reasserts_def map_filter_def list_all_iff)

lemma reasserts_growth: "c \<in> set (reasserts was ids batch) \<Longrightarrow> growth was c = 0"
  by (cases c) (auto simp: in_reasserts growth_def last_share_def)

lemma distinct_map_filter_fst:
  "distinct ids \<Longrightarrow> distinct (map fst (List.map_filter (\<lambda>i. map_option (\<lambda>v. (i, v)) (was i)) ids))"
proof (induction ids)
  case (Cons i ids)
  have "i \<notin> fst ` set (List.map_filter (\<lambda>i. map_option (\<lambda>v. (i, v)) (was i)) ids)"
    using Cons.prems by (auto simp: map_filter_def)
  with Cons show ?case by (cases "was i") (simp_all add: map_filter_simps)
qed (simp add: map_filter_simps)

lemma distinct_reasserts: "distinct ids \<Longrightarrow> distinct (map fst (reasserts was ids batch))"
  unfolding reasserts_def by (intro distinct_map_filter_fst distinct_filter)

text \<open>One tick's plan, taken apart.\<close>

lemma make_plan_cases:
  assumes "make_plan ws shares = (Some p, ws')" and "distinct (map fst shares)"
  obtains batch where "p_writes p = batch @ reasserts (last_written ws) (map fst shares) batch"
    and "set batch \<subseteq> set (filter (is_changed (last_written ws)) shares)"
    and "sorted (map (growth (last_written ws)) batch)" and "distinct (map fst batch)"
    and "\<not> deferred_growth ws' \<Longrightarrow> set batch = set (filter (is_changed (last_written ws)) shares)"
    and "batch \<noteq> [] \<Longrightarrow> deferred_growth ws' \<Longrightarrow> \<not> deferred_growth ws \<and> (\<forall>c \<in> set batch. growth (last_written ws) c < 0)"
    and "last_written ws' = last_written ws"
proof (cases "filter (is_changed (last_written ws)) shares = []")
  case True
  with assms(1) show ?thesis
    by (intro that [of "[]"]) (auto simp: make_plan_def Let_def split: if_splits)
next
  case False
  obtain batch deferred where b: "handoff_batch (reductions_first (filter (is_changed (last_written ws)) shares) (last_written ws))
      (last_written ws) (deferred_growth ws) = (batch, deferred)" by fastforce
  note c = handoff_batch_cases [OF b]
  have "p_writes p = batch @ reasserts (last_written ws) (map fst shares) batch \<and> deferred_growth ws' = deferred \<and>
      last_written ws' = last_written ws"
    using assms(1) False b by (auto simp: make_plan_def Let_def split: if_splits)
  moreover have "distinct (map fst (filter (is_changed (last_written ws)) shares))"
    using assms(2) by (rule distinct_map_filter)
  ultimately show ?thesis
    using c by (intro that [of batch]) auto
qed

lemma plan_bus_bound:
  assumes "make_plan ws shares = (Some p, ws')" and "distinct (map fst shares)"
  shows "on_bus (land (last_written ws) (take n (p_writes p))) (map fst shares)
    \<le> max (on_bus (last_written ws) (map fst shares)) (on_bus (land (last_written ws) (p_writes p)) (map fst shares))"
proof (rule make_plan_cases [OF assms])
  fix batch
  let ?was = "last_written ws" and ?ids = "map fst shares"
  let ?rs = "reasserts ?was ?ids batch"
  assume w: "p_writes p = batch @ ?rs" and sub: "set batch \<subseteq> set (filter (is_changed ?was) shares)"
    and sorted: "sorted (map (growth ?was) batch)" and d: "distinct (map fst batch)"
  have d': "distinct (map fst (p_writes p))"
    using w d distinct_reasserts [OF assms(2), of ?was batch] by (force simp: in_reasserts)
  have dom: "fst ` set (p_writes p) \<subseteq> set ?ids"
    using w sub by (auto simp: in_reasserts)
  have zero: "(\<Sum>c \<leftarrow> take m ?rs. growth ?was c) = 0" for m
    by (intro sum_list_zero) (auto dest!: in_set_takeD intro: reasserts_growth)
  have bus: "on_bus (land ?was (take m (p_writes p))) ?ids = on_bus ?was ?ids + (\<Sum>c \<leftarrow> take m batch. growth ?was c)" for m
  proof -
    have "distinct (map fst (take m (p_writes p)))"
      using d' by (metis distinct_take take_map)
    moreover have "fst ` set (take m (p_writes p)) \<subseteq> set ?ids"
      using dom set_take_subset [of m "p_writes p"] by blast
    ultimately show ?thesis
      using on_bus_land [OF assms(2), of "take m (p_writes p)" ?was] zero [of "m - length batch"]
      by (simp add: w)
  qed
  have "(\<Sum>c \<leftarrow> take n batch. growth ?was c) \<le> max 0 (\<Sum>c \<leftarrow> batch. growth ?was c)"
    using sorted by (rule sorted_prefix_sum)
  with bus [of n] bus [of "length (p_writes p)"] show ?thesis
    by (simp add: w)
qed

text \<open>
  (C13) A handoff never puts both children on the bus: while the writes a tick plans land one
  after the other, what the children hold together in magnitude never exceeds the larger of what
  they held before the tick and what they hold once all of its writes have landed.
\<close>

theorem plan_no_overlap:
  assumes "make_plan ws shares = (Some p, ws')" and "distinct (map fst shares)"
  shows "on_bus (land (last_written ws) (take n (p_writes p))) (map fst shares)
    \<le> max (on_bus (last_written ws) (map fst shares)) (on_bus (land (last_written ws) (p_writes p)) (map fst shares))"
  by (rule plan_bus_bound [OF assms])

definition ex_writes :: write_state where
  "ex_writes = \<lparr>last_written = [''a'' \<mapsto> 100, ''b'' \<mapsto> 0], deferred_growth = False, gate = poi_gate_new\<rparr>"

lemma ex_plan:
  "make_plan ex_writes [(''b'', 100), (''a'', 0)] =
    (Some \<lparr>p_writes = [(''a'', 0), (''b'', 0)], completes_handoff = False\<rparr>,
     ex_writes\<lparr>deferred_growth := True, gate := \<lparr>last_used = None, handoff = Deferred\<rparr>\<rparr>)"
  by (simp add: make_plan_def ex_writes_def is_changed_def EPSILON_def reductions_first_def growth_def last_share_def
      handoff_batch_def material_shrink_def HANDOFF_MIN_FRACTION_def growth_deferred_def poi_gate_new_def
      reasserts_def map_filter_simps)

theorem plan_no_overlap_witness:
  "on_bus (land (last_written ex_writes) (take 1 [(''a'', 0), (''b'', 0)])) [''b'', ''a''] \<le> 100"
proof -
  have "on_bus (last_written ex_writes) [''b'', ''a''] = 100"
    "on_bus (land (last_written ex_writes) [(''a'', 0), (''b'', 0)]) [''b'', ''a''] = 0"
    by (simp_all add: on_bus_def land_def ex_writes_def last_share_def)
  with plan_no_overlap [OF ex_plan, of 1] show ?thesis by simp
qed

text \<open>
  A tick's plan writes every child at most once and leaves out none that it ever wrote: a
  child is left out only when its growth is held back and it was never written. Growth is held
  back for at most one tick: in the tick after, every child that changed is written its new
  share. A child whose share did not change is written what it last got.
\<close>

lemma plan_covers:
  assumes "make_plan ws shares = (Some p, ws')" and "distinct (map fst shares)"
  shows "distinct (map fst (p_writes p)) \<and>
    (\<forall>(i, v) \<in> set (p_writes p). (i, v) \<in> set shares \<or> (i \<in> fst ` set shares \<and> last_written ws i = Some v)) \<and>
    (\<forall>i \<in> fst ` set shares. last_written ws i \<noteq> None \<longrightarrow> i \<in> fst ` set (p_writes p)) \<and>
    (\<not> deferred_growth ws' \<longrightarrow> fst ` set (p_writes p) = fst ` set shares) \<and>
    (deferred_growth ws \<and> (\<exists>c \<in> set shares. is_changed (last_written ws) c) \<longrightarrow>
      \<not> deferred_growth ws' \<and> (\<forall>c \<in> set shares. is_changed (last_written ws) c \<longrightarrow> c \<in> set (p_writes p)))"
proof -
  obtain batch where w: "p_writes p = batch @ reasserts (last_written ws) (map fst shares) batch"
    and sub: "set batch \<subseteq> set (filter (is_changed (last_written ws)) shares)"
    and d: "distinct (map fst batch)"
    and all: "\<not> deferred_growth ws' \<Longrightarrow> set batch = set (filter (is_changed (last_written ws)) shares)"
    using make_plan_cases [OF assms] by metis
  have 1: "distinct (map fst (p_writes p))"
    using w d distinct_reasserts [OF assms(2), of "last_written ws" batch] by (force simp: in_reasserts)
  have 2: "\<forall>(i, v) \<in> set (p_writes p). (i, v) \<in> set shares \<or> (i \<in> fst ` set shares \<and> last_written ws i = Some v)"
    using w sub by (auto simp: in_reasserts)
  have 3: "i \<in> fst ` set (p_writes p)" if "i \<in> fst ` set shares" "last_written ws i = Some v" for i v
    using that w in_reasserts [of i v "last_written ws" "map fst shares" batch] by force
  have 4: "fst ` set (p_writes p) = fst ` set shares" if "\<not> deferred_growth ws'"
  proof
    show "fst ` set (p_writes p) \<subseteq> fst ` set shares" using 2 by force
    have "c \<in> set batch" if "c \<in> set shares" "last_written ws (fst c) = None" for c
      using all [OF \<open>\<not> deferred_growth ws'\<close>] that by (simp add: is_changed_def)
    then show "fst ` set shares \<subseteq> fst ` set (p_writes p)"
      using 3 w by (fastforce intro: rev_image_eqI)
  qed
  have 5: "\<not> deferred_growth ws'" if "deferred_growth ws" "\<exists>c \<in> set shares. is_changed (last_written ws) c"
    using assms(1) that
    by (auto simp: make_plan_def Let_def handoff_batch_def filter_empty_conv split: if_splits prod.splits)
  have 6: "c \<in> set (p_writes p)" if "\<not> deferred_growth ws'" "c \<in> set shares" "is_changed (last_written ws) c" for c
    using all w that by simp
  have 3: "\<forall>i \<in> fst ` set shares. last_written ws i \<noteq> None \<longrightarrow> i \<in> fst ` set (p_writes p)"
    using 3 by blast
  from 1 2 3 4 5 6 show ?thesis by blast
qed

lemma land_lookup: "distinct (map fst ws) \<Longrightarrow> (i, v) \<in> set ws \<Longrightarrow> land was ws i = Some v"
  by (simp add: land_def map_add_Some_iff rev_map [symmetric])

text \<open>
  Once a tick's writes have landed, the children hold no more than before it, or no more than the
  shares they were to get, a rounding step each aside.
\<close>

lemma on_bus_after_plan:
  assumes "make_plan ws shares = (Some p, ws')" and "distinct (map fst shares)"
  shows "on_bus (land (last_written ws) (p_writes p)) (map fst shares)
    \<le> max (on_bus (last_written ws) (map fst shares)) ((\<Sum>(i, s) \<leftarrow> shares. \<bar>s\<bar>) + length shares * EPSILON)"
proof (rule make_plan_cases [OF assms])
  fix batch
  let ?was = "last_written ws" and ?ids = "map fst shares"
  let ?rs = "reasserts ?was ?ids batch"
  assume w: "p_writes p = batch @ ?rs" and sub: "set batch \<subseteq> set (filter (is_changed ?was) shares)"
    and db: "distinct (map fst batch)"
    and full: "\<not> deferred_growth ws' \<Longrightarrow> set batch = set (filter (is_changed ?was) shares)"
    and part: "batch \<noteq> [] \<Longrightarrow> deferred_growth ws' \<Longrightarrow> \<not> deferred_growth ws \<and> (\<forall>c \<in> set batch. growth ?was c < 0)"
  have d: "distinct (map fst (p_writes p))"
    using db distinct_reasserts [OF assms(2), of ?was batch] by (force simp: w in_reasserts)
  have ids: "fst ` set (p_writes p) \<subseteq> set ?ids"
    using sub by (auto simp: w in_reasserts)
  show ?thesis
  proof (cases "deferred_growth ws'")
    case True
    have "(\<Sum>c \<leftarrow> p_writes p. growth ?was c) \<le> 0"
      using part [OF _ True] reasserts_growth [of _ ?was ?ids batch] by (intro sum_list_nonpos) (auto simp: w, force)
    with on_bus_land [OF assms(2) d ids, of ?was] show ?thesis by simp
  next
    case False
    have "last_share (land ?was (p_writes p)) (fst c) \<le> \<bar>snd c\<bar> + EPSILON" if c: "c \<in> set shares" for c
    proof (cases "is_changed ?was c")
      case True
      then have "c \<in> set (p_writes p)" using full [OF False] c by (simp add: w)
      then show ?thesis using land_lookup [OF d, of "fst c" "snd c" ?was] less_imp_le [OF EPSILON_pos] by (simp add: last_share_def)
    next
      case unchanged: False
      then obtain prev where prev: "?was (fst c) = Some prev" "\<bar>snd c - prev\<bar> < EPSILON"
        by (auto simp: is_changed_def split: option.splits)
      have "c' = c" if "c' \<in> set shares" "fst c' = fst c" for c'
        using that c assms(2) by (metis eq_key_imp_eq_value prod.collapse)
      then have "fst c \<notin> fst ` set batch" using sub unchanged by force
      with prev c have "(fst c, prev) \<in> set (p_writes p)" by (simp add: w in_reasserts)
      with land_lookup [OF d] prev show ?thesis by (force simp: last_share_def)
    qed
    then have "(\<Sum>c \<leftarrow> shares. last_share (land ?was (p_writes p)) (fst c)) \<le> (\<Sum>c \<leftarrow> shares. \<bar>snd c\<bar> + EPSILON)"
      by (intro sum_list_mono) simp
    also have "\<dots> = (\<Sum>(i, s) \<leftarrow> shares. \<bar>s\<bar>) + length shares * EPSILON"
      by (simp add: sum_list_addf sum_list_triv case_prod_unfold)
    finally show ?thesis by (simp add: on_bus_def comp_def)
  qed
qed

section \<open>The gate's life\<close>

datatype gate_event = Take instant | HoldBack | Landed instant

fun gate_step :: "poi_gate \<Rightarrow> gate_event \<Rightarrow> poi_gate" where
  "gate_step g (Take received_at) = snd (gate_take g received_at)"
| "gate_step g HoldBack = growth_deferred g"
| "gate_step g (Landed now) = growth_written now g"

definition gate_ok :: "poi_gate \<Rightarrow> bool" where
  "gate_ok g \<longleftrightarrow> (\<forall>w seen. handoff g = GrowthWritten w seen \<longrightarrow> seen < READINGS_AFTER_GROWTH)"

lemma gate_step_ok: "gate_ok g \<Longrightarrow> gate_ok (gate_step g e)"
  by (cases e) (auto simp: gate_ok_def gate_take_def growth_deferred_def growth_written_def Let_def
      READINGS_AFTER_GROWTH_def split: handoff.splits if_splits)

interpretation gate_machine: stepped gate_step "\<lambda>_. True" gate_ok
  by unfold_locales (rule gate_step_ok)

text \<open>The readings received after \<open>w\<close> that no earlier tick had used.\<close>

fun fresh_after :: "instant \<Rightarrow> instant option \<Rightarrow> instant list \<Rightarrow> nat" where
  "fresh_after w used [] = 0"
| "fresh_after w used (r # rs) = (if used \<noteq> Some r \<and> r > w then 1 else 0) + fresh_after w (Some r) rs"

lemma take_idle: "handoff g = Idle \<Longrightarrow> handoff (foldl gate_step g (map Take rs)) = Idle"
  by (induction rs arbitrary: g) (auto simp: gate_take_def Let_def)

lemma take_growth_written:
  assumes "handoff g = GrowthWritten w seen" and "seen < READINGS_AFTER_GROWTH"
  shows "handoff (foldl gate_step g (map Take rs)) = Idle \<longleftrightarrow> READINGS_AFTER_GROWTH \<le> seen + fresh_after w (last_used g) rs"
  using assms
proof (induction rs arbitrary: g seen)
  case Nil
  then show ?case by simp
next
  case (Cons r rs)
  let ?g = "snd (gate_take g r)"
  have used: "last_used ?g = Some r" by (simp add: gate_take_def Let_def)
  show ?case
  proof (cases "last_used g \<noteq> Some r \<and> r > w")
    case False
    then have "handoff ?g = GrowthWritten w seen"
      using Cons.prems(1) by (auto simp: gate_take_def Let_def)
    from Cons.IH [OF this Cons.prems(2)] False used show ?thesis by auto
  next
    case True
    show ?thesis
    proof (cases "seen + 1 \<ge> READINGS_AFTER_GROWTH")
      case last: True
      then have "handoff ?g = Idle"
        using True Cons.prems(1) by (simp add: gate_take_def Let_def)
      from take_idle [OF this, of rs] True last show ?thesis by simp
    next
      case more: False
      then have "handoff ?g = GrowthWritten w (seen + 1)"
        using True Cons.prems(1) by (simp add: gate_take_def Let_def)
      from Cons.IH [OF this] more True used show ?thesis by simp
    qed
  qed
qed

text \<open>
  The approach stays held while a handoff is in flight: in every state the gate can reach,
  once the held-back growth has been written, the hold lifts exactly when two readings have come
  in after that write that no earlier tick had used; and a reading counts as fresh exactly when
  it is not the one the tick before used.
\<close>

lemma gate_holds_until_settled:
  assumes "g = foldl gate_step poi_gate_new es" and "handoff g = GrowthWritten w seen"
  shows "(handoff (foldl gate_step g (map Take rs)) = Idle \<longleftrightarrow> 2 \<le> seen + fresh_after w (last_used g) rs) \<and>
    (fst (gate_take g r) = (last_used g \<noteq> Some r, handoff (snd (gate_take g r)) \<noteq> Idle))"
proof -
  have "gate_ok poi_gate_new" by (simp add: gate_ok_def poi_gate_new_def)
  from gate_machine.run_inv [OF this, of es] assms have "seen < READINGS_AFTER_GROWTH"
    by (simp add: gate_ok_def)
  from take_growth_written [OF assms(2) this] show ?thesis
    by (simp add: READINGS_AFTER_GROWTH_def gate_take_def Let_def)
qed

end
