(* ===== verification/Envelope_Task.thy ===== *)
theory Envelope_Task
  imports Dispatch Envelope_Control Envelope_Writes
begin

text \<open>
  One envelope task per distribute command (\<^verbatim>\<open>envelope/task.rs\<close>): the recharge request
  (\<^verbatim>\<open>envelope/recharge.rs\<close>), ceasing to energize (\<^verbatim>\<open>envelope/energize.rs\<close>), one tick of the
  task, and the spare discharge of a site's modules (\<^verbatim>\<open>envelope/storage_spare.rs\<close>). The task's
  state is its controller, built on the first tick with every input, and its write state.
\<close>

section \<open>Requests and gates\<close>

definition cached_number :: "input_cache \<Rightarrow> string \<Rightarrow> f64 option" where
  "cached_number cache topic = (case cache topic of None \<Rightarrow> None | Some (v, _) \<Rightarrow> as_number v)"

definition recharge_requested_w :: "protocol_binding \<Rightarrow> string \<Rightarrow> f64 \<Rightarrow> string \<Rightarrow> input_cache \<Rightarrow> f64" where
  "recharge_requested_w binding device_id requested_w site_id cache = (case binding of
     Distribute d \<Rightarrow>
       (case (d_readiness_soc_percent d, d_recharge_power_w d) of
          (Some readiness, Some recharge_w) \<Rightarrow>
            (case (cached_number cache (''sites/'' @ site_id @ ''/devices/der_dispatch/measurements/event_active/none''),
                   cached_number cache (''sites/'' @ site_id @ ''/devices/'' @ device_id @ ''/measurements/state_of_charge/percent'')) of
               (Some event, Some soc) \<Rightarrow>
                 if requested_w = 0 \<and> event < 1 / 2 \<and> soc < readiness then - recharge_w else requested_w
             | _ \<Rightarrow> requested_w)
        | _ \<Rightarrow> requested_w)
   | _ \<Rightarrow> requested_w)"

definition energize_topic :: "string \<Rightarrow> string" where
  "energize_topic site_id = ''sites/'' @ site_id @ ''/devices/der_dispatch/measurements/energize_enabled/none''"

definition energize_target_w :: "f64 \<Rightarrow> string \<Rightarrow> input_cache \<Rightarrow> f64" where
  "energize_target_w target_w site_id cache = (case cached_number cache (energize_topic site_id) of
     Some energize \<Rightarrow> if energize < 1 / 2 then 0 else target_w
   | None \<Rightarrow> target_w)"

section \<open>The task\<close>

record envelope_task_config =
  tc_device_id :: string
  tc_channel_key :: string
  tc_guard :: "envelope_guard option"
  tc_binding :: protocol_binding

record task =
  t_controller :: "controller option"
  t_writes :: write_state

definition task_new :: task where
  "task_new = \<lparr>t_controller = None, t_writes = write_state_new\<rparr>"

definition site_topic :: "string \<Rightarrow> string \<Rightarrow> string" where
  "site_topic site_id raw = replace_all ''{site_id}'' site_id raw"

text \<open>
  The target of a guarded module: no value holds, with the task as it was. The reading at the
  point of interconnection is taken by the gate before the controller runs.
\<close>

definition poi_reading :: "envelope_guard \<Rightarrow> string \<Rightarrow> input_cache \<Rightarrow> (f64 \<times> instant) option option" where
  "poi_reading guard site_id cache = (case eg_poi_active_power_topic guard of
     None \<Rightarrow> Some None
   | Some topic \<Rightarrow>
       (case cache (site_topic site_id topic) of
          None \<Rightarrow> None
        | Some (v, received) \<Rightarrow> map_option (\<lambda>p. Some (p, received)) (as_number v)))"

definition guarded_target :: "envelope_task_config \<Rightarrow> envelope_guard \<Rightarrow> instant \<Rightarrow> duration \<Rightarrow> f64 \<Rightarrow> string \<Rightarrow> input_cache \<Rightarrow> task \<Rightarrow> (f64 \<times> task) option outcome" where
  "guarded_target cfg guard now dt requested_setpoint site_id cache t =
     (let requested = recharge_requested_w (tc_binding cfg) (tc_device_id cfg) requested_setpoint site_id cache in
      case cached_number cache (site_topic site_id (eg_active_power_topic guard)) of
        None \<Rightarrow> Ok None
      | Some active_power \<Rightarrow>
      (case poi_reading guard site_id cache of
        None \<Rightarrow> Ok None
      | Some poi \<Rightarrow>
          let ((poi_fresh, hold_approach), g) =
                (case poi of
                   Some (_, received) \<Rightarrow> gate_take (gate (t_writes t)) received
                 | None \<Rightarrow> ((True, False), gate (t_writes t)));
              t = t\<lparr>t_writes := (t_writes t)\<lparr>gate := g\<rparr>\<rparr>;
              ctrl = (case t_controller t of Some c \<Rightarrow> c | None \<Rightarrow> controller_new (eg_control guard) active_power)
          in
          if (case poi of Some (_, received) \<Rightarrow> elapsed now received > STALE_AFTER | None \<Rightarrow> False) then
            (let (v, ctrl) = ramp_to_zero ctrl guard dt in Ok (Some (v, t\<lparr>t_controller := Some ctrl\<rparr>)))
          else
            bind_outcome (tick ctrl
              \<lparr>et_import_limit = cached_number cache (site_topic site_id (eg_import_limit_topic guard)),
               et_export_limit = cached_number cache (site_topic site_id (eg_export_limit_topic guard)),
               et_active_power = active_power, et_requested_setpoint = requested,
               et_poi_active_power = map_option fst poi, et_poi_fresh = poi_fresh, et_hold_approach = hold_approach,
               et_power_min = eg_power_min guard, et_power_max = eg_power_max guard, et_dt = dt\<rparr>)
            (\<lambda>(_, ctrl). Ok (Some (current_output ctrl, t\<lparr>t_controller := Some ctrl\<rparr>)))))"

definition module_target :: "envelope_task_config \<Rightarrow> instant \<Rightarrow> duration \<Rightarrow> f64 \<Rightarrow> string \<Rightarrow> input_cache \<Rightarrow> task \<Rightarrow> (f64 \<times> task) option outcome" where
  "module_target cfg now dt requested_setpoint site_id cache t = (case tc_guard cfg of
     Some guard \<Rightarrow> guarded_target cfg guard now dt requested_setpoint site_id cache t
   | None \<Rightarrow> Ok (Some (requested_setpoint, t)))"

definition share_sum :: "shares \<Rightarrow> f64" where
  "share_sum shares = (\<Sum>(_, s) \<leftarrow> shares. s)"

definition sync_task :: "f64 \<Rightarrow> f64 \<Rightarrow> task \<Rightarrow> task" where
  "sync_task target delivered t = (case t_controller t of
     Some c \<Rightarrow> if \<bar>delivered - target\<bar> > 1 then t\<lparr>t_controller := Some (sync_to_delivered delivered c)\<rparr> else t
   | None \<Rightarrow> t)"

text \<open>What a tick decides to write, and the task it leaves behind until the writes land.\<close>

definition plan_tick :: "envelope_task_config \<Rightarrow> instant \<Rightarrow> duration \<Rightarrow> f64 \<Rightarrow> string \<Rightarrow> input_cache \<Rightarrow> string set \<Rightarrow> task \<Rightarrow> (plan option \<times> task) outcome" where
  "plan_tick cfg now dt requested_setpoint site_id cache locked t =
     bind_outcome (module_target cfg now dt requested_setpoint site_id cache t) (\<lambda>r. case r of
       None \<Rightarrow> Ok (None, t)
     | Some (target, t) \<Rightarrow>
         let target = energize_target_w target site_id cache in
         (case tc_binding cfg of
            Distribute d \<Rightarrow>
              (case compute_shares now d target site_id cache locked of
                 Err e \<Rightarrow> Ok (None, t)
               | Abort a \<Rightarrow> Abort a
               | Ok shares \<Rightarrow>
                   let t = sync_task target (share_sum shares) t;
                       (p, ws) = make_plan (t_writes t) shares
                   in Ok (p, t\<lparr>t_writes := ws\<rparr>))
          | _ \<Rightarrow> Ok (None, t)))"

definition tick_once :: "world \<Rightarrow> envelope_task_config \<Rightarrow> instant \<Rightarrow> instant \<Rightarrow> duration \<Rightarrow> string \<Rightarrow> input_cache \<Rightarrow> requested \<Rightarrow> devices \<Rightarrow> gateway_credentials option \<Rightarrow> task \<Rightarrow> task act" where
  "tick_once w cfg now landed_at dt site_id cache last_requested dv creds t =
     (let requested_setpoint = (case requested_of last_requested (tc_device_id cfg) (tc_channel_key cfg) of
            Some v \<Rightarrow> v | None \<Rightarrow> 0) in
      bind_act (lift_act (plan_tick cfg now dt requested_setpoint site_id cache (dv_locked dv) t)) (\<lambda>(p, t).
      case p of
        None \<Rightarrow> lift_act (Ok t)
      | Some p \<Rightarrow> (\<lambda>s.
          case write_shares w (p_writes p) (tc_channel_key cfg) (dv_channels dv) (dv_trust dv) creds s of
            (Ok _, s') \<Rightarrow> (Ok (t\<lparr>t_writes := landed landed_at p (t_writes t)\<rparr>), s')
          | (Err e, s') \<Rightarrow> (Ok t, s')
          | (Abort a, s') \<Rightarrow> (Abort a, s'))))"

section \<open>Spare discharge\<close>

definition module_spare_w :: "instant \<Rightarrow> distribute_binding \<Rightarrow> string \<Rightarrow> input_cache \<Rightarrow> string set \<Rightarrow> f64" where
  "module_spare_w now m site_id cache locked = (case d_active_power_topic m of
     None \<Rightarrow> 0
   | Some raw \<Rightarrow>
       (case cached_number cache (substitute_site_id raw site_id) of
          None \<Rightarrow> 0
        | Some active_w \<Rightarrow>
            let rated = (case d_power_max m of Some p \<Rightarrow> p | None \<Rightarrow> (\<Sum>c \<leftarrow> d_children m. ca_power_max c));
                deliverable = (case compute_shares now m rated site_id cache locked of
                                 Ok shares \<Rightarrow> share_sum shares | _ \<Rightarrow> 0)
            in max (deliverable - active_w) 0))"

definition spare_w :: "instant \<Rightarrow> distribute_binding list \<Rightarrow> string \<Rightarrow> string \<Rightarrow> input_cache \<Rightarrow> string set \<Rightarrow> f64" where
  "spare_w now modules poi_topic site_id cache locked =
     (\<Sum>m \<leftarrow> filter (\<lambda>m. case d_poi_active_power_topic m of
          Some t \<Rightarrow> substitute_site_id t site_id = poi_topic | None \<Rightarrow> False) modules.
        module_spare_w now m site_id cache locked)"

section \<open>A tick takes effect or holds\<close>

lemma operating_state_of_returns [simp]: "operating_state_of v \<noteq> Abort a"
  by (auto simp: operating_state_of_def operating_state_from_f64_def Let_def bind_outcome_eq_Abort split: option.split)

lemma resolve_child_returns [simp]: "resolve_child now c t site cache \<noteq> Abort a"
  by (auto simp: resolve_child_def bind_outcome_eq_Abort)

text \<open>Computing shares fails with an error or succeeds; it does not panic.\<close>

lemma compute_shares_returns [simp]: "compute_shares now b t site cache locked \<noteq> Abort a"
proof -
  have "split_children now b t site cache locked \<noteq> Abort a" for a
    unfolding split_children_def by (rule collect_outcome_returns) (simp add: bind_outcome_eq_Abort)
  then show ?thesis
    by (auto simp: compute_shares_def bind_outcome_eq_Abort parse_policy_def split: if_splits)
qed

lemma t_writes_sync_task [simp]: "t_writes (sync_task x y t) = t_writes t"
  by (simp add: sync_task_def split: option.split)

text \<open>The target of a guarded module is always found or held; the writes that landed are kept.\<close>

lemma module_target_returns:
  "\<exists>r. module_target cfg now dt req site cache t = Ok r \<and>
     (\<forall>v t1. r = Some (v, t1) \<longrightarrow> last_written (t_writes t1) = last_written (t_writes t))"
proof (cases "tc_guard cfg")
  case None
  then show ?thesis by (simp add: module_target_def)
next
  case (Some guard)
  show ?thesis
    by (cases "cached_number cache (site_topic site (eg_active_power_topic guard))"; cases "poi_reading guard site cache")
      (auto simp: Some module_target_def guarded_target_def Let_def tick_result case_prod_unfold split: option.splits)
qed

lemma plan_tick_cases:
  assumes "plan_tick cfg now dt req site cache locked t = Ok (Some p, t')"
  obtains v t1 d shares where "module_target cfg now dt req site cache t = Ok (Some (v, t1))"
    and "tc_binding cfg = Distribute d"
    and "compute_shares now d (energize_target_w v site cache) site cache locked = Ok shares"
    and "make_plan (t_writes t1) shares = (Some p, t_writes t')"
    and "last_written (t_writes t1) = last_written (t_writes t)"
proof -
  from assms obtain v t1 where m: "module_target cfg now dt req site cache t = Ok (Some (v, t1))"
    by (auto simp: plan_tick_def split: option.splits)
  moreover have "last_written (t_writes t1) = last_written (t_writes t)"
    using module_target_returns [of cfg now dt req site cache t] m by auto
  moreover obtain d where d: "tc_binding cfg = Distribute d"
    using assms m by (auto simp: plan_tick_def Let_def split: protocol_binding.splits)
  moreover obtain shares where "compute_shares now d (energize_target_w v site cache) site cache locked = Ok shares"
    using assms m d by (auto simp: plan_tick_def Let_def split: outcome.splits)
  moreover from this have "make_plan (t_writes t1) shares = (Some p, t_writes t')"
    using assms m d by (auto simp: plan_tick_def Let_def split: prod.splits)
  ultimately show ?thesis using that by blast
qed

text \<open>
  (C36) A tick never panics, whatever the cache, the spec and the controller hold, and a guarded
  module without a reading of its own power, or without one of the meter it servos on, holds: no
  write is planned and the task is left as it was.
\<close>

theorem plan_tick_holds:
  "(\<exists>p t'. plan_tick cfg now dt req site cache locked t = Ok (p, t')) \<and>
   (\<forall>guard. tc_guard cfg = Some guard \<and>
      (cached_number cache (site_topic site (eg_active_power_topic guard)) = None \<or> poi_reading guard site cache = None) \<longrightarrow>
    plan_tick cfg now dt req site cache locked t = Ok (None, t))"
proof -
  from module_target_returns [of cfg now dt req site cache t] obtain r where
    r: "module_target cfg now dt req site cache t = Ok r" by blast
  have "\<exists>p t'. plan_tick cfg now dt req site cache locked t = Ok (p, t')"
    by (auto simp: plan_tick_def r Let_def split: option.split protocol_binding.split outcome.split prod.split)
  moreover have "plan_tick cfg now dt req site cache locked t = Ok (None, t)"
    if "tc_guard cfg = Some guard"
      "cached_number cache (site_topic site (eg_active_power_topic guard)) = None \<or> poi_reading guard site cache = None" for guard
    using that by (auto simp: plan_tick_def module_target_def guarded_target_def Let_def split: option.splits)
  ultimately show ?thesis by blast
qed

section \<open>Lockout on the envelope path\<close>

lemma plan_ids:
  assumes "make_plan ws shares = (Some p, ws')"
  shows "fst ` set (p_writes p) \<subseteq> fst ` set shares"
proof -
  let ?changed = "filter (is_changed (last_written ws)) shares"
  obtain batch deferred where b: "handoff_batch (reductions_first ?changed (last_written ws))
      (last_written ws) (deferred_growth ws) = (batch, deferred)" by fastforce
  have ids: "fst ` set (xs @ reasserts (last_written ws) (map fst shares) xs) \<subseteq> fst ` set shares" if "set xs \<subseteq> set shares" for xs
    using that by (auto simp: in_reasserts)
  have "p_writes p = (if ?changed = [] then [] else batch) @
      reasserts (last_written ws) (map fst shares) (if ?changed = [] then [] else batch)"
    using assms b by (auto simp: make_plan_def Let_def split: if_splits)
  moreover have "set (if ?changed = [] then [] else batch) \<subseteq> set shares"
    using handoff_batch_cases(1) [OF b] by auto
  ultimately show ?thesis using ids by metis
qed

lemma plan_tick_unlocked:
  assumes "plan_tick cfg now dt req site cache locked t = Ok (Some p, t')"
  shows "\<forall>(d, v) \<in> set (p_writes p). d \<notin> locked"
proof (rule plan_tick_cases [OF assms])
  fix v t1 d shares
  assume c: "compute_shares now d (energize_target_w v site cache) site cache locked = Ok shares"
    and m: "make_plan (t_writes t1) shares = (Some p, t_writes t')"
  have "i \<notin> locked" if "(i, x) \<in> set (p_writes p)" for i x
  proof -
    from that plan_ids [OF m] have "i \<in> fst ` set shares" by force
    then obtain y where "(i, y) \<in> set shares" by force
    then show ?thesis by (rule compute_shares_unlocked [OF c])
  qed
  then show ?thesis by blast
qed

lemma sends_only_logged:
  assumes "sends_only P m"
  shows "sends_only P (\<lambda>s. case m s of (Ok _, s') \<Rightarrow> (Ok x, s') | (Err e, s') \<Rightarrow> (Ok y, s') | (Abort a, s') \<Rightarrow> (Abort a, s'))"
  using assms by (fastforce simp: sends_only_def act_keeps_def split: prod.splits outcome.splits)

lemma tick_once_sends_only:
  "sends_only (permitted (dv_channels dv) (dv_trust dv) (dv_locked dv) creds)
     (tick_once w cfg now landed_at dt site cache req dv creds t)"
  unfolding tick_once_def Let_def
proof (rule sends_only_bind_lift, clarify, goal_cases)
  case (1 p t1)
  show ?case
  proof (cases p)
    case None
    then show ?thesis by simp
  next
    case (Some p')
    have "\<forall>(d, v) \<in> set (p_writes p'). d \<notin> dv_locked dv"
      by (rule plan_tick_unlocked [OF 1 [unfolded Some]])
    then show ?thesis
      using Some by (simp add: sends_only_logged write_shares_permitted)
  qed
qed

text \<open>
  The envelope path keeps lockouts too: whatever a tick sends goes to a device that is not
  locked out, at its own endpoint, over the security its trust entry asks for, and the tick itself
  ends without an error, a failed write included.
\<close>

lemma tick_once_respects_lockout:
  assumes "sessions_ok s" and "tick_once w cfg now landed_at dt site cache req dv creds t s = (r, s')"
  shows "sessions_ok s' \<and>
    (\<exists>l. sent s' = sent s @ l \<and> (\<forall>x \<in> set l. permitted (dv_channels dv) (dv_trust dv) (dv_locked dv) creds x))"
  using sends_onlyD [OF tick_once_sends_only assms] .

section \<open>Ceasing to energize\<close>

lemma allocate_zero: "(i, s) \<in> set (allocate 0 cs p) \<Longrightarrow> s = 0"
  by (auto simp: allocate_def Let_def alloc_loop_stop less_imp_le not_less set_zip split: if_splits)

lemma compute_shares_zero:
  assumes "compute_shares now b 0 site cache locked = Ok shares" and "(i, s) \<in> set shares"
  shows "s = 0"
proof -
  have "s = 0" if "(i, s) \<in> set (foldl push_missing xs cs)" "\<forall>(j, x) \<in> set xs. x = 0" for xs cs
    using that by (induction cs arbitrary: xs) (auto simp: push_missing_def split: if_splits)
  with assms show ?thesis by (auto simp: compute_shares_def dest: allocate_zero)
qed

text \<open>When every share is 0 W nothing grows, so nothing is held back.\<close>

lemma plan_zero:
  assumes "make_plan ws shares = (Some p, ws')" and "\<forall>(i, s) \<in> set shares. s = 0"
  shows "\<forall>(i, v) \<in> set (p_writes p). \<bar>v\<bar> < EPSILON" and "fst ` set (p_writes p) = fst ` set shares"
proof -
  let ?was = "last_written ws"
  let ?changed = "filter (is_changed ?was) shares"
  have "growth ?was c \<le> 0" if "c \<in> set (reductions_first ?changed ?was)" for c
    using that assms(2) by (force simp: growth_def last_share_def reductions_first_def split: option.split)
  then have "handoff_batch (reductions_first ?changed ?was) ?was held = (reductions_first ?changed ?was, False)" for held
    by (force simp: handoff_batch_def)
  moreover define batch where "batch = reductions_first ?changed ?was"
  ultimately have w: "p_writes p = batch @ reasserts ?was (map fst shares) batch"
    using assms(1) by (auto simp: make_plan_def Let_def reductions_first_def split: if_splits)
  have b: "set batch = set ?changed" by (simp add: batch_def reductions_first_def)
  have kept: "\<bar>v\<bar> < EPSILON" if "i \<in> fst ` set shares" "i \<notin> fst ` set batch" "?was i = Some v" for i v
    using that b assms(2) by (force simp: is_changed_def)
  show "\<forall>(i, v) \<in> set (p_writes p). \<bar>v\<bar> < EPSILON"
  proof (clarify)
    fix i v assume "(i, v) \<in> set (p_writes p)"
    then consider "(i, v) \<in> set shares" | "i \<in> fst ` set shares" "i \<notin> fst ` set batch" "?was i = Some v"
      using b by (auto simp: w in_reasserts)
    then show "\<bar>v\<bar> < EPSILON" using assms(2) kept by cases auto
  qed
  show "fst ` set (p_writes p) = fst ` set shares"
  proof (intro equalityI plan_ids [OF assms(1)] subsetI)
    fix i assume i: "i \<in> fst ` set shares"
    show "i \<in> fst ` set (p_writes p)"
    proof (cases "i \<in> fst ` set batch")
      case False
      then obtain v where "?was i = Some v" using i b by (force simp: is_changed_def split: option.splits)
      with False i have "(i, v) \<in> set (p_writes p)" by (simp add: w in_reasserts)
      then show ?thesis by force
    qed (force simp: w)
  qed
qed

text \<open>
  (C24) While the DER must cease to energize, every write a tick plans is 0 W (to a rounding step),
  to every child that is not locked out and no other, whatever was requested, whatever the
  controller and the meter say: nothing is held back for a later tick.
\<close>

theorem ceased_writes_zero:
  assumes "cached_number cache (energize_topic site) = Some x" and "x < 1 / 2"
    and "plan_tick cfg now dt req site cache locked t = Ok (Some p, t')"
  shows "(\<forall>(i, v) \<in> set (p_writes p). \<bar>v\<bar> < EPSILON) \<and>
    (\<exists>d. tc_binding cfg = Distribute d \<and>
      (distinct (child_ids d) \<longrightarrow> fst ` set (p_writes p) = set (child_ids d) - locked))"
proof (rule plan_tick_cases [OF assms(3)])
  fix v t1 d shares
  assume "compute_shares now d (energize_target_w v site cache) site cache locked = Ok shares"
    and m: "make_plan (t_writes t1) shares = (Some p, t_writes t')" and d: "tc_binding cfg = Distribute d"
  then have sh: "compute_shares now d 0 site cache locked = Ok shares"
    using assms(1,2) by (simp add: energize_target_w_def)
  then have "\<forall>(i, s) \<in> set shares. s = 0" by (auto dest: compute_shares_zero)
  note z = plan_zero [OF m this]
  have "fst ` set shares = set (child_ids d) - locked" if "distinct (child_ids d)"
    using share_ids [OF sh that] .
  with z d show ?thesis by auto
qed

section \<open>A violated limit, down to the children\<close>

lemma energize_target_le: "\<bar>energize_target_w v site cache\<bar> \<le> \<bar>v\<bar>"
  by (simp add: energize_target_w_def split: option.split)

text \<open>Without a meter at the point of interconnection, a tick past a limit aims within both.\<close>

lemma violated_target:
  assumes "tc_guard cfg = Some g" and "eg_poi_active_power_topic g = None"
    and "cached_number cache (site_topic site (eg_active_power_topic g)) = Some a"
    and "cached_number cache (site_topic site (eg_export_limit_topic g)) = Some e"
    and "cached_number cache (site_topic site (eg_import_limit_topic g)) = Some i"
    and "0 \<le> e" and "0 \<le> i" and "eg_power_min g \<le> 0" and "0 \<le> eg_power_max g"
    and "e \<le> a \<or> a \<le> - i"
    and "module_target cfg now dt req site cache t = Ok (Some (v, t1))"
  shows "- i - EPSILON < v \<and> v < e + EPSILON"
proof -
  from assms(1-5,11) obtain c input w c' where t: "tick c input = Ok (w, c')" and v: "v = current_output c'"
    and input: "et_poi_active_power input = None" "et_export_limit input = Some e" "et_import_limit input = Some i"
      "et_active_power input = a" "et_power_min input = eg_power_min g" "et_power_max input = eg_power_max g"
    by (auto simp: module_target_def guarded_target_def poi_reading_def Let_def)
  from violated_output [OF input(1-3) assms(6,7) _ _ _ t] assms(8-10) input v show ?thesis by auto
qed

lemma on_bus_mset: "mset xs = mset ys \<Longrightarrow> on_bus was xs = on_bus was ys"
  unfolding on_bus_def by (metis mset_map sum_mset_sum_list)


section \<open>An example\<close>

text \<open>A guarded module with three racks: 90 W against an export limit of 20 W.\<close>

definition ex_guard :: envelope_guard where
  "ex_guard = \<lparr>eg_control = ex_config, eg_power_min = - 100, eg_power_max = 100, eg_import_limit_topic = ''imp'',
     eg_export_limit_topic = ''exp'', eg_active_power_topic = ''act'', eg_poi_active_power_topic = None\<rparr>"

definition ex_task_config :: envelope_task_config where
  "ex_task_config = \<lparr>tc_device_id = ''m'', tc_channel_key = ''set_active_power'', tc_guard = Some ex_guard,
     tc_binding = Distribute ex_module\<rparr>"

definition ex_task_cache :: "bool \<Rightarrow> input_cache" where
  "ex_task_cache energize = ex_cache(''act'' \<mapsto> (JNum 90, secs 100), ''exp'' \<mapsto> (JNum 20, secs 100),
     ''imp'' \<mapsto> (JNum 1000, secs 100), energize_topic ''s'' \<mapsto> (JBool energize, secs 100))"

lemma ex_task_lookup:
  "cached_number (ex_task_cache b) (site_topic ''s'' ''act'') = Some 90"
  "cached_number (ex_task_cache b) (site_topic ''s'' ''exp'') = Some 20"
  "cached_number (ex_task_cache b) (site_topic ''s'' ''imp'') = Some 1000"
  "cached_number (ex_task_cache b) (energize_topic ''s'') = Some (if b then 1 else 0)"
  by (simp_all add: cached_number_def ex_task_cache_def site_topic_def energize_topic_def)

lemma ex_task_shares:
  "\<exists>shares. compute_shares (secs 101) ex_module x ''s'' (ex_task_cache b) {} = Ok shares \<and> shares \<noteq> []"
proof -
  have "\<exists>shares. compute_shares (secs 101) ex_module x ''s'' (ex_task_cache b) {} = Ok shares"
    by (simp add: compute_shares_def parse_policy_def split_children_def ex_module_def ex_child_def ex_cache_def resolve_child_def
        elapsed_def STALE_AFTER_def secs_def NANOS_def operating_state_of_def ex_task_cache_def energize_topic_def)
  then obtain shares where sh: "compute_shares (secs 101) ex_module x ''s'' (ex_task_cache b) {} = Ok shares" ..
  from share_ids [OF this ex_distinct] have "shares \<noteq> []"
    by (auto simp: child_ids_def ex_module_def)
  with sh show ?thesis by blast
qed

lemma make_plan_first: "shares \<noteq> [] \<Longrightarrow> \<exists>p ws. make_plan write_state_new shares = (Some p, ws)"
  by (auto simp: make_plan_def Let_def write_state_new_def is_changed_def handoff_batch_def material_shrink_def
      growth_def last_share_def HANDOFF_MIN_FRACTION_def reductions_first_def dest: arg_cong [of _ _ length])

lemma ex_plan_tick:
  "\<exists>p t'. plan_tick ex_task_config (secs 101) (secs 2) 80 ''s'' (ex_task_cache b) {} task_new = Ok (Some p, t')"
proof -
  have "poi_reading ex_guard ''s'' (ex_task_cache b) = Some None"
    by (simp add: poi_reading_def ex_guard_def)
  then obtain v t1 where m: "module_target ex_task_config (secs 101) (secs 2) 80 ''s'' (ex_task_cache b) task_new = Ok (Some (v, t1))"
    and w: "t_writes t1 = write_state_new"
    by (auto simp: module_target_def guarded_target_def ex_task_config_def ex_guard_def ex_task_lookup tick_result task_new_def
        Let_def case_prod_unfold)
  obtain shares where "compute_shares (secs 101) ex_module (energize_target_w v ''s'' (ex_task_cache b)) ''s'' (ex_task_cache b) {} = Ok shares"
    and "shares \<noteq> []" using ex_task_shares by blast
  moreover from make_plan_first [OF this(2)] obtain p ws where "make_plan write_state_new shares = (Some p, ws)" by blast
  moreover have "tc_binding ex_task_config = Distribute ex_module" by (simp add: ex_task_config_def)
  ultimately show ?thesis
    by (simp add: plan_tick_def m Let_def w del: bind_outcome_eq_Ok)
qed

theorem plan_tick_holds_witness:
  "plan_tick ex_task_config (secs 101) (secs 2) 80 ''s'' ex_cache {} task_new = Ok (None, task_new)"
proof -
  have "tc_guard ex_task_config = Some ex_guard" by (simp add: ex_task_config_def)
  moreover have "cached_number ex_cache (site_topic ''s'' (eg_active_power_topic ex_guard)) = None"
    by (simp add: ex_guard_def site_topic_def cached_number_def ex_cache_def)
  ultimately show ?thesis
    using plan_tick_holds [of ex_task_config "secs 101" "secs 2" 80 "''s''" ex_cache "{}" task_new] by blast
qed

theorem ceased_writes_zero_witness:
  "\<exists>p t'. plan_tick ex_task_config (secs 101) (secs 2) 80 ''s'' (ex_task_cache False) {} task_new = Ok (Some p, t') \<and>
     list_all (\<lambda>(i, v). \<bar>v\<bar> < EPSILON) (p_writes p)"
proof -
  obtain p t' where t: "plan_tick ex_task_config (secs 101) (secs 2) 80 ''s'' (ex_task_cache False) {} task_new = Ok (Some p, t')"
    using ex_plan_tick by blast
  have "cached_number (ex_task_cache False) (energize_topic ''s'') = Some 0" by (simp add: ex_task_lookup)
  from ceased_writes_zero [OF this _ t] t show ?thesis by (auto simp: list_all_iff)
qed


end
