(* ===== verification/Shed.thy ===== *)
theory Shed
  imports Envelope_Task
begin

text \<open>
  The compute shed: the controller that turns an import or export violation into a fleet cap
  percentage (\<^verbatim>\<open>envelope/shed.rs\<close>), and the task that runs one such controller per point of
  interconnection and writes the caps (\<^verbatim>\<open>envelope/shed_task.rs\<close>). The fleet's maximum is a
  divisor and can be zero, so percentages are extended floats until the final clamp; a cap of
  minus infinity, which only a fleet without positive maximum could get, would leave the model's
  finite numbers and is an abort.
\<close>

section \<open>The controller\<close>

definition SHRINK_DEADBAND :: f64 where
  "SHRINK_DEADBAND = 1 / 1000"

definition STEP_PERCENT :: f64 where
  "STEP_PERCENT = 1 / 10"

fun ceil_f64x :: "f64x \<Rightarrow> f64x" where
  "ceil_f64x (Fin x) = Fin (of_int \<lceil>x\<rceil>)"
| "ceil_f64x x = x"

fun round_f64x :: "f64x \<Rightarrow> f64x" where
  "round_f64x (Fin x) = Fin (of_int (rust_round x))"
| "round_f64x x = x"

definition quantize :: "f64 \<Rightarrow> f64x \<Rightarrow> f64x" where
  "quantize current target =
     (let steps = ceil_f64x ((target - Fin current) / Fin STEP_PERCENT) in
      round_f64x ((Fin current + steps * Fin STEP_PERCENT) * Fin 10) / Fin 10)"

record shed_tick =
  st_poi_active_power :: f64
  st_import_limit :: f64
  st_export_limit :: f64
  st_requested_percent :: f64
  st_fleet_max_w :: f64
  st_fleet_min_w :: f64
  st_storage_spare_w :: f64
  st_dt :: duration

record shed_controller =
  sc_config :: envelope_config
  sc_percent :: "f64 option"
  over_for :: duration
  clear_for :: duration
  last_over :: "f64 option"

definition shed_new :: "envelope_config \<Rightarrow> shed_controller" where
  "shed_new config = \<lparr>sc_config = config, sc_percent = None, over_for = 0, clear_for = 0, last_over = None\<rparr>"

definition shed_reset :: "shed_controller \<Rightarrow> shed_controller" where
  "shed_reset c = c\<lparr>over_for := 0, clear_for := 0, last_over := None\<rparr>"

definition confirm :: "f64 \<Rightarrow> shed_controller \<Rightarrow> shed_controller" where
  "confirm percent c = c\<lparr>sc_percent := Some percent\<rparr>"

definition current_percent :: "shed_controller \<Rightarrow> shed_tick \<Rightarrow> f64" where
  "current_percent c t =
     min (case sc_percent c of Some p \<Rightarrow> p | None \<Rightarrow> st_requested_percent t) (st_requested_percent t)"

text \<open>The branch for import over the limit: no target holds, waiting for storage.\<close>

definition shed_over :: "shed_controller \<Rightarrow> shed_tick \<Rightarrow> f64 \<Rightarrow> f64 \<Rightarrow> f64x \<Rightarrow> f64 \<Rightarrow> f64x option \<times> shed_controller" where
  "shed_over c t over current watts_to_percent step =
     (let storage_closing = (case last_over c of
            Some prev \<Rightarrow> prev - over > SHRINK_DEADBAND * st_fleet_max_w t | None \<Rightarrow> False);
          c = c\<lparr>clear_for := 0, last_over := Some over, over_for := over_for c + st_dt t\<rparr>;
          storage_spent = (st_storage_spare_w t < ec_hysteresis_margin (sc_config c) * st_fleet_max_w t);
          cut = Some (Fin current - min_f64x (Fin over * watts_to_percent) (Fin step))
      in if storage_spent then (cut, c)
         else if storage_closing \<and> over_for c < ec_hysteresis_dwell (sc_config c) then (None, c\<lparr>over_for := 0\<rparr>)
         else if over_for c < ec_hysteresis_dwell (sc_config c) then (None, c)
         else (cut, c))"

definition shed_target :: "shed_controller \<Rightarrow> shed_tick \<Rightarrow> f64x option \<times> shed_controller" where
  "shed_target c t =
     (let current = current_percent c t;
          watts_to_percent = Fin 100 / Fin (st_fleet_max_w t);
          step = ec_ramp_rate_per_sec (sc_config c) * 100 * as_secs_f64 (st_dt t);
          over = st_poi_active_power t - st_import_limit t;
          exported = - st_poi_active_power t - st_export_limit t;
          hr = st_import_limit t - st_poi_active_power t - ec_hysteresis_margin (sc_config c) * st_fleet_max_w t
      in if exported > 0 then
           (Some (Fin current + min_f64x (Fin exported * watts_to_percent) (Fin step)), shed_reset c)
         else if over > 0 then shed_over c t over current watts_to_percent step
         else if hr > 0 \<and> current < st_requested_percent t then
           (let c = c\<lparr>over_for := 0, clear_for := clear_for c + st_dt t\<rparr> in
            if clear_for c < ec_hysteresis_dwell (sc_config c) then (None, c)
            else (Some (Fin current + min_f64x (Fin hr * watts_to_percent) (Fin step)), c))
         else (Some (Fin current), shed_reset c))"

fun propose :: "f64 \<Rightarrow> f64x \<Rightarrow> f64 option outcome" where
  "propose current (Fin v) = Ok (if \<bar>v - current\<bar> \<ge> STEP_PERCENT / 2 then Some v else None)"
| "propose current NaN = Ok None"
| "propose current v = Abort NonFinite"

definition shed_step :: "shed_controller \<Rightarrow> shed_tick \<Rightarrow> (f64 option \<times> shed_controller) outcome" where
  "shed_step c t =
     (let current = current_percent c t in
      case shed_target c t of
        (None, c) \<Rightarrow> Ok (None, c)
      | (Some target, c) \<Rightarrow>
          bind_outcome (clamp_f64x (quantize current target)
              (Fin (st_fleet_min_w t) * (Fin 100 / Fin (st_fleet_max_w t))) (Fin (st_requested_percent t))) (\<lambda>v.
          bind_outcome (propose current v) (\<lambda>r. Ok (r, c))))"

section \<open>The task\<close>

record cap_module =
  cm_device_id :: string
  cm_channel_key :: string
  cm_binding :: power_cap_binding

record shed_task_config =
  sh_modules :: "cap_module list"
  sh_control :: envelope_config
  sh_poi_topic :: string
  sh_import_limit_topic :: string
  sh_export_limit_topic :: string
  sh_creds :: "gateway_credentials option"
  sh_storage :: "distribute_binding list"
  sh_site_id :: string

definition from_binding :: "string \<Rightarrow> string \<Rightarrow> power_cap_binding \<Rightarrow> string \<Rightarrow> gateway_credentials option \<Rightarrow> shed_task_config option outcome" where
  "from_binding device_id channel_key b site_id creds =
     (case (pc_ramp_rate_per_sec b, pc_hysteresis_margin b, pc_hysteresis_dwell_secs b) of
        (Some ramp, Some margin, Some dwell_secs) \<Rightarrow>
          bind_outcome (from_secs_f64 dwell_secs) (\<lambda>dwell.
          Ok (case (pc_poi_active_power_topic b, pc_import_limit_topic b, pc_export_limit_topic b) of
                (Some poi, Some imp, Some ex) \<Rightarrow>
                  Some \<lparr>sh_modules = [\<lparr>cm_device_id = device_id, cm_channel_key = channel_key, cm_binding = b\<rparr>],
                        sh_control = \<lparr>ec_ramp_rate_per_sec = ramp, ec_hysteresis_margin = margin, ec_hysteresis_dwell = dwell\<rparr>,
                        sh_poi_topic = substitute_site_id poi site_id,
                        sh_import_limit_topic = substitute_site_id imp site_id,
                        sh_export_limit_topic = substitute_site_id ex site_id,
                        sh_creds = creds, sh_storage = [], sh_site_id = site_id\<rparr>
              | _ \<Rightarrow> None))
      | _ \<Rightarrow> Ok None)"

definition poi_key :: "shed_task_config \<Rightarrow> string \<times> string \<times> string" where
  "poi_key c = (sh_poi_topic c, sh_import_limit_topic c, sh_export_limit_topic c)"

fun add_to_group :: "shed_task_config list \<Rightarrow> shed_task_config \<Rightarrow> shed_task_config list" where
  "add_to_group [] c = [c]"
| "add_to_group (g # gs) c =
     (if poi_key g = poi_key c then g\<lparr>sh_modules := sh_modules g @ sh_modules c\<rparr> # gs else g # add_to_group gs c)"

definition per_poi :: "shed_task_config list \<Rightarrow> shed_task_config list" where
  "per_poi configs = foldl add_to_group [] configs"

definition cached_reading :: "input_cache \<Rightarrow> string \<Rightarrow> (f64 \<times> instant) option" where
  "cached_reading cache topic = (case cache topic of
     None \<Rightarrow> None | Some (v, received) \<Rightarrow> map_option (\<lambda>x. (x, received)) (as_number v))"

definition fleet_children :: "shed_task_config \<Rightarrow> cap_child list" where
  "fleet_children cfg = concat (map (\<lambda>m. pc_children (cm_binding m)) (sh_modules cfg))"

definition shed_inputs :: "shed_task_config \<Rightarrow> input_cache \<Rightarrow> f64 \<Rightarrow> instant option \<Rightarrow> shed_tick option \<times> instant option" where
  "shed_inputs cfg cache spare last_poi =
     (case (cached_reading cache (sh_poi_topic cfg), cached_reading cache (sh_import_limit_topic cfg),
            cached_reading cache (sh_export_limit_topic cfg)) of
        (Some (poi, received_at), Some (import_limit, _), Some (export_limit, _)) \<Rightarrow>
          if (case last_poi of Some prev \<Rightarrow> received_at \<le> prev | None \<Rightarrow> False) then (None, last_poi)
          else (Some \<lparr>st_poi_active_power = poi, st_import_limit = import_limit, st_export_limit = export_limit,
                      st_requested_percent = 100,
                      st_fleet_max_w = (\<Sum>c \<leftarrow> fleet_children cfg. cc_max_w c),
                      st_fleet_min_w = (\<Sum>c \<leftarrow> fleet_children cfg. cc_min_w c),
                      st_storage_spare_w = spare,
                      st_dt = (case last_poi of Some prev \<Rightarrow> received_at - prev | None \<Rightarrow> secs 1)\<rparr>,
                Some received_at)
      | _ \<Rightarrow> (None, last_poi))"

definition module_caps :: "shed_task_config \<Rightarrow> f64 \<Rightarrow> requested \<Rightarrow> (string \<times> string \<times> f64) list outcome" where
  "module_caps cfg percent requested =
     bind_outcome (collect_outcome (map (\<lambda>m.
         child_caps (cm_binding m)
           (min percent (case requested_of requested (cm_device_id m) (cm_channel_key m) of Some v \<Rightarrow> v | None \<Rightarrow> 100)))
       (sh_modules cfg))) (\<lambda>caps. Ok (concat caps))"

text \<open>One round of the loop: the state is the controller and the time of the last reading used.\<close>

definition shed_round :: "world \<Rightarrow> instant \<Rightarrow> shed_task_config \<Rightarrow> input_cache \<Rightarrow> requested \<Rightarrow> devices \<Rightarrow> shed_controller \<times> instant option \<Rightarrow> (shed_controller \<times> instant option) act" where
  "shed_round w now cfg cache requested dv st =
     (let spare = spare_w now (sh_storage cfg) (sh_poi_topic cfg) (sh_site_id cfg) cache (dv_locked dv);
          (input, last_poi) = shed_inputs cfg cache spare (snd st)
      in case input of
           None \<Rightarrow> lift_act (Ok (fst st, last_poi))
         | Some t \<Rightarrow>
             bind_act (lift_act (shed_step (fst st) t)) (\<lambda>(proposal, c).
             case proposal of
               None \<Rightarrow> lift_act (Ok (c, last_poi))
             | Some percent \<Rightarrow>
                 bind_act (lift_act (module_caps cfg percent requested)) (\<lambda>caps.
                 (\<lambda>s. case write_caps w caps (dv_channels dv) (dv_trust dv) (dv_locked dv) (sh_creds cfg) s of
                        (Ok _, s') \<Rightarrow> (Ok (confirm percent c, last_poi), s')
                      | (Err e, s') \<Rightarrow> (Ok (c, last_poi), s')
                      | (Abort a, s') \<Rightarrow> (Abort a, s')))))"

section \<open>Percentages of a fleet\<close>

text \<open>A fleet of at least one device, and the caps its controller can hold.\<close>

definition floor_percent :: "f64 \<Rightarrow> f64 \<Rightarrow> f64" where
  "floor_percent fmin fmax = fmin * (100 / fmax)"

definition fleet_tick :: "f64 \<Rightarrow> f64 \<Rightarrow> shed_tick \<Rightarrow> bool" where
  "fleet_tick fmin fmax t \<longleftrightarrow> st_fleet_min_w t = fmin \<and> st_fleet_max_w t = fmax \<and> st_requested_percent t = 100"

definition on_grid :: "f64 \<Rightarrow> bool" where
  "on_grid p \<longleftrightarrow> (\<exists>k :: int. p * 10 = of_int k)"

definition cap_held :: "f64 \<Rightarrow> f64 \<Rightarrow> f64 \<Rightarrow> bool" where
  "cap_held fmin fmax p \<longleftrightarrow> floor_percent fmin fmax \<le> p \<and> p \<le> 100 \<and> (on_grid p \<or> p = floor_percent fmin fmax)"

definition shed_inv :: "f64 \<Rightarrow> f64 \<Rightarrow> shed_controller \<Rightarrow> bool" where
  "shed_inv fmin fmax c \<longleftrightarrow> (\<forall>p. sc_percent c = Some p \<longrightarrow> cap_held fmin fmax p)"

lemma on_grid_100 [simp]: "on_grid 100"
  unfolding on_grid_def by (intro exI [of _ 1000]) simp

lemma floor_percent_le: "0 < fmax \<Longrightarrow> fmin \<le> fmax \<Longrightarrow> floor_percent fmin fmax \<le> 100"
  by (simp add: floor_percent_def field_simps)

lemma times_Fin_div: "0 < m \<Longrightarrow> Fin a * (Fin b / Fin m) = Fin (a * (b / m))"
  by simp

lemma divide_Fin: "b \<noteq> 0 \<Longrightarrow> Fin a / Fin b = Fin (a / b)"
  by simp

definition quantized :: "f64 \<Rightarrow> f64 \<Rightarrow> f64" where
  "quantized current target = of_int (rust_round ((current + of_int \<lceil>(target - current) * 10\<rceil> / 10) * 10)) / 10"

lemma quantize_Fin: "quantize current (Fin target) = Fin (quantized current target)"
  by (simp add: quantize_def quantized_def STEP_PERCENT_def divide_Fin)

lemma on_grid_quantized: "on_grid (quantized current target)"
  by (auto simp: on_grid_def quantized_def)

text \<open>From a cap on the grid, quantizing never goes past the target when cutting.\<close>

lemma quantized_on_grid:
  assumes "on_grid current"
  shows "target \<le> quantized current target" and "target \<le> current \<Longrightarrow> quantized current target \<le> current"
    and "current \<le> target \<Longrightarrow> current \<le> quantized current target"
proof -
  from assms obtain k :: int where k: "current * 10 = of_int k" by (auto simp: on_grid_def)
  have "(current + of_int \<lceil>(target - current) * 10\<rceil> / 10) * 10 = current * 10 + of_int \<lceil>(target - current) * 10\<rceil>"
    by (simp add: distrib_right)
  then have "(current + of_int \<lceil>(target - current) * 10\<rceil> / 10) * 10 = of_int (k + \<lceil>(target - current) * 10\<rceil>)"
    using k by simp
  then have q: "quantized current target = current + of_int \<lceil>(target - current) * 10\<rceil> / 10"
    using k by (simp add: quantized_def field_simps)
  show "target \<le> quantized current target"
  proof -
    define n where "n = \<lceil>(target - current) * 10\<rceil>"
    have "(target - current) * 10 \<le> of_int n" unfolding n_def by (rule le_of_int_ceiling)
    then show ?thesis unfolding q n_def [symmetric] by (simp add: field_simps)
  qed
  show "quantized current target \<le> current" if "target \<le> current"
    using that by (simp add: q ceiling_le_iff)
  show "current \<le> quantized current target" if "current \<le> target"
    using that \<open>target \<le> quantized current target\<close> by linarith
qed

section \<open>What a tick proposes\<close>

definition over_w :: "shed_tick \<Rightarrow> f64" where
  "over_w t = st_poi_active_power t - st_import_limit t"

definition storage_spent :: "shed_controller \<Rightarrow> shed_tick \<Rightarrow> bool" where
  "storage_spent c t \<longleftrightarrow> st_storage_spare_w t < ec_hysteresis_margin (sc_config c) * st_fleet_max_w t"

lemma shed_target_config [simp]: "shed_target c t = (r, c') \<Longrightarrow> sc_config c' = sc_config c"
  "shed_target c t = (r, c') \<Longrightarrow> sc_percent c' = sc_percent c"
  by (auto simp: shed_target_def shed_over_def shed_reset_def Let_def split: if_splits)

definition shed_ramp :: "shed_controller \<Rightarrow> shed_tick \<Rightarrow> f64" where
  "shed_ramp c t = ec_ramp_rate_per_sec (sc_config c) * 100 * as_secs_f64 (st_dt t)"

lemma shed_over_cut:
  assumes "shed_over c t ov cur wtp step = (Some r, c')"
  shows "r = Fin cur - min_f64x (Fin ov * wtp) (Fin step)"
    and "storage_spent c t \<or> ec_hysteresis_dwell (sc_config c) \<le> over_for c + st_dt t"
  using assms by (simp_all add: shed_over_def Let_def storage_spent_def not_less split: if_splits)

lemma shed_target_export:
  "0 < - st_poi_active_power t - st_export_limit t \<Longrightarrow> shed_target c t =
     (Some (Fin (current_percent c t) + min_f64x (Fin (- st_poi_active_power t - st_export_limit t) * (Fin 100 / Fin (st_fleet_max_w t)))
        (Fin (shed_ramp c t))), shed_reset c)"
  by (simp only: shed_target_def Let_def shed_ramp_def if_True)

lemma shed_target_import:
  "\<not> 0 < - st_poi_active_power t - st_export_limit t \<Longrightarrow> 0 < over_w t \<Longrightarrow>
     shed_target c t = shed_over c t (over_w t) (current_percent c t) (Fin 100 / Fin (st_fleet_max_w t)) (shed_ramp c t)"
  by (simp only: shed_target_def Let_def shed_ramp_def over_w_def if_True if_False)

lemma shed_target_clear:
  assumes "\<not> 0 < - st_poi_active_power t - st_export_limit t" and "\<not> 0 < over_w t" and "shed_target c t = (Some r, c')"
    and "hr = st_import_limit t - st_poi_active_power t - ec_hysteresis_margin (sc_config c) * st_fleet_max_w t"
  shows "r = Fin (current_percent c t) \<or> (0 < hr \<and> r = Fin (current_percent c t) +
      min_f64x (Fin hr * (Fin 100 / Fin (st_fleet_max_w t))) (Fin (shed_ramp c t)))"
  using assms(3) unfolding shed_target_def Let_def shed_ramp_def over_w_def [symmetric] if_not_P [OF assms(1)]
    if_not_P [OF assms(2)] assms(4) [symmetric]
  by (auto simp del: divide_f64x.simps times_f64x.simps split: if_split_asm)

lemma shed_target_cases:
  assumes "0 < st_fleet_max_w t" and "shed_target c t = (Some r, c')"
  shows "(\<exists>a > 0. r = Fin (current_percent c t + min (a * (100 / st_fleet_max_w t)) (shed_ramp c t))) \<or>
    r = Fin (current_percent c t) \<or>
    (0 < over_w t \<and> (storage_spent c t \<or> ec_hysteresis_dwell (sc_config c) \<le> over_for c + st_dt t) \<and>
      r = Fin (current_percent c t - min (over_w t * (100 / st_fleet_max_w t)) (shed_ramp c t)))"
proof -
  have fin: "Fin a * (Fin 100 / Fin (st_fleet_max_w t)) = Fin (a * (100 / st_fleet_max_w t))" for a
    using assms(1) by simp
  show ?thesis
  proof (cases "0 < - st_poi_active_power t - st_export_limit t")
    case True
    define ex where "ex = - st_poi_active_power t - st_export_limit t"
    have "r = Fin (current_percent c t + min (ex * (100 / st_fleet_max_w t)) (shed_ramp c t))"
      using assms(2) unfolding shed_target_export [OF True] fin ex_def by simp
    moreover have "ex > 0" using True unfolding ex_def .
    ultimately show ?thesis by (intro disjI1 exI [of _ ex] conjI)
  next
    case noex: False
    show ?thesis
    proof (cases "over_w t > 0")
      case True
      from shed_over_cut [OF assms(2) [unfolded shed_target_import [OF noex True]]] True show ?thesis
        unfolding fin by simp
    next
      case False
      define hr where "hr = st_import_limit t - st_poi_active_power t - ec_hysteresis_margin (sc_config c) * st_fleet_max_w t"
      from shed_target_clear [OF noex False assms(2) hr_def] show ?thesis
      proof
        assume "0 < hr \<and> r = Fin (current_percent c t) + min_f64x (Fin hr * (Fin 100 / Fin (st_fleet_max_w t))) (Fin (shed_ramp c t))"
        then show ?thesis unfolding fin by (intro disjI1 exI [of _ hr]) simp
      qed simp
    qed
  qed
qed

text \<open>
  From a cap the controller can hold, a tick proposes a cap it can hold; a proposal below the
  current cap is a cut for an import violation, no larger than the violation.
\<close>

lemma shed_step_spec:
  assumes "0 < fmax" and "fmin \<le> fmax" and "0 \<le> ec_ramp_rate_per_sec (sc_config c)"
    and "shed_inv fmin fmax c" and "fleet_tick fmin fmax t"
  shows "\<exists>r c'. shed_step c t = Ok (r, c') \<and> sc_percent c' = sc_percent c \<and> sc_config c' = sc_config c \<and>
    (\<forall>p. r = Some p \<longrightarrow> cap_held fmin fmax p \<and>
      (p < current_percent c t \<longrightarrow> 0 < over_w t \<and> (current_percent c t - p) * fmax / 100 \<le> over_w t \<and>
        (storage_spent c t \<or> ec_hysteresis_dwell (sc_config c) \<le> over_for c + st_dt t)))"
proof -
  let ?cur = "current_percent c t" and ?flr = "floor_percent fmin fmax"
  have t: "st_fleet_max_w t = fmax" "st_fleet_min_w t = fmin" "st_requested_percent t = 100"
    using assms(5) by (simp_all add: fleet_tick_def)
  have flr: "?flr \<le> 100" using assms(1,2) by (rule floor_percent_le)
  have cur: "cap_held fmin fmax ?cur"
    using assms(4) flr by (auto simp: current_percent_def t shed_inv_def cap_held_def min_def split: option.split)
  obtain r c' where r: "shed_target c t = (r, c')" by fastforce
  show ?thesis
  proof (cases r)
    case None
    with r show ?thesis by (auto simp: shed_step_def)
  next
    case (Some target)
    note cases = shed_target_cases [OF _ r [unfolded Some], unfolded t, OF assms(1)]
    then obtain x where x: "target = Fin x" by blast
    define v where "v = max ?flr (min 100 (quantized ?cur x))"
    have v: "cap_held fmin fmax v"
      using flr on_grid_quantized [of ?cur x] by (auto simp: v_def cap_held_def max_def min_def)
    have step: "shed_step c t = Ok (if \<bar>v - ?cur\<bar> \<ge> STEP_PERCENT / 2 then Some v else None, c')"
      using assms(1) flr by (simp add: shed_step_def r Some x quantize_Fin t v_def floor_percent_def)
    have "0 < over_w t \<and> (?cur - v) * fmax / 100 \<le> over_w t \<and>
        (storage_spent c t \<or> ec_hysteresis_dwell (sc_config c) \<le> over_for c + st_dt t)" if less: "v < ?cur"
    proof -
      have g: "on_grid ?cur" using cur less v by (auto simp: cap_held_def)
      have q: "x \<le> quantized ?cur x" by (rule quantized_on_grid [OF g])
      have "x < ?cur"
        using less quantized_on_grid(3) [OF g, of x] cur by (auto simp: v_def cap_held_def not_le [symmetric])
      have ramp: "0 \<le> shed_ramp c t" using assms(3) by (simp add: shed_ramp_def)
      have "\<not> (\<exists>a > 0. target = Fin (?cur + min (a * (100 / fmax)) (shed_ramp c t)))"
        using \<open>x < ?cur\<close> ramp assms(1) by (auto simp: x min_def split: if_splits) (smt (verit) divide_pos_pos mult_pos_pos)
      with cases \<open>x < ?cur\<close> have c: "0 < over_w t" "storage_spent c t \<or> ec_hysteresis_dwell (sc_config c) \<le> over_for c + st_dt t"
        "x = ?cur - min (over_w t * (100 / fmax)) (shed_ramp c t)"
        by (auto simp: x)
      have "x \<le> v"
        using q \<open>x < ?cur\<close> cur by (simp add: v_def cap_held_def le_max_iff_disj)
      then have "?cur - v \<le> over_w t * (100 / fmax)"
        using c(3) min.cobounded1 [of "over_w t * (100 / fmax)" "shed_ramp c t"] by linarith
      then have "(?cur - v) * fmax \<le> over_w t * (100 / fmax) * fmax"
        using assms(1) by (intro mult_right_mono) auto
      with c assms(1) show ?thesis by simp
    qed
    with step v shed_target_config [OF r] show ?thesis by auto
  qed
qed

section \<open>Runs of the controller\<close>

text \<open>A tick and whether its writes, if it proposed any, reached every device.\<close>

fun shed_event :: "shed_controller \<Rightarrow> shed_tick \<times> bool \<Rightarrow> shed_controller" where
  "shed_event c (t, reached) = (case shed_step c t of
     Ok (Some p, c') \<Rightarrow> if reached then confirm p c' else c'
   | Ok (None, c') \<Rightarrow> c'
   | _ \<Rightarrow> c)"

definition shed_state :: "f64 \<Rightarrow> f64 \<Rightarrow> envelope_config \<Rightarrow> shed_controller \<Rightarrow> bool" where
  "shed_state fmin fmax config c \<longleftrightarrow> 0 < fmax \<and> fmin \<le> fmax \<and> 0 \<le> ec_ramp_rate_per_sec config \<and>
     sc_config c = config \<and> shed_inv fmin fmax c"

lemmas shed_state_step = shed_step_spec [of fmax fmin c for fmax fmin c]

lemma shed_event_state:
  assumes "shed_state fmin fmax config c" and "fleet_tick fmin fmax (fst e)"
  shows "shed_state fmin fmax config (shed_event c e)"
proof -
  from shed_state_step [of fmax fmin c "fst e"] assms obtain r c' where
    "shed_step c (fst e) = Ok (r, c')" "sc_percent c' = sc_percent c" "sc_config c' = sc_config c"
    "\<forall>p. r = Some p \<longrightarrow> cap_held fmin fmax p"
    unfolding shed_state_def by blast
  with assms(1) show ?thesis
    by (cases e; cases r) (auto simp: shed_state_def shed_inv_def confirm_def)
qed

interpretation shed_machine: stepped shed_event "\<lambda>e. fleet_tick fmin fmax (fst e)" "shed_state fmin fmax config"
  for fmin fmax config
  by unfold_locales (rule shed_event_state)

lemma over_for_target: "shed_target c t = (r, c') \<Longrightarrow> over_for c' \<le> over_for c + st_dt t"
  unfolding shed_target_def Let_def
  by (auto simp: shed_over_def shed_reset_def Let_def simp del: divide_f64x.simps times_f64x.simps split: if_split_asm)

lemma over_for_step: "shed_step c t = Ok (r, c') \<Longrightarrow> over_for c' \<le> over_for c + st_dt t"
  using over_for_target [of c t] by (auto simp: shed_step_def Let_def split: option.splits prod.splits)

lemma over_for_run: "over_for (foldl shed_event c es) \<le> over_for c + (\<Sum>e \<leftarrow> es. st_dt (fst e))"
proof (induction es arbitrary: c)
  case (Cons e es)
  have "over_for (shed_event c e) \<le> over_for c + st_dt (fst e)"
    using over_for_step [of c "fst e"] by (cases e) (auto simp: confirm_def split: outcome.split option.split)
  with Cons [of "shed_event c e"] show ?case by simp
qed simp

lemma shed_new_state:
  "0 < fmax \<Longrightarrow> fmin \<le> fmax \<Longrightarrow> 0 \<le> ec_ramp_rate_per_sec config \<Longrightarrow> shed_state fmin fmax config (shed_new config)"
  by (simp add: shed_state_def shed_inv_def shed_new_def)



text \<open>A fleet without a single device makes the bounds of the clamp not a number: the tick panics.\<close>

theorem shed_panics_without_devices:
  "shed_step (shed_new config) \<lparr>st_poi_active_power = 0, st_import_limit = 1000, st_export_limit = 1000, st_requested_percent = 100,
     st_fleet_max_w = 0, st_fleet_min_w = 0, st_storage_spare_w = 0, st_dt = secs 1\<rparr> = Abort Panicked"
  by (simp add: shed_step_def shed_target_def current_percent_def shed_new_def inf_of_sign_def clamp_f64x_def)

section \<open>One controller per point of interconnection\<close>

definition keys_of :: "shed_task_config list \<Rightarrow> (string \<times> string \<times> string) list" where
  "keys_of cs = rev (remdups (rev (map poi_key cs)))"

definition with_key :: "string \<times> string \<times> string \<Rightarrow> shed_task_config list \<Rightarrow> shed_task_config list" where
  "with_key k cs = filter (\<lambda>c. poi_key c = k) cs"

definition group_of :: "shed_task_config list \<Rightarrow> string \<times> string \<times> string \<Rightarrow> shed_task_config" where
  "group_of cs k = (hd (with_key k cs))\<lparr>sh_modules := concat (map sh_modules (with_key k cs))\<rparr>"

lemma keys_of_snoc: "keys_of (cs @ [c]) = (if poi_key c \<in> set (keys_of cs) then keys_of cs else keys_of cs @ [poi_key c])"
  by (simp add: keys_of_def)

lemma distinct_keys_of [simp]: "distinct (keys_of cs)"
  by (simp add: keys_of_def)

lemma set_keys_of [simp]: "set (keys_of cs) = poi_key ` set cs"
  by (simp add: keys_of_def)

lemma with_key_nonempty: "k \<in> poi_key ` set cs \<Longrightarrow> with_key k cs \<noteq> []"
  by (auto simp: with_key_def filter_empty_conv)

lemma poi_key_group_of: "k \<in> poi_key ` set cs \<Longrightarrow> poi_key (group_of cs k) = k"
  using with_key_nonempty [of k cs] hd_in_set [of "with_key k cs"]
  by (auto simp: group_of_def poi_key_def with_key_def)

lemma group_of_snoc:
  "poi_key c \<noteq> k \<Longrightarrow> group_of (cs @ [c]) k = group_of cs k"
  "poi_key c \<in> poi_key ` set cs \<Longrightarrow>
     group_of (cs @ [c]) (poi_key c) = (group_of cs (poi_key c))\<lparr>sh_modules := sh_modules (group_of cs (poi_key c)) @ sh_modules c\<rparr>"
  "poi_key c \<notin> poi_key ` set cs \<Longrightarrow> group_of (cs @ [c]) (poi_key c) = c"
  using with_key_nonempty [of "poi_key c" cs]
  by (auto simp: group_of_def with_key_def hd_append filter_empty_conv image_iff)

lemma add_to_group_keyed:
  assumes "distinct ks" and "set ks \<subseteq> poi_key ` set cs"
  shows "add_to_group (map (group_of cs) ks) c =
    (if poi_key c \<in> set ks then map (group_of (cs @ [c])) ks else map (group_of (cs @ [c])) ks @ [c])"
  using assms
proof (induction ks)
  case (Cons k ks)
  have k: "poi_key (group_of cs k) = k" using Cons.prems by (intro poi_key_group_of) simp
  have same: "map (group_of (cs @ [c])) ks = map (group_of cs) ks" if "poi_key c \<notin> set ks"
    using that by (intro map_cong refl) (auto intro!: group_of_snoc(1))
  show ?case
  proof (cases "k = poi_key c")
    case True
    then show ?thesis
      using Cons.prems k same group_of_snoc(2) [of c cs] by auto
  next
    case False
    then show ?thesis
      using Cons k group_of_snoc(1) [of c k cs] by auto
  qed
qed simp

text \<open>
  Merging per-module configurations is grouping by point of interconnection and limits: one
  configuration per distinct key, in the order the keys first appear, with the modules of every
  configuration of that key, in order, and everything else from the first of them.
\<close>

lemma per_poi_groups: "per_poi cs = map (group_of cs) (keys_of cs)"
proof (induction cs rule: rev_induct)
  case Nil
  show ?case by (simp add: per_poi_def keys_of_def)
next
  case (snoc c cs)
  have "per_poi (cs @ [c]) = add_to_group (map (group_of cs) (keys_of cs)) c"
    using snoc by (simp add: per_poi_def)
  with add_to_group_keyed [of "keys_of cs" cs c] show ?case
    by (simp add: keys_of_snoc group_of_snoc(3))
qed

section \<open>Lockout on the shed path\<close>

lemma shed_round_sends_only:
  "sends_only (permitted (dv_channels dv) (dv_trust dv) (dv_locked dv) (sh_creds cfg)) (shed_round w now cfg cache requested dv st)"
proof -
  let ?P = "permitted (dv_channels dv) (dv_trust dv) (dv_locked dv) (sh_creds cfg)"
  have caps: "sends_only ?P (write_caps w caps (dv_channels dv) (dv_trust dv) (dv_locked dv) (sh_creds cfg))" for caps
    unfolding write_caps_def by (intro sends_only_bind write_each_permitted) auto
  note logged = sends_only_logged [OF caps]
  show ?thesis
    unfolding shed_round_def Let_def
    by (auto split: prod.split option.split intro!: sends_only_bind logged)
qed

section \<open>An example\<close>

definition ex_shed :: "f64 \<Rightarrow> f64 \<Rightarrow> shed_tick" where
  "ex_shed poi spare = \<lparr>st_poi_active_power = poi, st_import_limit = 1000, st_export_limit = 1000, st_requested_percent = 100,
     st_fleet_max_w = 1000, st_fleet_min_w = 200, st_storage_spare_w = spare, st_dt = secs 1\<rparr>"

lemma fleet_ex_shed [simp]: "fleet_tick 200 1000 (ex_shed poi spare)"
  by (simp add: fleet_tick_def ex_shed_def)


lemma ex_shed_raise:
  "shed_step (confirm 50 (shed_new ex_config)) (ex_shed (- 1050) 500) = Ok (Some 55, shed_reset (confirm 50 (shed_new ex_config)))"
proof -
  have "rust_round 550 = 550" using rust_round_of_int [of 550] by simp
  then show ?thesis
    by (simp add: shed_step_def shed_target_def current_percent_def shed_new_def confirm_def ex_shed_def ex_config_def
        quantize_Fin quantized_def STEP_PERCENT_def as_secs_f64_def secs_def NANOS_def)
qed


end
