(* ===== verification/Der_Dispatch.thy ===== *)
theory Der_Dispatch
  imports Dispatch
begin

text \<open>
  The \<^verbatim>\<open>der_dispatch\<close> virtual device: what the utility's event asks of a tick
  (\<^verbatim>\<open>der_dispatch/posture.rs\<close>), what is remembered of an event
  (\<^verbatim>\<open>der_dispatch/event_memory.rs\<close>), the modules a site target is split across
  (\<^verbatim>\<open>der_dispatch/module_bounds.rs\<close>), the command each share becomes
  (\<^verbatim>\<open>der_dispatch/module_command.rs\<close>), the tick of site distribution
  (\<^verbatim>\<open>der_dispatch/site_distribution.rs\<close>) and the site's delivered power
  (\<^verbatim>\<open>der_dispatch/actual_power.rs\<close>).
\<close>

section \<open>Posture\<close>

datatype posture = Hold | Release | DispatchTo f64

record posture_topics =
  pt_event_active :: string
  pt_target_present :: string
  pt_target :: string

definition read_number :: "input_cache \<Rightarrow> string \<Rightarrow> f64 option" where
  "read_number cache topic = Option.bind (cache topic) (\<lambda>e. as_number (fst e))"

definition posture_of :: "posture_topics \<Rightarrow> input_cache \<Rightarrow> posture" where
  "posture_of topics cache = (case read_number cache (pt_event_active topics) of
     None \<Rightarrow> Hold
   | Some active \<Rightarrow>
       if active < 1 / 2 then Release
       else (case (read_number cache (pt_target_present topics), read_number cache (pt_target topics)) of
               (Some present, target) \<Rightarrow>
                 if present < 1 / 2 then Release
                 else (case target of Some t \<Rightarrow> DispatchTo t | None \<Rightarrow> Hold)
             | (None, _) \<Rightarrow> Hold))"

section \<open>Event memory\<close>

record event_memory =
  em_snapshot :: "(string \<rightharpoonup> f64) option"
  em_dispatched :: "(string \<times> f64) list"

definition new_event_memory :: event_memory where
  "new_event_memory = \<lparr>em_snapshot = None, em_dispatched = []\<rparr>"

definition SAME_SETPOINT_W :: f64 where
  "SAME_SETPOINT_W = 1 / 1000000"

definition mem_begin :: "(string \<rightharpoonup> f64) \<Rightarrow> event_memory \<Rightarrow> event_memory" where
  "mem_begin operator mem = (if em_snapshot mem = None then mem\<lparr>em_snapshot := Some operator\<rparr> else mem)"

definition mem_changed :: "event_memory \<Rightarrow> (string \<times> f64) list \<Rightarrow> (string \<times> f64) list" where
  "mem_changed mem shares = filter (\<lambda>(i, share).
     case map_of (em_dispatched mem) i of None \<Rightarrow> True | Some prev \<Rightarrow> \<bar>share - prev\<bar> \<ge> SAME_SETPOINT_W) shares"

definition mem_record :: "string \<Rightarrow> f64 \<Rightarrow> event_memory \<Rightarrow> event_memory" where
  "mem_record i share mem = mem\<lparr>em_dispatched := AList.update i share (em_dispatched mem)\<rparr>"

definition mem_end :: "event_memory \<Rightarrow> (string \<rightharpoonup> f64) \<Rightarrow> (string \<times> f64) list" where
  "mem_end mem current = (case em_snapshot mem of
     None \<Rightarrow> []
   | Some snapshot \<Rightarrow>
       map (\<lambda>(i, _). (i, case snapshot i of Some v \<Rightarrow> v | None \<Rightarrow> 0))
         (filter (\<lambda>(i, sent). case current i of Some v \<Rightarrow> \<bar>v - sent\<bar> < SAME_SETPOINT_W | None \<Rightarrow> False)
           (em_dispatched mem)))"

definition mem_clear :: "event_memory \<Rightarrow> event_memory" where
  "mem_clear mem = new_event_memory"

section \<open>Modules\<close>

definition CHANNEL_KEY :: string where
  "CHANNEL_KEY = ''set_active_power''"

definition soc_topic :: "string \<Rightarrow> string \<Rightarrow> string" where
  "soc_topic site_id device_id = ''sites/'' @ site_id @ ''/devices/'' @ device_id @ ''/measurements/state_of_charge/percent''"

definition module_headroom :: "instant \<Rightarrow> distribute_binding \<Rightarrow> f64 \<Rightarrow> f64 \<Rightarrow> f64 \<Rightarrow> string \<Rightarrow> input_cache \<Rightarrow> string set \<Rightarrow> f64" where
  "module_headroom now d power_min power_max target site_id cache locked =
     (let static_w = (if target < 0 then \<bar>power_min\<bar> else power_max);
          racks_w = (\<Sum>c \<leftarrow> filter (\<lambda>c. ca_device_id c \<notin> locked) (d_children d). headroom now c target site_id cache)
      in if d_children d = [] then static_w else min static_w racks_w)"

fun modules_with_bounds :: "instant \<Rightarrow> device_channels \<Rightarrow> input_cache \<Rightarrow> string \<Rightarrow> f64 \<Rightarrow> string set \<Rightarrow> child_capacity list option" where
  "modules_with_bounds now [] cache site_id target locked = Some []"
| "modules_with_bounds now ((device_id, commands) # rest) cache site_id target locked =
     (case map_of commands CHANNEL_KEY of
        Some (Distribute d) \<Rightarrow>
          if device_id \<in> locked then modules_with_bounds now rest cache site_id target locked
          else (case (d_power_min d, d_power_max d) of
             (Some power_min, Some power_max) \<Rightarrow>
               (case read_number cache (soc_topic site_id device_id) of
                  None \<Rightarrow> None
                | Some soc \<Rightarrow>
                    map_option (\<lambda>ms. \<lparr>cp_device_id = device_id, cp_operating_state = Standby,
                       cp_headroom = module_headroom now d power_min power_max target site_id cache locked,
                       cp_state_of_charge = soc\<rparr> # ms)
                      (modules_with_bounds now rest cache site_id target locked))
           | _ \<Rightarrow> modules_with_bounds now rest cache site_id target locked)
      | _ \<Rightarrow> modules_with_bounds now rest cache site_id target locked)"

section \<open>One command\<close>

record site_config =
  sd_site_id :: string
  sd_topics :: posture_topics
  sd_creds :: "gateway_credentials option"

definition module_topic :: "string \<Rightarrow> string \<Rightarrow> string" where
  "module_topic site_id module_id = ''sites/'' @ site_id @ ''/devices/'' @ module_id @ ''/commands/set/active_power/watts''"

text \<open>
  The payload a share is put in (\<^verbatim>\<open>format!\<close> over the time stamp, the number and the command id)
  is as opaque as the one of a broker's message: how it is printed is the parameter \<open>frame\<close>, and
  what the clock says for a module is the parameter \<open>stamp\<close>.
\<close>

definition dispatch_one :: "world \<Rightarrow> instant \<Rightarrow> (dispatch_event \<Rightarrow> bool) \<Rightarrow> ('p \<Rightarrow> command_frame option) \<Rightarrow> (string \<times> string \<Rightarrow> f64 \<Rightarrow> 'p) \<Rightarrow> (string \<Rightarrow> string \<times> string) \<Rightarrow> site_config \<Rightarrow> input_cache \<Rightarrow> devices \<Rightarrow> string \<Rightarrow> f64 \<Rightarrow> gateway \<Rightarrow> bool outcome \<times> gateway" where
  "dispatch_one w now accepts parse_frame frame stamp cfg cache dv module_id share g =
     (case handle_command w now accepts parse_frame (sd_site_id cfg) dv (sd_creds cfg) cache
             (module_topic (sd_site_id cfg) module_id) (frame (stamp module_id) share) g of
        (Ok _, g) \<Rightarrow> (Ok True, g)
      | (Err e, g) \<Rightarrow> (Ok False, g)
      | (Abort a, g) \<Rightarrow> (Abort a, g))"

section \<open>The tick\<close>

definition operator_setpoints :: "requested \<Rightarrow> (string \<rightharpoonup> f64)" where
  "operator_setpoints r = (\<lambda>d. requested_of r d CHANNEL_KEY)"

fun restore_all :: "(string \<Rightarrow> f64 \<Rightarrow> 'g \<Rightarrow> bool outcome \<times> 'g) \<Rightarrow> (string \<times> f64) list \<Rightarrow> bool \<Rightarrow> 'g \<Rightarrow> bool outcome \<times> 'g" where
  "restore_all send [] all_published g = (Ok all_published, g)"
| "restore_all send ((i, setpoint) # rest) all_published g = (case send i setpoint g of
     (Ok handled, g) \<Rightarrow> restore_all send rest (all_published \<and> handled) g
   | failed \<Rightarrow> failed)"

definition release :: "(string \<Rightarrow> f64 \<Rightarrow> 'g \<Rightarrow> bool outcome \<times> 'g) \<Rightarrow> (string \<rightharpoonup> f64) \<Rightarrow> event_memory \<times> 'g \<Rightarrow> unit outcome \<times> event_memory \<times> 'g" where
  "release send current st = (case st of (mem, g) \<Rightarrow>
     (case restore_all send (mem_end mem current) True g of
        (Ok all_published, g) \<Rightarrow> (Ok (), if all_published then mem_clear mem else mem, g)
      | (Err e, g) \<Rightarrow> (Err e, mem, g)
      | (Abort a, g) \<Rightarrow> (Abort a, mem, g)))"

fun dispatch_changed :: "(string \<Rightarrow> f64 \<Rightarrow> 'g \<Rightarrow> bool outcome \<times> 'g) \<Rightarrow> (string \<times> f64) list \<Rightarrow> event_memory \<times> 'g \<Rightarrow> unit outcome \<times> event_memory \<times> 'g" where
  "dispatch_changed send [] (mem, g) = (Ok (), mem, g)"
| "dispatch_changed send ((i, share) # rest) (mem, g) = (case send i share g of
     (Ok handled, g) \<Rightarrow> dispatch_changed send rest (if handled then mem_record i share mem else mem, g)
   | (Err e, g) \<Rightarrow> (Err e, mem, g)
   | (Abort a, g) \<Rightarrow> (Abort a, mem, g))"

text \<open>What a tick splits, once its posture asks for a target: no value holds.\<close>

definition site_shares :: "instant \<Rightarrow> device_channels \<Rightarrow> input_cache \<Rightarrow> string \<Rightarrow> f64 \<Rightarrow> string set \<Rightarrow> (string \<times> f64) list option" where
  "site_shares now channels cache site_id target locked =
     (case modules_with_bounds now channels cache site_id target locked of
        None \<Rightarrow> None
      | Some modules \<Rightarrow> if modules = [] then None else Some (allocate target modules SocWeighted))"

definition site_tick :: "world \<Rightarrow> instant \<Rightarrow> (dispatch_event \<Rightarrow> bool) \<Rightarrow> ('p \<Rightarrow> command_frame option) \<Rightarrow> (string \<times> string \<Rightarrow> f64 \<Rightarrow> 'p) \<Rightarrow> (string \<Rightarrow> string \<times> string) \<Rightarrow> site_config \<Rightarrow> input_cache \<Rightarrow> devices \<Rightarrow> event_memory \<times> gateway \<Rightarrow> unit outcome \<times> event_memory \<times> gateway" where
  "site_tick w now accepts parse_frame frame stamp cfg cache dv st =
     (let send = dispatch_one w now accepts parse_frame frame stamp cfg cache dv;
          operator = operator_setpoints (g_requested (snd st)) in
      case posture_of (sd_topics cfg) cache of
        Hold \<Rightarrow> (Ok (), st)
      | Release \<Rightarrow> release send operator st
      | DispatchTo target \<Rightarrow>
          let mem = mem_begin operator (fst st) in
          (case site_shares now (dv_channels dv) cache (sd_site_id cfg) target (dv_locked dv) of
             None \<Rightarrow> (Ok (), mem, snd st)
           | Some shares \<Rightarrow> dispatch_changed send (mem_changed mem shares) (mem, snd st)))"

section \<open>Delivered power\<close>

fun add_cached :: "f64 \<Rightarrow> string list \<Rightarrow> input_cache \<Rightarrow> f64 option" where
  "add_cached acc [] cache = Some acc"
| "add_cached acc (topic # topics) cache =
     (case read_number cache topic of None \<Rightarrow> None | Some v \<Rightarrow> add_cached (acc + v) topics cache)"

definition sum_cached :: "string list \<Rightarrow> input_cache \<Rightarrow> f64 option" where
  "sum_cached topics cache = (if topics = [] then None else add_cached 0 topics cache)"

section \<open>What site distribution relies on of a command\<close>

lemma map_add_map_of_Cons: "i \<notin> fst ` set xs \<Longrightarrow> m(i \<mapsto> v) ++ map_of xs = m ++ map_of ((i, v) # xs)"
  by (rule ext) (simp add: map_add_def dom_map_of_conv_image_fst [symmetric] domIff split: option.split)

text \<open>
  A command to a module that can be reached is handled, and is from then on what the module's
  setpoint reads, the other modules' staying as they are. The loops over modules follow from this.
\<close>

locale module_commander =
  fixes send :: "string \<Rightarrow> f64 \<Rightarrow> 'g \<Rightarrow> bool outcome \<times> 'g"
    and setpoint :: "'g \<Rightarrow> string \<rightharpoonup> f64"
    and reaches :: "string \<Rightarrow> bool"
  assumes send_reaches: "reaches i \<Longrightarrow> \<exists>g'. send i v g = (Ok True, g') \<and> setpoint g' = (setpoint g)(i \<mapsto> v)"
begin

lemma restore_all_reaches:
  assumes "\<forall>i \<in> fst ` set xs. reaches i" and "distinct (map fst xs)"
  shows "\<exists>g'. restore_all send xs b g = (Ok b, g') \<and> setpoint g' = setpoint g ++ map_of xs"
  using assms
proof (induction xs arbitrary: g)
  case Nil
  show ?case by simp
next
  case (Cons x xs)
  obtain i v where x: "x = (i, v)" by fastforce
  from send_reaches [of i v g] Cons.prems x obtain g1 where
    g1: "send i v g = (Ok True, g1)" "setpoint g1 = (setpoint g)(i \<mapsto> v)" by auto
  from Cons.IH [of g1] Cons.prems obtain g' where
    g': "restore_all send xs b g1 = (Ok b, g')" "setpoint g' = setpoint g1 ++ map_of xs" by auto
  have "setpoint g' = setpoint g ++ map_of (x # xs)"
    unfolding g'(2) g1(2) x using Cons.prems(2) x by (intro map_add_map_of_Cons) simp
  moreover have "restore_all send (x # xs) b g = (Ok b, g')" by (simp add: x g1(1) g'(1))
  ultimately show ?case by blast
qed

lemma dispatch_changed_reaches:
  assumes "\<forall>i \<in> fst ` set xs. reaches i" and "distinct (map fst xs)"
  shows "\<exists>mem' g'. dispatch_changed send xs (mem, g) = (Ok (), mem', g') \<and> setpoint g' = setpoint g ++ map_of xs \<and>
    em_snapshot mem' = em_snapshot mem \<and> map_of (em_dispatched mem') = map_of (em_dispatched mem) ++ map_of xs"
  using assms
proof (induction xs arbitrary: g mem)
  case Nil
  show ?case by simp
next
  case (Cons x xs)
  obtain i v where x: "x = (i, v)" by fastforce
  from send_reaches [of i v g] Cons.prems x obtain g1 where
    g1: "send i v g = (Ok True, g1)" "setpoint g1 = (setpoint g)(i \<mapsto> v)" by auto
  have rec: "em_snapshot (mem_record i v mem) = em_snapshot mem"
    "map_of (em_dispatched (mem_record i v mem)) = (map_of (em_dispatched mem))(i \<mapsto> v)"
    by (simp_all add: mem_record_def update_conv')
  from Cons.IH [of "mem_record i v mem" g1] Cons.prems obtain mem' g' where
    g': "dispatch_changed send xs (mem_record i v mem, g1) = (Ok (), mem', g')" "setpoint g' = setpoint g1 ++ map_of xs"
      "em_snapshot mem' = em_snapshot mem"
      "map_of (em_dispatched mem') = map_of (em_dispatched (mem_record i v mem)) ++ map_of xs"
    unfolding rec(1) by auto
  have add: "m(i \<mapsto> v) ++ map_of xs = m ++ map_of (x # xs)" for m :: "string \<rightharpoonup> f64"
    unfolding x using Cons.prems(2) x by (intro map_add_map_of_Cons) simp
  have "dispatch_changed send (x # xs) (mem, g) = (Ok (), mem', g')" by (simp add: x g1(1) g'(1))
  with g'(2-4) show ?case unfolding rec(2) g1(2) add by blast
qed

end

text \<open>Topics and what they parse to.\<close>

lemma split_on_append: "c \<notin> set a \<Longrightarrow> split_on c (a @ c # b) = a # split_on c b"
  by (induction a) auto

lemma split_on_last: "c \<notin> set a \<Longrightarrow> split_on c a = [a]"
  by (induction a) auto

lemma parse_module_topic:
  assumes "CHR ''/'' \<notin> set site" and "CHR ''/'' \<notin> set i" and "i \<noteq> []"
  shows "parse_command_topic (module_topic site i) site = Some \<lparr>ct_device_id = i, ct_verb = ''set'', ct_target = ''active_power''\<rparr>"
proof -
  have "split_on (CHR ''/'') (module_topic site i) = [''sites'', site, ''devices'', i, ''commands'', ''set'', ''active_power'', ''watts'']"
    unfolding module_topic_def using assms(1,2) by (simp add: split_on_append)
  then show ?thesis using assms(3) by (simp add: parse_command_topic_def)
qed

text \<open>
  A module that can be reached: its command goes to a guarded distribute binding, which leaves the
  racks to the envelope, and it is not locked out.
\<close>

definition commandable :: "site_config \<Rightarrow> devices \<Rightarrow> string \<Rightarrow> bool" where
  "commandable cfg dv i \<longleftrightarrow> CHR ''/'' \<notin> set (sd_site_id cfg) \<and> CHR ''/'' \<notin> set i \<and> i \<noteq> [] \<and> i \<notin> dv_locked dv \<and>
     (\<exists>d guard. channel_lookup (dv_channels dv) i CHANNEL_KEY = Some (Distribute d) \<and> envelope_guard_config d = Ok (Some guard))"

text \<open>What is assumed of the frame parser: it reads back a frame that was printed.\<close>

definition reads_frames :: "('p \<Rightarrow> command_frame option) \<Rightarrow> (string \<times> string \<Rightarrow> f64 \<Rightarrow> 'p) \<Rightarrow> (string \<Rightarrow> string \<times> string) \<Rightarrow> bool" where
  "reads_frames parse_frame frame stamp \<longleftrightarrow> (\<forall>i v. parse_frame (frame (stamp i) v) =
     Some \<lparr>cf_ts = fst (stamp i), cf_value = v, cf_command_id = snd (stamp i)\<rparr>)"

lemma dispatch_one_reaches:
  assumes "reads_frames parse_frame frame stamp" and "\<forall>ev. accepts ev" and "commandable cfg dv i"
  shows "\<exists>g'. dispatch_one w now accepts parse_frame frame stamp cfg cache dv i v g = (Ok True, g') \<and>
    operator_setpoints (g_requested g') = (operator_setpoints (g_requested g))(i \<mapsto> v)"
proof -
  let ?cmd = "\<lparr>ct_device_id = i, ct_verb = ''set'', ct_target = ''active_power''\<rparr>"
  let ?f = "\<lparr>cf_ts = fst (stamp i), cf_value = v, cf_command_id = snd (stamp i)\<rparr>"
  from assms(3) obtain d guard where d: "channel_lookup (dv_channels dv) i CHANNEL_KEY = Some (Distribute d)"
    "envelope_guard_config d = Ok (Some guard)" by (auto simp: commandable_def)
  then obtain chs where chs: "map_of (dv_channels dv) i = Some chs" "map_of chs CHANNEL_KEY = Some (Distribute d)"
    by (auto simp: channel_lookup_def split: Option.bind_splits)
  have key: "command_key ''set'' ''active_power'' = CHANNEL_KEY" by (simp add: command_key_def CHANNEL_KEY_def)
  have c: "course_of accepts parse_frame (sd_site_id cfg) dv (module_topic (sd_site_id cfg) i) (frame (stamp i) v)
      = Executed (Distribute d) ?cmd ?f"
    using assms chs by (simp add: course_of_def commandable_def parse_module_topic reads_frames_def key)
  have ex: "execute_setpoint w now (Distribute d) (cf_value ?f) (ct_device_id ?cmd) (command_key (ct_verb ?cmd) (ct_target ?cmd))
      (sd_site_id cfg) (dv_channels dv) (dv_trust dv) (dv_locked dv) (sd_creds cfg) cache (g_south g) = (Ok (), g_south g)"
    using d by (simp add: execute_setpoint_def dispatch_distribute_def lift_act_def bind_act_def)
  obtain prev req where rq: "record_request (g_requested g) (ct_device_id ?cmd) (command_key (ct_verb ?cmd) (ct_target ?cmd)) (cf_value ?f) = (prev, req)"
    by fastforce
  have "operator_setpoints req = (operator_setpoints (g_requested g))(i \<mapsto> v)"
    using requested_of_record [OF rq] by (auto simp: operator_setpoints_def key)
  with handle_command_executed [OF c ex rq] show ?thesis
    by (simp add: dispatch_one_def Let_def publish_event_accepted [OF assms(2), of _ ?cmd ?f, simplified])
qed

interpretation site_commander: module_commander "dispatch_one w now accepts parse_frame frame stamp cfg cache dv"
    "\<lambda>g. operator_setpoints (g_requested g)"
    "\<lambda>i. reads_frames parse_frame frame stamp \<and> (\<forall>ev. accepts ev) \<and> commandable cfg dv i"
  for w now accepts parse_frame frame stamp cfg cache dv
  by unfold_locales (blast intro: dispatch_one_reaches)

section \<open>An event, abstractly\<close>

text \<open>
  What an event is to an operator: the setpoints before it, if one is in force; what it asked of
  each module; and the setpoints now. An event that asks for power changes exactly the modules
  whose share moved, all at once; its end returns exactly the modules that still do what it asked.
\<close>

record event_view =
  v_before :: "(string \<rightharpoonup> f64) option"
  v_asked :: "string \<rightharpoonup> f64"
  v_setpoint :: "string \<rightharpoonup> f64"

definition moved :: "(string \<rightharpoonup> f64) \<Rightarrow> (string \<rightharpoonup> f64) \<Rightarrow> (string \<rightharpoonup> f64)" where
  "moved asked shares = (\<lambda>i. case shares i of
     None \<Rightarrow> None
   | Some s \<Rightarrow> (case asked i of
       None \<Rightarrow> Some s
     | Some p \<Rightarrow> if \<bar>s - p\<bar> \<ge> SAME_SETPOINT_W then Some s else None))"

definition obeyed :: "event_view \<Rightarrow> string \<Rightarrow> bool" where
  "obeyed v i = (case (v_asked v i, v_setpoint v i) of
     (Some s, Some c) \<Rightarrow> \<bar>c - s\<bar> < SAME_SETPOINT_W | _ \<Rightarrow> False)"

fun event_spec :: "posture \<Rightarrow> (string \<rightharpoonup> f64) option \<Rightarrow> event_view \<Rightarrow> event_view" where
  "event_spec Hold shares v = v"
| "event_spec Release shares v = (case v_before v of
     None \<Rightarrow> \<lparr>v_before = None, v_asked = Map.empty, v_setpoint = v_setpoint v\<rparr>
   | Some before \<Rightarrow> \<lparr>v_before = None, v_asked = Map.empty,
       v_setpoint = (\<lambda>i. if obeyed v i then Some (case before i of Some x \<Rightarrow> x | None \<Rightarrow> 0) else v_setpoint v i)\<rparr>)"
| "event_spec (DispatchTo t) shares v =
     (let v = v\<lparr>v_before := Some (case v_before v of Some b \<Rightarrow> b | None \<Rightarrow> v_setpoint v)\<rparr> in
      case shares of
        None \<Rightarrow> v
      | Some sh \<Rightarrow> v\<lparr>v_asked := v_asked v ++ moved (v_asked v) sh, v_setpoint := v_setpoint v ++ moved (v_asked v) sh\<rparr>)"

definition view :: "event_memory \<times> gateway \<Rightarrow> event_view" where
  "view st = \<lparr>v_before = em_snapshot (fst st), v_asked = map_of (em_dispatched (fst st)),
     v_setpoint = operator_setpoints (g_requested (snd st))\<rparr>"

lemma map_of_mem_changed:
  "distinct (map fst shares) \<Longrightarrow> map_of (mem_changed mem shares) = moved (map_of (em_dispatched mem)) (map_of shares)"
  by (rule ext) (simp add: mem_changed_def moved_def map_of_filter_distinct split: option.split)

lemma mem_changed_keys:
  "distinct (map fst shares) \<Longrightarrow> distinct (map fst (mem_changed mem shares))"
  "fst ` set (mem_changed mem shares) \<subseteq> fst ` set shares"
  by (auto simp: mem_changed_def distinct_map_filter)

lemma mem_end_keys:
  "distinct (map fst (em_dispatched mem)) \<Longrightarrow> distinct (map fst (mem_end mem current))"
  "fst ` set (mem_end mem current) \<subseteq> fst ` set (em_dispatched mem)"
  by (auto simp: mem_end_def case_prod_unfold comp_def distinct_map_filter split: option.split) force

lemma map_of_mem_end:
  assumes "distinct (map fst (em_dispatched mem))" and "em_snapshot mem = Some before"
  shows "map_of (mem_end mem current) i = (case (map_of (em_dispatched mem) i, current i) of
     (Some s, Some c) \<Rightarrow> if \<bar>c - s\<bar> < SAME_SETPOINT_W then Some (case before i of Some x \<Rightarrow> x | None \<Rightarrow> 0) else None
   | _ \<Rightarrow> None)"
  using assms by (simp add: mem_end_def map_of_map_key map_of_filter_distinct split: option.split)

section \<open>The tick implements the event\<close>

definition module_of :: "instant \<Rightarrow> input_cache \<Rightarrow> string \<Rightarrow> f64 \<Rightarrow> string set \<Rightarrow> string \<times> (string \<times> protocol_binding) list \<Rightarrow> child_capacity \<Rightarrow> bool" where
  "module_of now cache site t locked entry c \<longleftrightarrow> cp_device_id c = fst entry \<and> fst entry \<notin> locked \<and> cp_operating_state c = Standby \<and>
     read_number cache (soc_topic site (fst entry)) = Some (cp_state_of_charge c) \<and>
     (\<exists>d lo hi. map_of (snd entry) CHANNEL_KEY = Some (Distribute d) \<and> d_power_min d = Some lo \<and> d_power_max d = Some hi \<and>
       cp_headroom c = module_headroom now d lo hi t site cache locked)"

lemma modules_with_bounds_Cons:
  assumes "modules_with_bounds now (x # chs) cache site t locked = Some ms"
  shows "modules_with_bounds now chs cache site t locked = Some ms \<or>
    (\<exists>c ms'. ms = c # ms' \<and> modules_with_bounds now chs cache site t locked = Some ms' \<and> module_of now cache site t locked x c)"
  using assms by (cases x) (auto simp: module_of_def split: option.splits protocol_binding.splits if_splits)

lemma modules_with_bounds_member:
  "modules_with_bounds now chs cache site t locked = Some ms \<Longrightarrow> c \<in> set ms \<Longrightarrow>
     \<exists>x \<in> set chs. module_of now cache site t locked x c"
proof (induction chs arbitrary: ms)
  case (Cons x chs)
  from modules_with_bounds_Cons [OF Cons.prems(1)] Cons.IH Cons.prems(2) show ?case by auto
qed simp

lemma modules_with_bounds_ids:
  "modules_with_bounds now chs cache site t locked = Some ms \<Longrightarrow> distinct (map fst chs) \<Longrightarrow> distinct (map cp_device_id ms)"
proof (induction chs arbitrary: ms)
  case (Cons x chs)
  have out: "fst x \<notin> cp_device_id ` set ms'" if "modules_with_bounds now chs cache site t locked = Some ms'" for ms'
    using Cons.prems(2) modules_with_bounds_member [OF that] by (force simp: module_of_def)
  from modules_with_bounds_Cons [OF Cons.prems(1)] Cons.IH Cons.prems(2) out show ?case
    by (auto simp: module_of_def)
qed simp

lemma site_shares_ids:
  assumes "site_shares now chs cache site t locked = Some shares" and "distinct (map fst chs)"
  shows "distinct (map fst shares)"
    and "i \<in> fst ` set shares \<Longrightarrow> \<exists>commands d. (i, commands) \<in> set chs \<and> map_of commands CHANNEL_KEY = Some (Distribute d) \<and> i \<notin> locked"
proof -
  from assms(1) obtain ms where ms: "modules_with_bounds now chs cache site t locked = Some ms" "shares = allocate t ms SocWeighted"
    by (auto simp: site_shares_def split: option.splits if_splits)
  have ids: "map fst shares = map cp_device_id (eligible ms)"
    by (simp add: ms(2) map_fst_allocate)
  show "distinct (map fst shares)"
    unfolding ids eligible_def by (rule distinct_map_filter) (rule modules_with_bounds_ids [OF ms(1) assms(2)])
  show "\<exists>commands d. (i, commands) \<in> set chs \<and> map_of commands CHANNEL_KEY = Some (Distribute d) \<and> i \<notin> locked"
    if "i \<in> fst ` set shares"
  proof -
    from that ids obtain c where "c \<in> set ms" "cp_device_id c = i"
      by (metis (no_types, lifting) eligible_subset image_iff image_set subsetD)
    with modules_with_bounds_member [OF ms(1)] show ?thesis by (fastforce simp: module_of_def)
  qed
qed

definition site_ready :: "site_config \<Rightarrow> devices \<Rightarrow> bool" where
  "site_ready cfg dv \<longleftrightarrow> distinct (map fst (dv_channels dv)) \<and>
     (\<forall>(i, commands) \<in> set (dv_channels dv). \<forall>d. map_of commands CHANNEL_KEY = Some (Distribute d) \<longrightarrow> i \<notin> dv_locked dv \<longrightarrow>
       commandable cfg dv i)"

definition event_ok :: "site_config \<Rightarrow> devices \<Rightarrow> event_memory \<times> gateway \<Rightarrow> bool" where
  "event_ok cfg dv st \<longleftrightarrow> distinct (map fst (em_dispatched (fst st))) \<and>
     (\<forall>i \<in> dom (map_of (em_dispatched (fst st))). commandable cfg dv i)"

lemma event_ok_keys: "event_ok cfg dv st \<Longrightarrow> i \<in> fst ` set (em_dispatched (fst st)) \<Longrightarrow> commandable cfg dv i"
  unfolding event_ok_def dom_map_of_conv_image_fst by blast

lemma distinct_dispatch_changed:
  "distinct (map fst (em_dispatched mem)) \<Longrightarrow> dispatch_changed send xs (mem, g) = (r, mem', g') \<Longrightarrow>
     distinct (map fst (em_dispatched mem'))"
proof (induction send xs "(mem, g)" arbitrary: mem g rule: dispatch_changed.induct)
  case (2 send i share rest mem g)
  then show ?case
    by (auto simp: mem_record_def distinct_update split: prod.splits outcome.splits if_splits)
qed simp

lemma release_refines:
  fixes w :: world and now :: instant and cache :: input_cache
  assumes "reads_frames parse_frame frame stamp" and "\<forall>ev. accepts ev" and "event_ok cfg dv (mem, g)"
  defines "send \<equiv> dispatch_one w now accepts parse_frame frame stamp cfg cache dv"
  shows "\<exists>st'. release send (operator_setpoints (g_requested g)) (mem, g) = (Ok (), st') \<and>
    view st' = event_spec Release shares (view (mem, g)) \<and> event_ok cfg dv st'"
proof -
  let ?cur = "operator_setpoints (g_requested g)"
  have d: "distinct (map fst (em_dispatched mem))" using assms(3) by (simp add: event_ok_def)
  have "\<forall>i \<in> fst ` set (mem_end mem ?cur). commandable cfg dv i"
    using mem_end_keys(2) [of mem ?cur] event_ok_keys [OF assms(3)] by auto
  with site_commander.restore_all_reaches [of "mem_end mem ?cur" parse_frame frame stamp accepts cfg dv w now cache True g]
    assms(1,2) mem_end_keys(1) [OF d] obtain g' where
    g': "restore_all send (mem_end mem ?cur) True g = (Ok True, g')" "operator_setpoints (g_requested g') = ?cur ++ map_of (mem_end mem ?cur)"
    unfolding send_def by blast
  have "view (mem_clear mem, g') = event_spec Release shares (view (mem, g))"
  proof (cases "em_snapshot mem")
    case None
    then have "mem_end mem ?cur = []" by (simp add: mem_end_def)
    with None g'(2) show ?thesis by (simp add: view_def mem_clear_def new_event_memory_def)
  next
    case (Some before)
    have "(?cur ++ map_of (mem_end mem ?cur)) i =
        (if obeyed (view (mem, g)) i then Some (case before i of Some x \<Rightarrow> x | None \<Rightarrow> 0) else ?cur i)" for i
      using map_of_mem_end [OF d Some, of ?cur i]
      by (cases "map_of (em_dispatched mem) i"; cases "?cur i") (simp_all add: map_add_def obeyed_def view_def)
    with Some g'(2) show ?thesis by (simp add: view_def mem_clear_def new_event_memory_def fun_eq_iff)
  qed
  moreover have "event_ok cfg dv (mem_clear mem, g')" by (simp add: event_ok_def mem_clear_def new_event_memory_def)
  ultimately show ?thesis using g'(1) by (auto simp: release_def)
qed

lemma mem_begin_fields [simp]:
  "em_dispatched (mem_begin op mem) = em_dispatched mem"
  "em_snapshot (mem_begin op mem) = Some (case em_snapshot mem of Some b \<Rightarrow> b | None \<Rightarrow> op)"
  by (auto simp: mem_begin_def split: option.split)

lemma dispatch_refines:
  fixes w :: world
  assumes "reads_frames parse_frame frame stamp" and "\<forall>ev. accepts ev" and "event_ok cfg dv (mem, g)" and "site_ready cfg dv"
    and "site_shares now (dv_channels dv) cache site t (dv_locked dv) = Some shares"
  defines "send \<equiv> dispatch_one w now accepts parse_frame frame stamp cfg cache dv"
    and "mem0 \<equiv> mem_begin (operator_setpoints (g_requested g)) mem"
  shows "\<exists>st'. dispatch_changed send (mem_changed mem0 shares) (mem0, g) = (Ok (), st') \<and>
    view st' = event_spec (DispatchTo t) (Some (map_of shares)) (view (mem, g)) \<and> event_ok cfg dv st'"
proof -
  have ready: "distinct (map fst (dv_channels dv))" using assms(4) by (simp add: site_ready_def)
  note ids = site_shares_ids [OF assms(5) ready]
  have cmd: "commandable cfg dv i" if "i \<in> fst ` set shares" for i
    using ids(2) [OF that] assms(4) by (fastforce simp: site_ready_def)
  let ?ch = "mem_changed mem0 shares"
  have "\<forall>i \<in> fst ` set ?ch. commandable cfg dv i"
    using mem_changed_keys(2) [of mem0 shares] cmd by blast
  with site_commander.dispatch_changed_reaches [of ?ch parse_frame frame stamp accepts cfg dv w now cache mem0 g]
    assms(1,2) mem_changed_keys(1) [OF ids(1)] obtain mem' g' where
    g': "dispatch_changed send ?ch (mem0, g) = (Ok (), mem', g')"
      "operator_setpoints (g_requested g') = operator_setpoints (g_requested g) ++ map_of ?ch"
      "em_snapshot mem' = em_snapshot mem0" "map_of (em_dispatched mem') = map_of (em_dispatched mem0) ++ map_of ?ch"
    unfolding send_def by blast
  have "view (mem', g') = event_spec (DispatchTo t) (Some (map_of shares)) (view (mem, g))"
    using g'(2-4) by (simp add: view_def mem0_def map_of_mem_changed [OF ids(1)] Let_def split: option.split)
  moreover have "event_ok cfg dv (mem', g')"
  proof -
    have "distinct (map fst (em_dispatched mem0))" using assms(3) by (simp add: mem0_def event_ok_def)
    from distinct_dispatch_changed [OF this g'(1)] have "distinct (map fst (em_dispatched mem'))" .
    moreover have "dom (map_of (em_dispatched mem')) = dom (map_of (em_dispatched mem)) \<union> dom (map_of ?ch)"
      using g'(4) by (auto simp: mem0_def)
    ultimately show ?thesis
      using assms(3) \<open>\<forall>i \<in> fst ` set ?ch. commandable cfg dv i\<close> by (auto simp: event_ok_def dom_map_of_conv_image_fst)
  qed
  ultimately show ?thesis using g'(1) by blast
qed

lemma site_tick_refines:
  assumes "reads_frames parse_frame frame stamp" and "\<forall>ev. accepts ev" and "site_ready cfg dv" and "event_ok cfg dv st"
  shows "\<exists>st'. site_tick w now accepts parse_frame frame stamp cfg cache dv st = (Ok (), st') \<and> event_ok cfg dv st' \<and>
    view st' = event_spec (posture_of (sd_topics cfg) cache)
      (case posture_of (sd_topics cfg) cache of
         DispatchTo t \<Rightarrow> map_option map_of (site_shares now (dv_channels dv) cache (sd_site_id cfg) t (dv_locked dv))
       | _ \<Rightarrow> None) (view st)"
proof -
  obtain mem g where st: "st = (mem, g)" by fastforce
  show ?thesis
  proof (cases "posture_of (sd_topics cfg) cache")
    case Hold
    with assms(4) show ?thesis by (simp add: site_tick_def)
  next
    case Release
    with release_refines [OF assms(1,2) assms(4) [unfolded st], of w now cache None] show ?thesis
      by (auto simp: site_tick_def st)
  next
    case (DispatchTo t)
    show ?thesis
    proof (cases "site_shares now (dv_channels dv) cache (sd_site_id cfg) t (dv_locked dv)")
      case None
      with DispatchTo assms(4) show ?thesis
        by (auto simp: site_tick_def st view_def event_ok_def Let_def split: option.split)
    next
      case (Some shares)
      from dispatch_refines [OF assms(1,2) assms(4) [unfolded st] assms(3) Some, of w] obtain st' where
        "dispatch_changed (dispatch_one w now accepts parse_frame frame stamp cfg cache dv)
           (mem_changed (mem_begin (operator_setpoints (g_requested g)) mem) shares)
           (mem_begin (operator_setpoints (g_requested g)) mem, g) = (Ok (), st')"
        "view st' = event_spec (DispatchTo t) (Some (map_of shares)) (view (mem, g))" "event_ok cfg dv st'" by blast
      with DispatchTo Some show ?thesis by (simp add: site_tick_def st)
    qed
  qed
qed


section \<open>An event gives back what it took\<close>

text \<open>One loop of the task over readings that all ask for power.\<close>

definition site_run :: "world \<Rightarrow> (dispatch_event \<Rightarrow> bool) \<Rightarrow> ('p \<Rightarrow> command_frame option) \<Rightarrow> (string \<times> string \<Rightarrow> f64 \<Rightarrow> 'p) \<Rightarrow> (string \<Rightarrow> string \<times> string) \<Rightarrow> site_config \<Rightarrow> devices \<Rightarrow> (instant \<times> input_cache) list \<Rightarrow> event_memory \<times> gateway \<Rightarrow> event_memory \<times> gateway" where
  "site_run w accepts parse_frame frame stamp cfg dv ticks st =
     foldl (\<lambda>st (now, cache). snd (site_tick w now accepts parse_frame frame stamp cfg cache dv st)) st ticks"

definition in_event :: "(string \<rightharpoonup> f64) \<Rightarrow> event_view \<Rightarrow> bool" where
  "in_event before v \<longleftrightarrow> v_before v = Some before \<and>
     (\<forall>i s. v_asked v i = Some s \<longrightarrow> v_setpoint v i = Some s) \<and> (\<forall>i. v_asked v i = None \<longrightarrow> v_setpoint v i = before i)"

lemma in_event_dispatch:
  "in_event before v \<or> (v_before v = None \<and> v_asked v = Map.empty \<and> v_setpoint v = before) \<Longrightarrow>
     in_event before (event_spec (DispatchTo t) sh v)"
  by (cases sh) (auto simp: in_event_def Let_def moved_def map_add_def split: option.splits)

lemma in_event_release:
  assumes "in_event before v"
  shows "v_setpoint (event_spec Release sh v) i =
    (if v_asked v i = None then before i else Some (case before i of Some x \<Rightarrow> x | None \<Rightarrow> 0))"
proof -
  have b: "v_before v = Some before" using assms by (simp add: in_event_def)
  show ?thesis
    using assms by (cases "v_asked v i") (simp_all add: in_event_def b obeyed_def SAME_SETPOINT_W_def)
qed

lemma site_run_in_event:
  assumes "reads_frames parse_frame frame stamp" and "\<forall>ev. accepts ev" and "site_ready cfg dv" and "event_ok cfg dv st"
    and "\<forall>(now, cache) \<in> set ticks. \<exists>t. posture_of (sd_topics cfg) cache = DispatchTo t"
    and "in_event before (view st) \<or> ticks \<noteq> [] \<and> v_before (view st) = None \<and> v_asked (view st) = Map.empty \<and> v_setpoint (view st) = before"
  shows "event_ok cfg dv (site_run w accepts parse_frame frame stamp cfg dv ticks st) \<and>
    in_event before (view (site_run w accepts parse_frame frame stamp cfg dv ticks st))"
  using assms(4-)
proof (induction ticks arbitrary: st)
  case Nil
  then show ?case by (simp add: site_run_def)
next
  case (Cons x ticks)
  obtain now cache where x: "x = (now, cache)" by fastforce
  from Cons.prems(2) x obtain t where t: "posture_of (sd_topics cfg) cache = DispatchTo t" by auto
  from site_tick_refines [OF assms(1-3) Cons.prems(1), of w now cache] t obtain st' sh where
    st': "site_tick w now accepts parse_frame frame stamp cfg cache dv st = (Ok (), st')" "event_ok cfg dv st'"
      "view st' = event_spec (DispatchTo t) sh (view st)" by (auto simp del: event_spec.simps)
  from st'(3) Cons.prems(3) have "in_event before (view st')" by (auto simp del: event_spec.simps intro: in_event_dispatch)
  with Cons.IH [OF st'(2)] Cons.prems(2) x st'(1) show ?case by (simp add: site_run_def)
qed


section \<open>How a site target is split\<close>

text \<open>
  A site target is never split past what the modules can do: with states of charge between 0
  and 100, every share goes to a module that is not locked out, points the way the target does, is
  at most the module's own bound and at most what its racks that are not locked out can take right
  now, and the shares together ask for no more than the target.
\<close>

lemma site_shares_bounded:
  assumes "site_shares now chs cache site t locked = Some shares"
    and "\<forall>(i, commands) \<in> set chs. \<forall>soc. read_number cache (soc_topic site i) = Some soc \<longrightarrow> 0 \<le> soc \<and> soc \<le> 100"
  shows "(\<forall>(i, s) \<in> set shares. i \<notin> locked \<and> 0 \<le> sign_of t * s \<and>
      (\<exists>commands d lo hi. (i, commands) \<in> set chs \<and> map_of commands CHANNEL_KEY = Some (Distribute d) \<and>
        d_power_min d = Some lo \<and> d_power_max d = Some hi \<and> \<bar>s\<bar> \<le> max 0 (if t < 0 then \<bar>lo\<bar> else hi) \<and>
        (d_children d \<noteq> [] \<longrightarrow> \<bar>s\<bar> \<le> max 0 (\<Sum>c \<leftarrow> filter (\<lambda>c. ca_device_id c \<notin> locked) (d_children d). headroom now c t site cache)))) \<and>
    (\<Sum>(i, s) \<leftarrow> shares. \<bar>s\<bar>) \<le> \<bar>t\<bar>"
proof -
  from assms(1) obtain ms where ms: "modules_with_bounds now chs cache site t locked = Some ms" "shares = allocate t ms SocWeighted"
    by (auto simp: site_shares_def split: option.splits if_splits)
  have ok: "\<forall>c \<in> set ms. soc_ok c"
    using modules_with_bounds_member [OF ms(1)] assms(2) by (fastforce simp: module_of_def soc_ok_def)
  have "i \<notin> locked \<and> 0 \<le> sign_of t * s \<and>
      (\<exists>commands d lo hi. (i, commands) \<in> set chs \<and> map_of commands CHANNEL_KEY = Some (Distribute d) \<and>
        d_power_min d = Some lo \<and> d_power_max d = Some hi \<and> \<bar>s\<bar> \<le> max 0 (if t < 0 then \<bar>lo\<bar> else hi) \<and>
        (d_children d \<noteq> [] \<longrightarrow> \<bar>s\<bar> \<le> max 0 (\<Sum>c \<leftarrow> filter (\<lambda>c. ca_device_id c \<notin> locked) (d_children d). headroom now c t site cache)))"
    if "(i, s) \<in> set shares" for i s
  proof -
    from alloc.alloc_member [OF ok that [unfolded ms(2)]] obtain c where
      c: "c \<in> set ms" "cp_device_id c = i" "0 \<le> sign_of t * s" "\<bar>s\<bar> \<le> max (cp_headroom c) 0"
      by (auto simp: child_cap_def)
    from modules_with_bounds_member [OF ms(1) c(1)] c(2) obtain commands d lo hi where
      m: "(i, commands) \<in> set chs" "map_of commands CHANNEL_KEY = Some (Distribute d)" "d_power_min d = Some lo"
        "d_power_max d = Some hi" "cp_headroom c = module_headroom now d lo hi t site cache locked" "i \<notin> locked"
      by (auto simp: module_of_def)
    have "cp_headroom c \<le> (if t < 0 then \<bar>lo\<bar> else hi)"
      "d_children d \<noteq> [] \<Longrightarrow> cp_headroom c \<le> (\<Sum>c \<leftarrow> filter (\<lambda>c. ca_device_id c \<notin> locked) (d_children d). headroom now c t site cache)"
      unfolding m(5) module_headroom_def Let_def by auto
    with c(4) have "\<bar>s\<bar> \<le> max 0 (if t < 0 then \<bar>lo\<bar> else hi)"
      "d_children d \<noteq> [] \<longrightarrow> \<bar>s\<bar> \<le> max 0 (\<Sum>c \<leftarrow> filter (\<lambda>c. ca_device_id c \<notin> locked) (d_children d). headroom now c t site cache)"
      by linarith+
    with m c(3) show ?thesis by blast
  qed
  moreover have "(\<Sum>(i, s) \<leftarrow> shares. \<bar>s\<bar>) \<le> \<bar>t\<bar>"
    unfolding ms(2) by (rule alloc.alloc_sum [OF ok])
  ultimately show ?thesis by blast
qed

section \<open>A share that failed\<close>

text \<open>
  A command whose write fails is handled all the same, so the event remembers a share the module
  never took. At the event's end the module's setpoint differs from it, which reads as an operator
  having commanded the module meanwhile, and it is left at the event's previous share.
\<close>

theorem failed_share_is_not_restored:
  assumes "\<forall>ev. accepts ev"
    and "course_of accepts parse_frame (sd_site_id cfg) dv (module_topic (sd_site_id cfg) i) (frame (stamp i) share) = Executed b cmd f"
    and "fst (execute_setpoint w now b (cf_value f) (ct_device_id cmd) (command_key (ct_verb cmd) (ct_target cmd)) (sd_site_id cfg)
           (dv_channels dv) (dv_trust dv) (dv_locked dv) (sd_creds cfg) cache (g_south g)) = Err e"
    and "operator_setpoints (g_requested g) i = Some s1" and "SAME_SETPOINT_W \<le> \<bar>s1 - share\<bar>"
    and "distinct (map fst (em_dispatched mem))"
  shows "\<exists>g'. dispatch_one w now accepts parse_frame frame stamp cfg cache dv i share g = (Ok True, g') \<and>
    i \<notin> fst ` set (mem_end (mem_record i share mem) (operator_setpoints (g_requested g')))"
proof -
  obtain south' where ex: "execute_setpoint w now b (cf_value f) (ct_device_id cmd) (command_key (ct_verb cmd) (ct_target cmd)) (sd_site_id cfg)
      (dv_channels dv) (dv_trust dv) (dv_locked dv) (sd_creds cfg) cache (g_south g) = (Err e, south')"
    using assms(3) by (metis fst_conv surj_pair)
  obtain prev req where rq: "record_request (g_requested g) (ct_device_id cmd) (command_key (ct_verb cmd) (ct_target cmd)) (cf_value f) = (prev, req)"
    by fastforce
  obtain g' where g': "dispatch_one w now accepts parse_frame frame stamp cfg cache dv i share g = (Ok True, g')"
      "requested_of (g_requested g') = requested_of (g_requested g)"
    using handle_command_executed [OF assms(2) ex rq] restore_undoes_record [OF rq]
    by (simp add: dispatch_one_def Let_def publish_event_accepted [OF assms(1)])
  have cur: "operator_setpoints (g_requested g') i = Some s1"
    using g'(2) assms(4) by (simp add: operator_setpoints_def)
  have "distinct (map fst (em_dispatched (mem_record i share mem)))"
    using assms(6) by (simp add: mem_record_def distinct_update)
  moreover have "map_of (em_dispatched (mem_record i share mem)) i = Some share"
    by (simp add: mem_record_def update_conv')
  ultimately have "map_of (mem_end (mem_record i share mem) (operator_setpoints (g_requested g'))) i = None"
    using cur assms(5) map_of_mem_end [of "mem_record i share mem" _ "operator_setpoints (g_requested g')" i]
    by (cases "em_snapshot (mem_record i share mem)") (auto simp: mem_end_def)
  with g'(1) show ?thesis by (auto simp: map_of_eq_None_iff)
qed

section \<open>An example\<close>

definition ex_guarded :: distribute_binding where
  "ex_guarded = ex_module\<lparr>d_ramp_rate_per_sec := Some (1 / 10), d_hysteresis_margin := Some (1 / 20), d_hysteresis_dwell_secs := Some 30,
     d_power_min := Some (- 100), d_power_max := Some 100, d_import_limit_topic := Some ''imp'', d_export_limit_topic := Some ''exp'',
     d_active_power_topic := Some ''act''\<rparr>"

definition ex_site :: site_config where
  "ex_site = \<lparr>sd_site_id = ''s'', sd_topics = \<lparr>pt_event_active = ''ev'', pt_target_present = ''tp'', pt_target = ''tg''\<rparr>, sd_creds = None\<rparr>"

definition ex_site_devices :: devices where
  "ex_site_devices = \<lparr>dv_channels = [(''m'', [(CHANNEL_KEY, Distribute ex_guarded)])], dv_trust = Map.empty, dv_locked = {}\<rparr>"

definition ex_site_cache :: "bool \<Rightarrow> input_cache" where
  "ex_site_cache active = [''ev'' \<mapsto> (JBool active, 0), ''tp'' \<mapsto> (JBool True, 0), ''tg'' \<mapsto> (JNum 30, 0), soc_topic ''s'' ''m'' \<mapsto> (JNum 50, 0)]"

definition ex_stamp :: "string \<Rightarrow> string \<times> string" where
  "ex_stamp i = (''2026-01-01T00:00:00Z'', ''site-dist-1'')"

definition ex_parse :: "(string \<times> string) \<times> f64 \<Rightarrow> command_frame option" where
  "ex_parse p = Some \<lparr>cf_ts = fst (fst p), cf_value = snd p, cf_command_id = snd (fst p)\<rparr>"

lemma ex_frames: "reads_frames ex_parse Pair ex_stamp"
  by (simp add: reads_frames_def ex_parse_def)

lemma ex_site_ready: "site_ready ex_site ex_site_devices"
  by (simp add: site_ready_def ex_site_devices_def ex_site_def commandable_def channel_lookup_def ex_guarded_def
      envelope_guard_config_def from_secs_f64_def)

lemma ex_postures:
  "posture_of (sd_topics ex_site) (ex_site_cache True) = DispatchTo 30"
  "posture_of (sd_topics ex_site) (ex_site_cache False) = Release"
  by (simp_all add: posture_of_def ex_site_def ex_site_cache_def read_number_def soc_topic_def)



end
