(* ===== verification/Synthetic.thy ===== *)
theory Synthetic
  imports Distribution
begin

text \<open>
  Derived measurements: the operations (\<^verbatim>\<open>synthetic/operation.rs\<close>), when an input counts as dead
  (\<^verbatim>\<open>synthetic/stale.rs\<close>, with the poll-rate policy of \<^verbatim>\<open>app.rs\<close>), one tick of a synthetic
  channel (\<^verbatim>\<open>synthetic/task.rs\<close>) and how samples get into the cache
  (\<^verbatim>\<open>mqtt/subscriber.rs\<close>).
\<close>

section \<open>Operations\<close>

datatype operation = Subtract | Sum_op | Mean_op | Max_op | Min_op | Unbalance

definition parse_operation :: "string \<Rightarrow> operation outcome" where
  "parse_operation name =
     (if name = ''subtract'' then Ok Subtract else if name = ''sum'' then Ok Sum_op
      else if name = ''mean'' then Ok Mean_op else if name = ''max'' then Ok Max_op
      else if name = ''min'' then Ok Min_op else if name = ''unbalance'' then Ok Unbalance
      else Err (E ''unknown synthetic operation'' [S name]))"

definition require_nonempty :: "f64 list \<Rightarrow> string \<Rightarrow> unit outcome" where
  "require_nonempty inputs name = (if inputs = [] then Err (E ''requires at least one input'' [S name]) else Ok ())"

text \<open>\<^verbatim>\<open>Max\<close> and \<^verbatim>\<open>Min\<close> fold from an infinity, so their folds are over extended floats.\<close>

definition apply_mean :: "f64 list \<Rightarrow> f64 outcome" where
  "apply_mean inputs = bind_outcome (require_nonempty inputs ''mean'') (\<lambda>_. Ok (sum_list inputs / real (length inputs)))"

fun apply_op :: "operation \<Rightarrow> f64 list \<Rightarrow> f64 outcome" where
  "apply_op Subtract inputs =
     (case inputs of [a, b] \<Rightarrow> Ok (a - b)
      | _ \<Rightarrow> Err (E ''subtract requires exactly 2 inputs'' [W (length inputs)]))"
| "apply_op Sum_op inputs = bind_outcome (require_nonempty inputs ''sum'') (\<lambda>_. Ok (sum_list inputs))"
| "apply_op Mean_op inputs = apply_mean inputs"
| "apply_op Max_op inputs = bind_outcome (require_nonempty inputs ''max'') (\<lambda>_.
     to_finite (foldl max_f64x NegInf (map Fin inputs)))"
| "apply_op Min_op inputs = bind_outcome (require_nonempty inputs ''min'') (\<lambda>_.
     to_finite (foldl min_f64x PosInf (map Fin inputs)))"
| "apply_op Unbalance inputs = bind_outcome (apply_mean inputs) (\<lambda>mean.
     if mean \<le> 0 then Err (E ''unbalance needs a positive mean'' [N mean])
     else Ok (100 * foldl max 0 (map (\<lambda>x. \<bar>x - mean\<bar>) inputs) / mean))"

definition weighted_mean :: "(f64 \<times> f64) list \<Rightarrow> f64 outcome" where
  "weighted_mean pairs =
     (if pairs = [] then Err (E ''weighted_mean requires at least one pair'' [])
      else
        let total_weight = (\<Sum>(_, w) \<leftarrow> pairs. w) in
        if total_weight \<le> 0 then Err (E ''weighted_mean requires a positive total weight'' [N total_weight])
        else Ok ((\<Sum>(v, w) \<leftarrow> pairs. v * w) / total_weight))"

section \<open>Poll rates and dead inputs\<close>

definition MIN_POLL_HZ :: f64 where
  "MIN_POLL_HZ = 1 / 100"

definition MAX_POLL_HZ :: f64 where
  "MAX_POLL_HZ = 10"

definition DEFAULT_POLL_HZ :: f64 where
  "DEFAULT_POLL_HZ = 1"

definition clamp_poll_rate :: "f64 option \<Rightarrow> f64" where
  "clamp_poll_rate value =
     (let raw = (case value of Some v \<Rightarrow> v | None \<Rightarrow> DEFAULT_POLL_HZ) in
      if raw < MIN_POLL_HZ then MIN_POLL_HZ else if raw > MAX_POLL_HZ then MAX_POLL_HZ else raw)"

definition STALE_FLOOR :: duration where
  "STALE_FLOOR = secs 5"

definition MISSED_POLLS :: f64 where
  "MISSED_POLLS = 3"

definition poll_rate_hz :: "asyncapi_spec \<Rightarrow> string \<Rightarrow> f64 option outcome" where
  "poll_rate_hz spec topic = (case split_on (CHR ''/'') topic of
     [_, _, _, device, _, measurement, _] \<Rightarrow>
       (case Option.bind (map_of (x_protocol_source spec) device) (\<lambda>m. map_of m measurement) of
          None \<Rightarrow> Ok None
        | Some source \<Rightarrow>
            bind_outcome (clamp (case ps_poll_rate_hz source of Some v \<Rightarrow> v | None \<Rightarrow> DEFAULT_POLL_HZ) MIN_POLL_HZ MAX_POLL_HZ)
              (\<lambda>hz. Ok (Some hz)))
   | _ \<Rightarrow> Ok None)"

definition stale_limit :: "asyncapi_spec \<Rightarrow> string \<Rightarrow> duration option outcome" where
  "stale_limit spec topic = bind_outcome (poll_rate_hz spec topic) (\<lambda>hz. case hz of
     None \<Rightarrow> Ok None
   | Some hz \<Rightarrow> bind_outcome (from_secs_f64 (MISSED_POLLS / hz)) (\<lambda>d. Ok (Some (max STALE_FLOOR d))))"

fun stale_limits :: "asyncapi_spec \<Rightarrow> string list \<Rightarrow> (string \<rightharpoonup> duration) outcome" where
  "stale_limits spec [] = Ok Map.empty"
| "stale_limits spec (t # ts) = bind_outcome (stale_limit spec t) (\<lambda>l.
     bind_outcome (stale_limits spec ts) (\<lambda>m. Ok (case l of None \<Rightarrow> m | Some d \<Rightarrow> m(t \<mapsto> d))))"

section \<open>The task\<close>

datatype computation = Operation operation "string list" | WeightedMean "(string \<times> f64) list"

record synthetic_task_config =
  sy_output_topic :: string
  sy_computation :: computation
  sy_tick_hz :: f64
  sy_stale_limits :: "string \<rightharpoonup> duration"

definition fresh :: "instant \<Rightarrow> input_cache \<Rightarrow> string \<Rightarrow> (string \<rightharpoonup> duration) \<Rightarrow> (json \<times> instant) option" where
  "fresh now cache topic limits = (case cache topic of
     None \<Rightarrow> None
   | Some e \<Rightarrow>
       if (case limits topic of Some l \<Rightarrow> elapsed now (snd e) > l | None \<Rightarrow> False) then None else Some e)"

fun gather_inputs :: "instant \<Rightarrow> string list \<Rightarrow> input_cache \<Rightarrow> (string \<rightharpoonup> duration) \<Rightarrow> f64 list option" where
  "gather_inputs now [] cache limits = Some []"
| "gather_inputs now (t # ts) cache limits = (case fresh now cache t limits of
     None \<Rightarrow> None
   | Some e \<Rightarrow> (case as_number (fst e) of
       None \<Rightarrow> None
     | Some v \<Rightarrow> map_option (\<lambda>vs. v # vs) (gather_inputs now ts cache limits)))"

fun gather_pairs :: "instant \<Rightarrow> (string \<times> f64) list \<Rightarrow> input_cache \<Rightarrow> (string \<rightharpoonup> duration) \<Rightarrow> (f64 \<times> f64) list option" where
  "gather_pairs now [] cache limits = Some []"
| "gather_pairs now ((t, weight) # ts) cache limits = (case fresh now cache t limits of
     None \<Rightarrow> None
   | Some e \<Rightarrow> (case as_number (fst e) of
       None \<Rightarrow> None
     | Some v \<Rightarrow> map_option (\<lambda>vs. (v, weight) # vs) (gather_pairs now ts cache limits)))"

text \<open>What one tick publishes: nothing on a hold, an error is logged.\<close>

definition synthetic_tick :: "instant \<Rightarrow> synthetic_task_config \<Rightarrow> input_cache \<Rightarrow> (string \<times> f64) option outcome" where
  "synthetic_tick now cfg cache =
     bind_outcome
       (case sy_computation cfg of
          Operation op topics \<Rightarrow> (case gather_inputs now topics cache (sy_stale_limits cfg) of
            None \<Rightarrow> Ok None
          | Some values \<Rightarrow> bind_outcome (apply_op op values) (\<lambda>v. Ok (Some v)))
        | WeightedMean pairs \<Rightarrow> (case gather_pairs now pairs cache (sy_stale_limits cfg) of
            None \<Rightarrow> Ok None
          | Some resolved \<Rightarrow> bind_outcome (weighted_mean resolved) (\<lambda>v. Ok (Some v))))
       (\<lambda>result. Ok (map_option (\<lambda>v. (sy_output_topic cfg, v)) result))"

text \<open>\<^verbatim>\<open>as u64\<close> truncates toward zero and saturates; the argument is at least 1.\<close>

definition hz_to_period_ms :: "f64 \<Rightarrow> u64" where
  "hz_to_period_ms hz = (case max_f64x (Fin 1000 / Fin hz) (Fin 1) of
     Fin p \<Rightarrow> of_nat (min (nat \<lfloor>p\<rfloor>) 18446744073709551615)
   | PosInf \<Rightarrow> 18446744073709551615
   | _ \<Rightarrow> 0)"

text \<open>\<^verbatim>\<open>app::spawn_synthetic\<close>: the configuration of a channel's task; an unknown operation drops it.\<close>

definition computation_of :: "synthetic_binding \<Rightarrow> string \<Rightarrow> computation option" where
  "computation_of b site_id =
     (if sy_operation b = ''weighted_mean''
      then Some (WeightedMean (map (\<lambda>p. (substitute_site_id (wp_topic p) site_id, wp_weight p)) (sy_pairs b)))
      else (case parse_operation (sy_operation b) of
              Ok f \<Rightarrow> Some (Operation f (map (\<lambda>t. substitute_site_id t site_id) (sy_inputs b)))
            | _ \<Rightarrow> None))"

fun computation_topics :: "computation \<Rightarrow> string list" where
  "computation_topics (Operation f topics) = topics"
| "computation_topics (WeightedMean pairs) = map fst pairs"

definition spawn_synthetic :: "asyncapi_spec \<Rightarrow> synthetic_binding \<Rightarrow> string \<Rightarrow> f64 \<Rightarrow> string \<Rightarrow> synthetic_task_config option outcome" where
  "spawn_synthetic spec b output_topic tick_hz site_id = (case computation_of b site_id of
     None \<Rightarrow> Ok None
   | Some c \<Rightarrow> bind_outcome (stale_limits spec (computation_topics c)) (\<lambda>limits.
       Ok (Some \<lparr>sy_output_topic = output_topic, sy_computation = c, sy_tick_hz = tick_hz, sy_stale_limits = limits\<rparr>)))"

section \<open>Samples\<close>

text \<open>\<^verbatim>\<open>parse_sample\<close> stands for \<^verbatim>\<open>serde_json::from_slice::<Sample>\<close>.\<close>

fun is_measurement :: "json \<Rightarrow> bool" where
  "is_measurement (JNum x) = True"
| "is_measurement (JBool b) = True"
| "is_measurement (JStr s) = True"
| "is_measurement v = False"

definition cache_sample :: "('p \<Rightarrow> json option) \<Rightarrow> instant \<Rightarrow> string \<Rightarrow> 'p \<Rightarrow> input_cache \<Rightarrow> input_cache" where
  "cache_sample parse_sample now topic payload cache = (case parse_sample payload of
     Some value \<Rightarrow> if is_measurement value then cache(topic \<mapsto> (value, now)) else cache
   | None \<Rightarrow> cache)"

section \<open>The operations against their definitions\<close>

definition mean_of :: "f64 list \<Rightarrow> f64" where
  "mean_of xs = sum_list xs / real (length xs)"

fun defined_on :: "operation \<Rightarrow> f64 list \<Rightarrow> bool" where
  "defined_on Subtract xs = (length xs = 2)"
| "defined_on Unbalance xs = (xs \<noteq> [] \<and> mean_of xs > 0)"
| "defined_on op xs = (xs \<noteq> [])"

fun value_of :: "operation \<Rightarrow> f64 list \<Rightarrow> f64" where
  "value_of Subtract xs = xs ! 0 - xs ! 1"
| "value_of Sum_op xs = (\<Sum>x \<leftarrow> xs. x)"
| "value_of Mean_op xs = mean_of xs"
| "value_of Max_op xs = Max (set xs)"
| "value_of Min_op xs = Min (set xs)"
| "value_of Unbalance xs = 100 * Max ((\<lambda>x. \<bar>x - mean_of xs\<bar>) ` set xs) / mean_of xs"

lemma foldl_max_f64x: "foldl max_f64x (Fin a) (map Fin xs) = Fin (Max (insert a (set xs)))"
proof (induction xs arbitrary: a)
  case (Cons x xs)
  have "foldl max_f64x (Fin a) (map Fin (x # xs)) = Fin (Max (insert (max a x) (set xs)))"
    using Cons [of "max a x"] by simp
  also have "Max (insert (max a x) (set xs)) = Max (insert a (set (x # xs)))"
    by (cases "set xs = {}") (simp_all add: max.assoc)
  finally show ?case .
qed simp

lemma foldl_min_f64x: "foldl min_f64x (Fin a) (map Fin xs) = Fin (Min (insert a (set xs)))"
proof (induction xs arbitrary: a)
  case (Cons x xs)
  have "foldl min_f64x (Fin a) (map Fin (x # xs)) = Fin (Min (insert (min a x) (set xs)))"
    using Cons [of "min a x"] by simp
  also have "Min (insert (min a x) (set xs)) = Min (insert a (set (x # xs)))"
    by (cases "set xs = {}") (simp_all add: min.assoc)
  finally show ?case .
qed simp

lemma foldl_max: "foldl max a xs = Max (insert a (set xs))" for a :: f64
proof (induction xs arbitrary: a)
  case (Cons x xs)
  have "Max (insert (max a x) (set xs)) = Max (insert a (set (x # xs)))"
    by (cases "set xs = {}") (simp_all add: max.assoc)
  with Cons [of "max a x"] show ?case by simp
qed simp

lemma apply_op_eq:
  "apply_op op xs = Ok v \<longleftrightarrow> defined_on op xs \<and> v = value_of op xs"
  "apply_op op xs \<noteq> Abort a"
proof -
  have mx: "foldl max_f64x NegInf (map Fin xs) = Fin (Max (set xs))" if "xs \<noteq> []"
    using that foldl_max_f64x by (cases xs) auto
  have mn: "foldl min_f64x PosInf (map Fin xs) = Fin (Min (set xs))" if "xs \<noteq> []"
    using that foldl_min_f64x by (cases xs) auto
  have dev: "foldl max 0 (map (\<lambda>x. \<bar>x - m\<bar>) xs) = Max ((\<lambda>x. \<bar>x - m\<bar>) ` set xs)" if "xs \<noteq> []" for m
  proof -
    have "0 \<le> Max ((\<lambda>x. \<bar>x - m\<bar>) ` set xs)"
      using that by (cases xs) (auto simp: Max_ge_iff)
    then show ?thesis using that by (simp add: foldl_max max_absorb2)
  qed
  have two: "length xs = 2 \<longleftrightarrow> (\<exists>a b. xs = [a, b])"
    by (auto simp: length_Suc_conv numeral_2_eq_2)
  show "apply_op op xs = Ok v \<longleftrightarrow> defined_on op xs \<and> v = value_of op xs"
    by (cases op) (auto simp: two require_nonempty_def apply_mean_def mean_of_def mx mn dev not_le split: list.splits)
  show "apply_op op xs \<noteq> Abort a"
    by (cases op) (auto simp: require_nonempty_def apply_mean_def mx mn bind_outcome_eq_Abort split: list.splits)
qed

lemma apply_op_perm:
  assumes "mset xs = mset ys" and "op \<noteq> Subtract"
  shows "apply_op op xs = Ok v \<longleftrightarrow> apply_op op ys = Ok v"
proof -
  have eq: "set xs = set ys" "sum_list xs = sum_list ys" "length xs = length ys" "xs = [] \<longleftrightarrow> ys = []"
    using assms(1) by (metis set_mset_mset, metis sum_mset_sum_list, metis size_mset, metis mset_zero_iff)
  then have "mean_of xs = mean_of ys" by (simp add: mean_of_def)
  with eq assms(2) show ?thesis unfolding apply_op_eq(1) by (cases op) auto
qed

text \<open>A reading the tick may use: cached, a number or a truth value, not past its limit.\<close>

definition usable_input :: "instant \<Rightarrow> input_cache \<Rightarrow> (string \<rightharpoonup> duration) \<Rightarrow> string \<Rightarrow> f64 \<Rightarrow> bool" where
  "usable_input now cache limits topic v \<longleftrightarrow> (\<exists>j received. cache topic = Some (j, received) \<and> as_number j = Some v \<and>
     (\<forall>l. limits topic = Some l \<longrightarrow> elapsed now received \<le> l))"

lemma fresh_usable:
  "(case fresh now cache t limits of None \<Rightarrow> None | Some e \<Rightarrow> as_number (fst e)) = Some v \<longleftrightarrow> usable_input now cache limits t v"
  by (auto simp: fresh_def usable_input_def split: option.splits)

lemma gather_inputs_eq: "gather_inputs now ts cache limits = Some vs \<longleftrightarrow> list_all2 (usable_input now cache limits) ts vs"
proof (induction ts arbitrary: vs)
  case (Cons t ts)
  show ?case
    by (cases vs) (auto simp: fresh_usable [symmetric] Cons split: option.splits)
qed auto

lemma gather_pairs_eq:
  "gather_pairs now ps cache limits = Some vs \<longleftrightarrow>
     map snd vs = map snd ps \<and> list_all2 (usable_input now cache limits) (map fst ps) (map fst vs)"
proof (induction ps arbitrary: vs)
  case (Cons p ps)
  show ?case
    by (cases p; cases vs) (auto simp: fresh_usable [symmetric] Cons split: option.splits)
qed auto

text \<open>
  (C37) A derived value is published exactly when every input is cached, a number or a truth value,
  and no older than its limit, and the operation is defined on those readings; the value published
  is the operation's mathematical definition on them. A tick never panics.
\<close>

theorem synthetic_tick_publishes:
  assumes "sy_computation cfg = Operation op topics"
  shows "(synthetic_tick now cfg cache = Ok (Some (topic, v)) \<longleftrightarrow> topic = sy_output_topic cfg \<and>
      (\<exists>xs. list_all2 (usable_input now cache (sy_stale_limits cfg)) topics xs \<and> defined_on op xs \<and> v = value_of op xs)) \<and>
    synthetic_tick now cfg cache \<noteq> Abort a"
proof (cases "gather_inputs now topics cache (sy_stale_limits cfg)")
  case None
  then have "\<not> list_all2 (usable_input now cache (sy_stale_limits cfg)) topics ys" for ys
    unfolding gather_inputs_eq [symmetric] by simp
  with None show ?thesis by (simp add: synthetic_tick_def assms)
next
  case (Some xs)
  then have "list_all2 (usable_input now cache (sy_stale_limits cfg)) topics ys \<longleftrightarrow> ys = xs" for ys
    unfolding gather_inputs_eq [symmetric] by auto
  then show ?thesis
    using apply_op_eq(1) [of op xs v] apply_op_eq(2) [of op xs a]
    by (auto simp: synthetic_tick_def assms Some bind_outcome_eq_Abort simp del: apply_op.simps)
qed

text \<open>A weighted mean with weights that are not negative lies among the values.\<close>

lemma weighted_mean_between:
  assumes "weighted_mean ps = Ok m" and "\<forall>(v, w) \<in> set ps. 0 \<le> w \<and> lo \<le> v \<and> v \<le> hi"
  shows "lo \<le> m \<and> m \<le> hi"
proof -
  define W where "W = (\<Sum>(v, w) \<leftarrow> ps. w)"
  from assms(1) have W: "0 < W" and m: "m = (\<Sum>(v, w) \<leftarrow> ps. v * w) / W"
    by (auto simp: weighted_mean_def Let_def W_def not_le split: if_splits)
  have "(\<Sum>(v, w) \<leftarrow> ps. lo * w) \<le> (\<Sum>(v, w) \<leftarrow> ps. v * w)" "(\<Sum>(v, w) \<leftarrow> ps. v * w) \<le> (\<Sum>(v, w) \<leftarrow> ps. hi * w)"
    using assms(2) by (auto intro!: sum_list_mono mult_right_mono)
  moreover have "(\<Sum>(v, w) \<leftarrow> ps. c * w) = c * W" for c
    unfolding W_def by (simp add: sum_list_distrib_left [symmetric] case_prod_unfold)
  ultimately have "lo * W \<le> m * W" "m * W \<le> hi * W" using W by (simp_all add: m)
  then show ?thesis using W by simp
qed

text \<open>Poll rates are within the policy, so the limit of an input is never under five seconds and never panics.\<close>

lemma clamp_poll_rate_range: "MIN_POLL_HZ \<le> clamp_poll_rate r \<and> clamp_poll_rate r \<le> MAX_POLL_HZ"
  by (auto simp: clamp_poll_rate_def Let_def MIN_POLL_HZ_def MAX_POLL_HZ_def)

lemma stale_limit_returns: "\<exists>l. stale_limit spec t = Ok l \<and> (\<forall>d. l = Some d \<longrightarrow> STALE_FLOOR \<le> d)"
proof -
  have p: "\<exists>hz. poll_rate_hz spec t = Ok hz \<and> (\<forall>h. hz = Some h \<longrightarrow> MIN_POLL_HZ \<le> h \<and> h \<le> MAX_POLL_HZ)"
    by (auto simp: poll_rate_hz_def clamp_Ok_iff MIN_POLL_HZ_def MAX_POLL_HZ_def split: list.split option.split)
  have "from_secs_f64 (MISSED_POLLS / h) \<noteq> Abort a \<and> from_secs_f64 (MISSED_POLLS / h) \<noteq> Err e"
    if "MIN_POLL_HZ \<le> h" "h \<le> MAX_POLL_HZ" for h a e
  proof -
    have "0 < h" using that(1) by (simp add: MIN_POLL_HZ_def)
    moreover have "3 / h \<le> 3 / (1 / 100)" using that(1) by (intro divide_left_mono) (auto simp: MIN_POLL_HZ_def)
    ultimately show ?thesis by (auto simp: from_secs_f64_def MISSED_POLLS_def not_le)
  qed
  then have secs: "\<exists>d. from_secs_f64 (MISSED_POLLS / h) = Ok d" if "MIN_POLL_HZ \<le> h" "h \<le> MAX_POLL_HZ" for h
    using that by (cases "from_secs_f64 (MISSED_POLLS / h)") auto
  from p obtain hz where hz: "poll_rate_hz spec t = Ok hz" "\<forall>h. hz = Some h \<longrightarrow> MIN_POLL_HZ \<le> h \<and> h \<le> MAX_POLL_HZ" by blast
  show ?thesis
  proof (cases hz)
    case None
    with hz(1) show ?thesis by (simp add: stale_limit_def)
  next
    case (Some h)
    with hz(2) secs [of h] obtain d where "from_secs_f64 (MISSED_POLLS / h) = Ok d" by auto
    with hz(1) Some show ?thesis by (simp add: stale_limit_def)
  qed
qed

lemma stale_limits_returns: "\<exists>m. stale_limits spec ts = Ok m"
proof (induction ts)
  case (Cons t ts)
  from Cons.IH stale_limit_returns [of spec t] show ?case by auto
qed simp

section \<open>An example\<close>

definition ex_synthetic :: synthetic_task_config where
  "ex_synthetic = \<lparr>sy_output_topic = ''out'', sy_computation = Operation Max_op [''a/soc'', ''c/soc''], sy_tick_hz = 1,
     sy_stale_limits = [''a/soc'' \<mapsto> secs 5]\<rparr>"

theorem synthetic_tick_publishes_witness:
  "synthetic_tick (secs 103) ex_synthetic ex_cache = Ok (Some (''out'', 50))"
proof -
  have "list_all2 (usable_input (secs 103) ex_cache (sy_stale_limits ex_synthetic)) [''a/soc'', ''c/soc''] [50, 50]"
    by (simp add: usable_input_def ex_cache_def ex_synthetic_def elapsed_def secs_def NANOS_def)
  moreover have "sy_computation ex_synthetic = Operation Max_op [''a/soc'', ''c/soc'']" by (simp add: ex_synthetic_def)
  ultimately show ?thesis
    using synthetic_tick_publishes [of ex_synthetic Max_op "[''a/soc'', ''c/soc'']" "secs 103" ex_cache "''out''" 50]
    by (auto simp: ex_synthetic_def intro!: exI [of _ "[50, 50]"])
qed

end
