(* ===== verification/Topics.thy ===== *)
theory Topics
  imports Shed Der_Dispatch Synthetic "HOL-Library.Char_ord" "HOL-Library.List_Lexorder"
begin

text \<open>
  The topics a spec needs (\<^verbatim>\<open>inputs.rs\<close>) and the subscriptions that follow it
  (\<^verbatim>\<open>mqtt/subscriptions.rs\<close>). The cache holds what the broker delivers, so a task that read a topic
  nobody subscribed would hold forever: the lemmas here show that the topics of a spec cover every
  reading of a share computation, an envelope tick, a shed round, a site tick and a derived channel.
\<close>

section \<open>Input topics\<close>

text \<open>\<^verbatim>\<open>BTreeSet<String>\<close> collected into a vector: sorted bytewise, without duplicates.\<close>

definition btree_set :: "string list \<Rightarrow> string list" where
  "btree_set topics = sort (remdups topics)"

lemma set_btree_set [simp]: "set (btree_set ts) = set ts"
  by (simp add: btree_set_def)

definition synthetic_topics :: "string \<Rightarrow> protocol_source \<Rightarrow> string list" where
  "synthetic_topics site_id source = (case ps_binding source of
     Synthetic b \<Rightarrow> map (\<lambda>raw. substitute_site_id raw site_id) (sy_inputs b)
       @ map (\<lambda>pair. substitute_site_id (wp_topic pair) site_id) (sy_pairs b)
   | _ \<Rightarrow> [])"

definition collect_synthetic_input_topics :: "asyncapi_spec \<Rightarrow> string \<Rightarrow> string list" where
  "collect_synthetic_input_topics spec site_id =
     btree_set (concat (map (\<lambda>(_, channels). concat (map (\<lambda>(_, source). synthetic_topics site_id source) channels))
       (x_protocol_source spec)))"

fun opt_list :: "'a option \<Rightarrow> 'a list" where
  "opt_list None = []"
| "opt_list (Some x) = [x]"

lemma set_opt_list [simp]: "set (opt_list x) = set_option x"
  by (cases x) simp_all

definition child_topics :: "string \<Rightarrow> child_allocation \<Rightarrow> string list" where
  "child_topics site_id child =
     [substitute_site_id (ca_operating_state_topic child) site_id, substitute_site_id (ca_state_of_charge_topic child) site_id]
       @ map (limit_topic site_id (ca_device_id child)) [True, False]"

definition guard_topics :: "string \<Rightarrow> envelope_guard \<Rightarrow> string list" where
  "guard_topics site_id guard =
     map (\<lambda>t. substitute_site_id t site_id)
       ([eg_import_limit_topic guard, eg_export_limit_topic guard, eg_active_power_topic guard]
          @ opt_list (eg_poi_active_power_topic guard))"

text \<open>The topics of one command; \<^verbatim>\<open>envelope_guard_config\<close> can panic on the dwell of a guard.\<close>

definition command_topics :: "string \<Rightarrow> command_source \<Rightarrow> string list outcome" where
  "command_topics site_id source = (case cs_binding source of
     Distribute d \<Rightarrow> bind_outcome (envelope_guard_config d) (\<lambda>guard.
       Ok (concat (map (child_topics site_id) (d_children d))
         @ map (\<lambda>t. substitute_site_id t site_id) (opt_list (d_operator_reserve_topic d))
         @ concat (map (guard_topics site_id) (opt_list guard))))
   | PowerCap p \<Rightarrow> Ok (map (\<lambda>t. substitute_site_id t site_id)
       (opt_list (pc_import_limit_topic p) @ opt_list (pc_export_limit_topic p) @ opt_list (pc_poi_active_power_topic p)))
   | _ \<Rightarrow> Ok [])"

definition command_sources :: "asyncapi_spec \<Rightarrow> (string \<times> command_source) list" where
  "command_sources spec =
     concat (map (\<lambda>(device_id, commands). map (\<lambda>(_, source). (device_id, source)) commands) (x_command_source spec))"

definition collect_distribute_input_topics :: "asyncapi_spec \<Rightarrow> string \<Rightarrow> string list outcome" where
  "collect_distribute_input_topics spec site_id =
     bind_outcome (collect_outcome (map (\<lambda>(_, source). command_topics site_id source) (command_sources spec)))
       (\<lambda>topics. Ok (btree_set (concat topics)))"

fun is_distribute :: "protocol_binding \<Rightarrow> bool" where
  "is_distribute (Distribute d) = True"
| "is_distribute b = False"

definition distribute_parent_device_ids :: "asyncapi_spec \<Rightarrow> string list" where
  "distribute_parent_device_ids spec =
     map fst (filter (\<lambda>(_, commands). list_ex (\<lambda>(_, source). is_distribute (cs_binding source)) commands)
       (x_command_source spec))"

definition collect_der_dispatch_active_power_topics :: "asyncapi_spec \<Rightarrow> string \<Rightarrow> string list" where
  "collect_der_dispatch_active_power_topics spec site_id =
     map (\<lambda>device_id. substitute_site_id
         (''sites/{site_id}/devices/'' @ device_id @ ''/measurements/active_power/watts'') site_id)
       (distribute_parent_device_ids spec)"

definition collect_der_dispatch_state_of_charge_topics :: "asyncapi_spec \<Rightarrow> string \<Rightarrow> string list" where
  "collect_der_dispatch_state_of_charge_topics spec site_id =
     map (\<lambda>device_id. substitute_site_id
         (''sites/{site_id}/devices/'' @ device_id @ ''/measurements/state_of_charge/percent'') site_id)
       (distribute_parent_device_ids spec)"

definition der_topic :: "string \<Rightarrow> string \<Rightarrow> string" where
  "der_topic site_id channel = ''sites/'' @ site_id @ ''/devices/der_dispatch/measurements/'' @ channel"

definition input_topics :: "asyncapi_spec \<Rightarrow> string \<Rightarrow> string list outcome" where
  "input_topics spec site_id =
     bind_outcome (collect_distribute_input_topics spec site_id) (\<lambda>distribute.
       Ok (collect_synthetic_input_topics spec site_id @ distribute
         @ collect_der_dispatch_active_power_topics spec site_id
         @ collect_der_dispatch_state_of_charge_topics spec site_id
         @ map (der_topic site_id) [''target_active_power/watts'', ''event_active/none'',
             ''target_setpoint_present/none'', ''energize_enabled/none'']))"

section \<open>Substituting the site\<close>

text \<open>
  A site identifier that holds no brace and some character outside \<open>{site_id}\<close> never makes a new
  placeholder, so a topic that was substituted once is substituted for good. The task of a guarded
  module relies on it: \<^verbatim>\<open>app::spawn_task_set\<close> and \<^verbatim>\<open>task::tick_once\<close> both substitute its topics.
\<close>

definition plain_site :: "string \<Rightarrow> bool" where
  "plain_site site \<longleftrightarrow> CHR ''{'' \<notin> set site \<and> CHR ''}'' \<notin> set site \<and> \<not> set site \<subseteq> set ''{site_id}''"

lemma replace_all_skip:
  assumes "CHR ''{'' \<notin> set xs"
  shows "replace_all ''{site_id}'' r (xs @ ys) = xs @ replace_all ''{site_id}'' r ys"
  using assms by (induction xs) auto

lemma prefix_take: "take (length p) xs = p \<longleftrightarrow> (\<exists>zs. xs = p @ zs)"
  by (metis append_eq_conv_conj append_take_drop_id)

lemma replace_all_prefix:
  "replace_all ''{site_id}'' r (''{site_id}'' @ ys) = r @ replace_all ''{site_id}'' r ys"
  by simp

lemma replace_all_step:
  assumes "\<not> (\<exists>ys. c # cs = ''{site_id}'' @ ys)"
  shows "replace_all ''{site_id}'' r (c # cs) = c # replace_all ''{site_id}'' r cs"
proof -
  have "\<not> take (length ''{site_id}'') (c # cs) = ''{site_id}''" using assms prefix_take by blast
  then show ?thesis by (simp only: replace_all.simps simp_thms if_False)
qed

lemma suffix_kept:
  assumes "plain_site site" and "set q \<subseteq> set ''{site_id}''"
    and "replace_all ''{site_id}'' site xs = q @ CHR ''}'' # zs"
  shows "\<exists>us. xs = q @ CHR ''}'' # us"
  using assms(2,3)
proof (induction q arbitrary: xs)
  let ?p = "\<lambda>q. q @ [CHR ''}'']"
  have no_site: False if "replace_all ''{site_id}'' site (''{site_id}'' @ ys) = q @ CHR ''}'' # zs"
    and "set q \<subseteq> set ''{site_id}''" for ys q
  proof -
    have "site @ replace_all ''{site_id}'' site ys = ?p q @ zs"
      using that(1) unfolding replace_all_prefix by simp
    then obtain us where us: "site = ?p q @ us \<or> site @ us = ?p q"
      using append_eq_append_conv2 [of site _ "?p q" zs] by metis
    have "\<not> site @ us = ?p q"
    proof
      assume "site @ us = ?p q"
      then have "set site \<subseteq> set (?p q)" by (metis set_append Un_upper1)
      also have "\<dots> \<subseteq> set ''{site_id}''" using that(2) by simp
      finally show False using assms(1) unfolding plain_site_def by blast
    qed
    then show False using us assms(1) by (auto simp: plain_site_def)
  qed
  {
    case Nil
    then obtain d ds where xs: "xs = d # ds" by (cases xs) auto
    with Nil no_site [of _ "[]"] have "replace_all ''{site_id}'' site xs = d # replace_all ''{site_id}'' site ds"
      by (metis append_Nil replace_all_step empty_subsetI list.set(1))
    then show ?case using Nil xs by simp
  next
    case (Cons c q)
    then obtain d ds where xs: "xs = d # ds" by (cases xs) auto
    with Cons.prems no_site [of _ "c # q"] have "replace_all ''{site_id}'' site xs = d # replace_all ''{site_id}'' site ds"
      by (metis replace_all_step)
    then show ?case using Cons.prems xs Cons.IH [of ds] by auto
  }
qed

lemma substitute_twice:
  assumes "plain_site site"
  shows "substitute_site_id (substitute_site_id t site) site = substitute_site_id t site"
proof -
  have "replace_all ''{site_id}'' site (replace_all ''{site_id}'' site t) = replace_all ''{site_id}'' site t"
  proof (induction t rule: measure_induct_rule [of length])
    case (less t)
    show ?case
    proof (cases "\<exists>ys. t = ''{site_id}'' @ ys")
      case True
      then obtain ys where "t = ''{site_id}'' @ ys" ..
      then show ?thesis using less [of ys] assms replace_all_skip [of site] replace_all_prefix [of site ys]
        by (simp add: plain_site_def del: replace_all.simps)
    next
      case False
      show ?thesis
      proof (cases t)
        case (Cons c cs)
        have r: "replace_all ''{site_id}'' site t = c # replace_all ''{site_id}'' site cs"
          using False Cons replace_all_step by metis
        have "\<not> (\<exists>ys. c # replace_all ''{site_id}'' site cs = ''{site_id}'' @ ys)"
          using False Cons suffix_kept [OF assms, of "''site_id''" cs] by force
        then show ?thesis using less [of cs] Cons r replace_all_step by simp
      qed simp
    qed
  qed
  then show ?thesis by (simp add: substitute_site_id_def)
qed

lemma substitute_format:
  assumes "CHR ''{'' \<notin> set device_id" and "CHR ''{'' \<notin> set rest"
  shows "substitute_site_id (''sites/{site_id}/devices/'' @ device_id @ rest) site = ''sites/'' @ site @ ''/devices/'' @ device_id @ rest"
proof -
  have "substitute_site_id (''sites/'' @ ''{site_id}'' @ (''/devices/'' @ device_id @ rest) @ []) site =
      ''sites/'' @ site @ (''/devices/'' @ device_id @ rest) @ []"
    unfolding substitute_site_id_def using assms
    by (subst replace_all_skip, simp, subst replace_all_prefix, subst replace_all_skip) simp_all
  then show ?thesis by simp
qed

section \<open>What a computation reads of the cache\<close>

text \<open>
  \<open>reads\<close> bounds what \<open>f\<close> looks at in the cache: samples on other topics make no difference to it,
  and dropping them leaves its result.
\<close>

locale cache_reader =
  fixes reads :: "string set" and f :: "input_cache \<Rightarrow> 'b"
  assumes only_reads: "(\<And>t. t \<in> reads \<Longrightarrow> c t = c' t) \<Longrightarrow> f c = f c'"
begin

lemma subscribed_suffices: "f (c |` reads) = f c"
  by (rule only_reads) simp

lemma other_sample: "topic \<notin> reads \<Longrightarrow> f (c(topic \<mapsto> x)) = f c"
  by (rule only_reads) auto

end

lemma cache_readerI:
  assumes "\<And>c c'. (\<And>t. t \<in> T \<Longrightarrow> c t = c' t) \<Longrightarrow> f c = f c'"
  shows "cache_reader T f"
  using assms by (rule cache_reader.intro)

lemma cache_reader_mono: "cache_reader T f \<Longrightarrow> T \<subseteq> T' \<Longrightarrow> cache_reader T' f"
  by (rule cache_readerI) (erule cache_reader.only_reads, blast)

lemma cache_reader_get: "t \<in> T \<Longrightarrow> cache_reader T (\<lambda>c. c t)"
  by (rule cache_readerI)

lemma cache_reader_map: "cache_reader T f \<Longrightarrow> cache_reader T (\<lambda>c. h (f c))"
  by (rule cache_readerI) (rule arg_cong [where f = h], erule cache_reader.only_reads, blast)

lemma cached_number_reads: "t \<in> T \<Longrightarrow> cache_reader T (\<lambda>c. cached_number c t)"
  unfolding cached_number_def by (rule cache_reader_map [OF cache_reader_get])

lemma headroom_reads:
  assumes "set (child_topics site c) \<subseteq> T"
  shows "cache_reader T (\<lambda>cache. headroom now c target site cache)"
proof -
  have "limit_topic site (ca_device_id c) charging \<in> T" for charging
    using assms by (cases charging) (auto simp: child_topics_def)
  then show ?thesis by (intro cache_readerI) (simp add: headroom_def live_limit_def)
qed

lemma resolve_child_reads:
  assumes "set (child_topics site c) \<subseteq> T"
  shows "cache_reader T (\<lambda>cache. resolve_child now c target site cache)"
proof (rule cache_readerI)
  fix cache cache' :: input_cache
  assume same: "\<And>t. t \<in> T \<Longrightarrow> cache t = cache' t"
  have h: "headroom now c target site cache = headroom now c target site cache'"
    by (rule cache_reader.only_reads [OF headroom_reads [OF assms] same])
  show "resolve_child now c target site cache = resolve_child now c target site cache'"
    using assms same by (simp add: resolve_child_def child_topics_def substitute_site_id_def h)
qed

text \<open>The topics of a distribute command are those of its children, its reserve and its guard.\<close>

definition share_topics :: "string \<Rightarrow> distribute_binding \<Rightarrow> string set" where
  "share_topics site_id d = (\<Union>c \<in> set (d_children d). set (child_topics site_id c)) \<union>
     (\<lambda>t. substitute_site_id t site_id) ` set_option (d_operator_reserve_topic d)"

lemma compute_shares_reads:
  assumes "share_topics site d \<subseteq> T"
  shows "cache_reader T (\<lambda>cache. compute_shares now d target site cache locked)"
proof (rule cache_readerI)
  fix cache cache' :: input_cache
  assume same: "\<And>t. t \<in> T \<Longrightarrow> cache t = cache' t"
  have "resolve_child now c target site cache = resolve_child now c target site cache'" if "c \<in> set (d_children d)" for c
    by (rule cache_reader.only_reads [OF resolve_child_reads same])
      (use that assms in \<open>auto simp: share_topics_def\<close>)
  moreover have "effective_floor_percent d site cache = effective_floor_percent d site cache'"
    using assms same
    by (auto simp: effective_floor_percent_def operator_reserve_percent_def share_topics_def split: option.splits)
  ultimately have "split_children now d target site cache locked = split_children now d target site cache' locked"
    unfolding split_children_def by (intro arg_cong [where f = collect_outcome] map_cong) simp_all
  then show "compute_shares now d target site cache locked = compute_shares now d target site cache' locked"
    by (simp add: compute_shares_def)
qed

interpretation shares_reader: cache_reader "share_topics site d"
    "\<lambda>cache. compute_shares now d target site cache locked" for site d now target locked
  by (rule compute_shares_reads) simp

interpretation headroom_reader: cache_reader "set (child_topics site c)"
    "\<lambda>cache. headroom now c target site cache" for site c now target
  by (rule headroom_reads) simp

section \<open>The topics of a spec cover its bindings\<close>

lemma collect_outcome_member:
  assumes "collect_outcome (map f xs) = Ok ys" and "x \<in> set xs"
  shows "\<exists>y \<in> set ys. f x = Ok y"
  using assms by (auto simp: collect_outcome_Ok list_all2_conv_all_nth in_set_conv_nth)

lemma collect_outcome_origin:
  assumes "collect_outcome (map f xs) = Ok ys" and "y \<in> set ys"
  shows "\<exists>x \<in> set xs. f x = Ok y"
  using assms by (fastforce simp: collect_outcome_Ok list_all2_conv_all_nth in_set_conv_nth)

lemma command_topics_subscribed:
  assumes "input_topics spec site = Ok topics" and "(device_id, source) \<in> set (command_sources spec)"
  shows "\<exists>ts. command_topics site source = Ok ts \<and> set ts \<subseteq> set topics"
proof -
  from assms(1) obtain tss where
    "collect_outcome (map (\<lambda>(_, source). command_topics site source) (command_sources spec)) = Ok tss"
    and "set topics \<supseteq> set (btree_set (concat tss))"
    by (force simp: input_topics_def collect_distribute_input_topics_def bind_outcome_eq_Ok)
  from collect_outcome_member [OF this(1) assms(2)] this(2) show ?thesis by fastforce
qed

lemma distribute_subscribed:
  assumes "input_topics spec site = Ok topics" and "(device_id, source) \<in> set (command_sources spec)"
    and "cs_binding source = Distribute d"
  shows "share_topics site d \<subseteq> set topics"
    and "\<And>guard. envelope_guard_config d = Ok (Some guard) \<Longrightarrow> set (guard_topics site guard) \<subseteq> set topics"
  using command_topics_subscribed [OF assms(1,2)] assms(3)
  by (force simp: command_topics_def share_topics_def bind_outcome_eq_Ok)+

lemma parent_subscribed:
  assumes "input_topics spec site = Ok topics" and "(device_id, source) \<in> set (command_sources spec)"
    and "cs_binding source = Distribute d" and "CHR ''{'' \<notin> set device_id"
  shows "soc_topic site device_id \<in> set topics"
proof -
  from assms(2) obtain commands name where c: "(device_id, commands) \<in> set (x_command_source spec)" "(name, source) \<in> set commands"
    by (auto simp: command_sources_def)
  then have "list_ex (\<lambda>(_, source). is_distribute (cs_binding source)) commands"
    using assms(3) by (auto simp: list_ex_iff intro!: bexI [of _ "(name, source)"])
  with c(1) have "device_id \<in> set (distribute_parent_device_ids spec)"
    by (force simp: distribute_parent_device_ids_def)
  moreover have "soc_topic site device_id = substitute_site_id
      (''sites/{site_id}/devices/'' @ device_id @ ''/measurements/state_of_charge/percent'') site"
    using assms(4) by (subst substitute_format) (simp_all add: soc_topic_def)
  ultimately show ?thesis
    using assms(1) by (auto simp: input_topics_def collect_der_dispatch_state_of_charge_topics_def bind_outcome_eq_Ok)
qed

lemma der_topic_subscribed:
  assumes "input_topics spec site = Ok topics"
  shows "channel \<in> {''target_active_power/watts'', ''event_active/none'', ''target_setpoint_present/none'', ''energize_enabled/none''} \<Longrightarrow>
    der_topic site channel \<in> set topics"
  using assms by (auto simp: input_topics_def bind_outcome_eq_Ok)

lemma synthetic_subscribed:
  assumes "input_topics spec site = Ok topics" and "(device_id, channels) \<in> set (x_protocol_source spec)"
    and "(name, source) \<in> set channels"
  shows "set (synthetic_topics site source) \<subseteq> set topics"
  using assms by (fastforce simp: input_topics_def collect_synthetic_input_topics_def bind_outcome_eq_Ok)

section \<open>Subscriptions\<close>

definition TOPIC_TOPOLOGY_CHANGED :: string where
  "TOPIC_TOPOLOGY_CHANGED = ''system/topology_changed''"

definition TOPIC_LOTO_CHANGED :: string where
  "TOPIC_LOTO_CHANGED = ''system/loto_changed''"

definition BEACON_QOS :: int where
  "BEACON_QOS = 1"

definition MEASUREMENT_QOS :: int where
  "MEASUREMENT_QOS = 0"

definition COMMAND_QOS :: int where
  "COMMAND_QOS = 1"

definition subscription_list :: "string \<Rightarrow> string list \<Rightarrow> string list \<times> int list" where
  "subscription_list site_id inputs =
     ([TOPIC_TOPOLOGY_CHANGED, TOPIC_LOTO_CHANGED, ''sites/'' @ site_id @ ''/devices/+/commands/#''] @ inputs,
      [BEACON_QOS, BEACON_QOS, COMMAND_QOS] @ map (\<lambda>_. MEASUREMENT_QOS) inputs)"

definition diff :: "string list \<Rightarrow> string list \<Rightarrow> string list \<times> string list" where
  "diff old new = (filter (\<lambda>t. t \<notin> set old) new, filter (\<lambda>t. t \<notin> set new) old)"

record subscriptions =
  sb_site_id :: string
  sb_current :: "string list \<times> int list"

definition subscriptions_new :: "string \<Rightarrow> string list \<Rightarrow> subscriptions" where
  "subscriptions_new site_id inputs =
     \<lparr>sb_site_id = site_id, sb_current = subscription_list site_id inputs\<rparr>"

text \<open>
  The broker's side of the session, its QoS per topic. A request the client reports as failed is
  one the broker did not carry out; \<open>answers\<close> says which ones succeed.
\<close>

datatype request = Subscribe "(string \<times> int) list" | Unsubscribe "string list"

type_synonym session = "string \<rightharpoonup> int"

fun carry_out :: "request \<Rightarrow> session \<Rightarrow> session" where
  "carry_out (Subscribe ts) b = b ++ map_of (rev ts)"
| "carry_out (Unsubscribe ts) b = b |` (- set ts)"

definition request_many :: "(request \<Rightarrow> bool) \<Rightarrow> request \<Rightarrow> session \<Rightarrow> unit outcome \<times> session" where
  "request_many answers r b =
     (if answers r then (Ok (), carry_out r b) else (Err (E ''broker request'' []), b))"

definition subscriptions_update :: "(request \<Rightarrow> bool) \<Rightarrow> string list \<Rightarrow> subscriptions \<times> session \<Rightarrow> unit outcome \<times> subscriptions \<times> session" where
  "subscriptions_update answers inputs st = (case st of (sb, b) \<Rightarrow>
     let (topics, qos) = subscription_list (sb_site_id sb) inputs;
         (added, removed) = diff (fst (sb_current sb)) topics;
         (r, b) = (if removed \<noteq> [] then request_many answers (Unsubscribe removed) b else (Ok (), b))
     in (case r of
           Ok _ \<Rightarrow>
             (let (r, b) = (if added \<noteq> []
                  then request_many answers (Subscribe (zip added (replicate (length added) MEASUREMENT_QOS))) b else (Ok (), b))
              in (case r of
                    Ok _ \<Rightarrow> (Ok (), sb\<lparr>sb_current := (topics, qos)\<rparr>, b)
                  | Err e \<Rightarrow> (Err (Ctx ''subscribe inputs the topology added'' [] e), sb, b)
                  | Abort a \<Rightarrow> (Abort a, sb, b)))
         | Err e \<Rightarrow> (Err (Ctx ''unsubscribe inputs the topology dropped'' [] e), sb, b)
         | Abort a \<Rightarrow> (Abort a, sb, b)))"

text \<open>The callback of a reconnect: the broker may have lost the session.\<close>

definition on_reconnect :: "subscriptions \<Rightarrow> session \<Rightarrow> session" where
  "on_reconnect sb b = carry_out (Subscribe (zip (fst (sb_current sb)) (snd (sb_current sb)))) b"

text \<open>The session a gateway wants for its inputs: beacons and commands at QoS 1, inputs at QoS 0.\<close>

definition standing :: "string \<Rightarrow> string list" where
  "standing site_id = [TOPIC_TOPOLOGY_CHANGED, TOPIC_LOTO_CHANGED, ''sites/'' @ site_id @ ''/devices/+/commands/#'']"

definition wanted :: "string \<Rightarrow> string list \<Rightarrow> session" where
  "wanted site_id inputs = (\<lambda>t. if t \<in> set (standing site_id) then Some 1 else if t \<in> set inputs then Some 0 else None)"

lemma map_of_const: "map_of (map (\<lambda>t. (t, q)) ts) t = (if t \<in> set ts then Some q else None)"
  by (induction ts) auto

lemma zip_replicate_eq: "zip ts (replicate (length ts) q) = map (\<lambda>t. (t, q)) ts"
  by (induction ts) auto

lemma zip_map_const: "zip ts (map (\<lambda>_. q) ts) = map (\<lambda>t. (t, q)) ts"
  by (induction ts) auto

lemma subscription_list_zip:
  "zip (fst (subscription_list site inputs)) (snd (subscription_list site inputs)) =
     map (\<lambda>t. (t, 1)) (standing site) @ map (\<lambda>t. (t, 0)) inputs"
  by (simp add: subscription_list_def standing_def BEACON_QOS_def COMMAND_QOS_def MEASUREMENT_QOS_def zip_map_const)

lemma subscription_list_topics: "fst (subscription_list site inputs) = standing site @ inputs"
  by (simp add: subscription_list_def standing_def)

lemma reconnect_wanted:
  assumes "set inputs \<inter> set (standing site) = {}" and "sb_current sb = subscription_list site inputs" and "dom b \<subseteq> dom (wanted site inputs)"
  shows "on_reconnect sb b = wanted site inputs"
proof
  fix t
  have "b t = None" if "wanted site inputs t = None" using that assms(3) by (metis domIff subsetD)
  then show "on_reconnect sb b t = wanted site inputs t"
    using assms(1) unfolding on_reconnect_def assms(2) subscription_list_zip
    by (auto simp: map_add_def wanted_def rev_map map_of_const split: option.splits)
qed

lemma update_requests:
  assumes "sb_site_id sb = site" and "sb_current sb = subscription_list site old"
  shows "subscriptions_update answers new (sb, b) =
    (let added = filter (\<lambda>t. t \<notin> set (standing site) \<union> set old) new;
         removed = filter (\<lambda>t. t \<notin> set (standing site) \<union> set new) old;
         sub = Subscribe (map (\<lambda>t. (t, 0)) added);
         b' = (if removed = [] then b else carry_out (Unsubscribe removed) b)
     in if removed \<noteq> [] \<and> \<not> answers (Unsubscribe removed)
        then (Err (Ctx ''unsubscribe inputs the topology dropped'' [] (E ''broker request'' [])), sb, b)
        else if added \<noteq> [] \<and> \<not> answers sub
        then (Err (Ctx ''subscribe inputs the topology added'' [] (E ''broker request'' [])), sb, b')
        else (Ok (), sb\<lparr>sb_current := subscription_list site new\<rparr>, if added = [] then b' else carry_out sub b'))"
proof -
  have a: "filter (\<lambda>t. t \<notin> set (standing site @ old)) (standing site @ new) = filter (\<lambda>t. t \<notin> set (standing site) \<union> set old) new"
    and r: "filter (\<lambda>t. t \<notin> set (standing site @ new)) (standing site @ old) = filter (\<lambda>t. t \<notin> set (standing site) \<union> set new) old"
    for old new by (auto simp: filter_empty_conv)
  obtain qos where l: "subscription_list site new = (standing site @ new, qos)"
    by (metis subscription_list_topics prod.collapse)
  show ?thesis
    unfolding subscriptions_update_def assms diff_def prod.case Let_def l subscription_list_topics
      a r MEASUREMENT_QOS_def zip_replicate_eq
    by (simp add: request_many_def)
qed

lemma restrict_map_UNIV: "m |` UNIV = m"
  by (simp add: restrict_map_def)

lemma follow_topology:
  assumes "set new \<inter> set (standing site) = {}" and "set old \<inter> set (standing site) = {}"
  defines "added \<equiv> filter (\<lambda>t. t \<notin> set (standing site) \<union> set old) new"
    and "removed \<equiv> filter (\<lambda>t. t \<notin> set (standing site) \<union> set new) old"
  shows "carry_out (Subscribe (map (\<lambda>t. (t, 0)) added)) (carry_out (Unsubscribe removed) (wanted site old)) = wanted site new"
  using assms(1,2) unfolding added_def removed_def
  by (auto simp: fun_eq_iff map_add_def rev_map map_of_const wanted_def restrict_map_def)

lemma update_follows:
  assumes "set old \<inter> set (standing site) = {}" and "set new \<inter> set (standing site) = {}"
    and "sb = subscriptions_new site old"
    and "subscriptions_update answers new (sb, wanted site old) = (r, sb', b')"
  shows "(r = Ok () \<and> sb' = subscriptions_new site new \<and> b' = wanted site new \<and> on_reconnect sb' Map.empty = b') \<or>
    (\<exists>q. \<not> answers q) \<and> (\<exists>e. r = Err e) \<and> sb' = sb \<and> on_reconnect sb' b' = wanted site old"
proof -
  have sb: "sb_site_id sb = site" "sb_current sb = subscription_list site old"
    using assms(3) by (simp_all add: subscriptions_new_def)
  define added where "added = filter (\<lambda>t. t \<notin> set (standing site) \<union> set old) new"
  define removed where "removed = filter (\<lambda>t. t \<notin> set (standing site) \<union> set new) old"
  let ?sub = "Subscribe (map (\<lambda>t. (t, 0)) added)" and ?un = "Unsubscribe removed"
  have run: "(r, sb', b') = (if removed \<noteq> [] \<and> \<not> answers ?un
        then (Err (Ctx ''unsubscribe inputs the topology dropped'' [] (E ''broker request'' [])), sb, wanted site old)
        else if added \<noteq> [] \<and> \<not> answers ?sub
        then (Err (Ctx ''subscribe inputs the topology added'' [] (E ''broker request'' [])), sb, carry_out ?un (wanted site old))
        else (Ok (), subscriptions_new site new, wanted site new))"
    using follow_topology [OF assms(2,1)] assms(3,4) update_requests [OF sb, of answers new "wanted site old"]
    unfolding added_def [symmetric] removed_def [symmetric]
    by (cases "added = []"; cases "removed = []") (simp_all add: Let_def subscriptions_new_def restrict_map_UNIV split: if_splits)
  have whole: "on_reconnect (subscriptions_new site ts) b = wanted site ts"
    if "set ts \<inter> set (standing site) = {}" "dom b \<subseteq> dom (wanted site ts)" for ts b
    by (rule reconnect_wanted [OF that(1) _ that(2)]) (simp add: subscriptions_new_def)
  show ?thesis
    using run whole [OF assms(2), of Map.empty] whole [OF assms(1), of "wanted site old"]
      whole [OF assms(1), of "carry_out ?un (wanted site old)"] assms(3)
    by (auto split: if_splits)
qed



text \<open>
  A failed update keeps the old list although its unsubscribe went through. Going back to the old
  inputs then asks the broker for nothing, reports success and leaves an input unsubscribed until a
  reconnect.
\<close>

lemma update_leaves_gap:
  defines "only_unsubscribes \<equiv> \<lambda>r. case r of Subscribe _ \<Rightarrow> False | Unsubscribe _ \<Rightarrow> True"
  shows "(let (_, st) = subscriptions_update only_unsubscribes [''b''] (subscriptions_new ''s'' [''a''], wanted ''s'' [''a'']);
              (r, sb, b) = subscriptions_update (\<lambda>_. True) [''a''] st
          in r = Ok () \<and> sb = subscriptions_new ''s'' [''a''] \<and> b ''a'' = None)"
  by (simp add: only_unsubscribes_def subscriptions_new_def update_requests standing_def TOPIC_TOPOLOGY_CHANGED_def
      TOPIC_LOTO_CHANGED_def restrict_map_def Let_def)

end
