(* ===== verification/Source_Map.thy ===== *)
theory Source_Map
  imports SunSpec
begin

text \<open>
  How a spec becomes typed: the source maps of \<^verbatim>\<open>asyncapi/types/source_map.rs\<close> with the checks
  that drop a device the gateway cannot run, the heartbeats of \<^verbatim>\<open>asyncapi/types/heartbeat.rs\<close>,
  the point kinds of \<^verbatim>\<open>dnp3/master.rs\<close>, and the spec as \<^verbatim>\<open>AsyncApiSpec\<close> deserializes and
  validates it. The derived deserializers of the entry types are a parameter, \<open>typed\<close>.
  A JSON object has each key once.
\<close>

section \<open>Checks of one entry\<close>

definition json_get :: "json \<Rightarrow> string \<Rightarrow> json option" where
  "json_get j k = (case j of JObj kvs \<Rightarrow> map_of kvs k | _ \<Rightarrow> None)"

definition SENTINEL :: string where
  "SENTINEL = ''PROVISIONED_AT_COMMISSIONING''"

definition is_unprovisioned :: "json \<Rightarrow> bool" where
  "is_unprovisioned entry =
     list_ex (\<lambda>field. Option.bind (json_get entry field) as_str = Some SENTINEL) [''host'', ''port'', ''unit_id'']"

datatype point_kind = AnalogInput | BinaryInput

definition point_kind_of :: "string \<Rightarrow> point_kind outcome" where
  "point_kind_of point_type =
     (if point_type = ''analog_input'' then Ok AnalogInput
      else if point_type = ''binary_input'' then Ok BinaryInput
      else Err (E ''DNP3 point_type is not read (analog_input or binary_input)'' [S point_type]))"

text \<open>\<^verbatim>\<open>.map(drop)\<close>\<close>

definition void :: "'a outcome \<Rightarrow> unit outcome" where
  "void x = bind_outcome x (\<lambda>_. Ok ())"

definition measurement_check :: "protocol_source \<Rightarrow> unit outcome" where
  "measurement_check s = (case ps_binding s of
     ModbusTcp m \<Rightarrow> void (read_function (mb_function_code m))
   | Dnp3Tcp d \<Rightarrow> void (point_kind_of (dnp_point_type d))
   | Sunspec b \<Rightarrow> void (readable b)
   | _ \<Rightarrow> Ok ())"

definition guard_fields :: "power_cap_binding \<Rightarrow> bool list" where
  "guard_fields p =
     [pc_import_limit_topic p \<noteq> None, pc_export_limit_topic p \<noteq> None, pc_poi_active_power_topic p \<noteq> None,
      pc_hysteresis_margin p \<noteq> None, pc_hysteresis_dwell_secs p \<noteq> None, pc_ramp_rate_per_sec p \<noteq> None]"

definition whole_guard :: "power_cap_binding \<Rightarrow> unit outcome" where
  "whole_guard p =
     (let n = length (filter (\<lambda>f. f) (guard_fields p)) in
      if n = 0 \<or> n = 6 then Ok () else Err (E ''power_cap envelope guard has n of its 6 fields'' [W n]))"

definition command_check :: "command_source \<Rightarrow> unit outcome" where
  "command_check s = (case cs_binding s of
     ModbusTcp m \<Rightarrow>
       if mb_scale_factor_address m \<noteq> None
       then Err (E ''scale_factor_address (SunSpec sunssf) is only applied on reads'' [])
       else void (write_function (mb_function_code m) (mb_data_type m))
   | Sunspec b \<Rightarrow> void (writable b)
   | PowerCap p \<Rightarrow> whole_guard p
   | _ \<Rightarrow> Ok ())"

section \<open>Source maps\<close>

type_synonym 'a source_map = "(string \<times> (string \<times> 'a) list) list"

text \<open>\<^verbatim>\<open>SourceMap::<Value>::deserialize\<close>: an object of objects.\<close>

fun object_of :: "json \<Rightarrow> (string \<times> json) list outcome" where
  "object_of (JObj kvs) = Ok kvs"
| "object_of v = Err (E ''invalid type: expected a map'' [])"

definition raw_source_map :: "json \<Rightarrow> json source_map outcome" where
  "raw_source_map j = bind_outcome (object_of j) (\<lambda>devices.
     collect_outcome (map (\<lambda>(device_id, v). bind_outcome (object_of v) (\<lambda>channels. Ok (device_id, channels))) devices))"

definition type_entries :: "(json \<Rightarrow> 'a outcome) \<Rightarrow> string \<Rightarrow> (string \<times> json) list \<Rightarrow> (string \<times> 'a) list outcome" where
  "type_entries typed device_id channels =
     collect_outcome (map (\<lambda>(name, entry). with_context (bind_outcome (typed entry) (\<lambda>t. Ok (name, t))) device_id [S name]) channels)"

fun parse_devices :: "(json \<Rightarrow> 'a outcome) \<Rightarrow> ('a \<Rightarrow> unit outcome) \<Rightarrow> json source_map \<Rightarrow> 'a source_map outcome" where
  "parse_devices typed check [] = Ok []"
| "parse_devices typed check ((device_id, channels) # raw) =
     (if list_ex is_unprovisioned (map snd channels) then parse_devices typed check raw
      else bind_outcome (type_entries typed device_id channels) (\<lambda>parsed.
        if list_ex (\<lambda>(name, entry). \<not> is_ok (check entry)) parsed then parse_devices typed check raw
        else bind_outcome (parse_devices typed check raw) (\<lambda>out. Ok ((device_id, parsed) # out))))"

definition parse_source_map :: "(json \<Rightarrow> 'a outcome) \<Rightarrow> ('a \<Rightarrow> unit outcome) \<Rightarrow> json \<Rightarrow> 'a source_map outcome" where
  "parse_source_map typed check j = bind_outcome (raw_source_map j) (parse_devices typed check)"

definition measurements :: "(json \<Rightarrow> protocol_source outcome) \<Rightarrow> json \<Rightarrow> protocol_source source_map outcome" where
  "measurements typed = parse_source_map typed measurement_check"

definition commands :: "(json \<Rightarrow> command_source outcome) \<Rightarrow> json \<Rightarrow> command_source source_map outcome" where
  "commands typed = parse_source_map typed command_check"

section \<open>Heartbeats\<close>

text \<open>A period read from JSON is finite, so \<^verbatim>\<open>is_finite\<close> always holds of it.\<close>

definition runnable :: "heartbeat_source \<Rightarrow> unit outcome" where
  "runnable h =
     (if hb_counter_modulo h < 2 then Err (E ''counter_modulo does not count'' [W (unat (hb_counter_modulo h))])
      else if \<not> hb_period_s h > 0 then Err (E ''period_s is not a period'' [N (hb_period_s h)])
      else case hb_binding h of
        ModbusTcp m \<Rightarrow> void (write_function (mb_function_code m) (mb_data_type m))
      | _ \<Rightarrow> Err (E ''only modbus_tcp heartbeats are supported'' []))"

definition heartbeats :: "(json \<Rightarrow> heartbeat_source outcome) \<Rightarrow> json \<Rightarrow> (string \<times> heartbeat_source) list outcome" where
  "heartbeats typed j = bind_outcome (object_of j) (\<lambda>entries.
     bind_outcome (collect_outcome (map (\<lambda>(device_id, v). bind_outcome (typed v) (\<lambda>h. Ok (device_id, h))) entries)) (\<lambda>all.
       Ok (filter (\<lambda>(device_id, h). is_ok (runnable h)) all)))"

section \<open>The spec\<close>

text \<open>
  The derived \<^verbatim>\<open>Deserialize\<close> of \<^verbatim>\<open>AsyncApiSpec\<close>: \<^verbatim>\<open>info\<close> and \<^verbatim>\<open>x-protocol-source\<close> must be
  there, the other blocks default to empty. \<^verbatim>\<open>Validate\<close> asks for a version that is not empty.
\<close>

record entry_types =
  et_measurement :: "json \<Rightarrow> protocol_source outcome"
  et_command :: "json \<Rightarrow> command_source outcome"
  et_heartbeat :: "json \<Rightarrow> heartbeat_source outcome"
  et_trust :: "json \<Rightarrow> device_trust outcome"

definition required :: "json \<Rightarrow> string \<Rightarrow> json outcome" where
  "required j k = ok_or (json_get j k) (E ''missing field'' [S k])"

definition defaulted :: "json \<Rightarrow> string \<Rightarrow> (json \<Rightarrow> 'a list outcome) \<Rightarrow> 'a list outcome" where
  "defaulted j k f = (case json_get j k of None \<Rightarrow> Ok [] | Some v \<Rightarrow> f v)"

definition typed_map :: "(json \<Rightarrow> 'a outcome) \<Rightarrow> json \<Rightarrow> (string \<times> 'a) list outcome" where
  "typed_map typed j = bind_outcome (object_of j) (\<lambda>kvs.
     collect_outcome (map (\<lambda>(k, v). bind_outcome (typed v) (\<lambda>t. Ok (k, t))) kvs))"

definition deserialize_spec :: "entry_types \<Rightarrow> json \<Rightarrow> asyncapi_spec outcome" where
  "deserialize_spec ty j =
     bind_outcome (required j ''info'') (\<lambda>info.
     bind_outcome (required info ''version'') (\<lambda>v.
     bind_outcome (ok_or (as_str v) (E ''invalid type: expected a string'' [])) (\<lambda>version.
     bind_outcome (required j ''x-protocol-source'') (\<lambda>ps.
     bind_outcome (measurements (et_measurement ty) ps) (\<lambda>protocol_source.
     bind_outcome (defaulted j ''x-command-source'' (commands (et_command ty))) (\<lambda>command_source.
     bind_outcome (defaulted j ''x-heartbeat-source'' (heartbeats (et_heartbeat ty))) (\<lambda>heartbeat_source.
     bind_outcome (defaulted j ''x-device-trust'' (typed_map (et_trust ty))) (\<lambda>trust.
     bind_outcome (defaulted j ''components'' (\<lambda>c. defaulted c ''schemas'' object_of)) (\<lambda>schemas.
       Ok \<lparr>info_version = version, x_protocol_source = protocol_source, x_command_source = command_source,
           x_heartbeat_source = heartbeat_source, x_device_trust = trust, x_schemas = schemas\<rparr>)))))))))"

definition validate_spec :: "asyncapi_spec \<Rightarrow> unit outcome" where
  "validate_spec spec = (if info_version spec = [] then Err (E ''validation error: length'' []) else Ok ())"

text \<open>\<^verbatim>\<open>http::client::fetch_asyncapi\<close> on the body of the answer; \<open>get\<close> is the GET with its backoff.\<close>

definition fetch_asyncapi :: "(string \<Rightarrow> string outcome) \<Rightarrow> (string \<Rightarrow> json outcome) \<Rightarrow> entry_types \<Rightarrow> string \<Rightarrow> asyncapi_spec outcome" where
  "fetch_asyncapi get parse_json ty base_url =
     bind_outcome (get (base_url @ ''/asyncapi'')) (\<lambda>body.
     bind_outcome (with_context (bind_outcome (parse_json body) (deserialize_spec ty)) ''parse /asyncapi into AsyncApiSpec'' []) (\<lambda>spec.
     bind_outcome (with_context (validate_spec spec) ''/asyncapi failed validation'' []) (\<lambda>_. Ok spec)))"

section \<open>Which devices are kept\<close>

definition typeable :: "(json \<Rightarrow> 'a outcome) \<Rightarrow> (string \<times> json) list \<Rightarrow> bool" where
  "typeable typed channels \<longleftrightarrow> (\<forall>(name, entry) \<in> set channels. is_ok (typed entry))"

definition provisioned :: "(string \<times> json) list \<Rightarrow> bool" where
  "provisioned channels \<longleftrightarrow> (\<forall>(name, entry) \<in> set channels. \<not> is_unprovisioned entry)"

definition typed_as :: "(json \<Rightarrow> 'a outcome) \<Rightarrow> string \<times> (string \<times> json) list \<Rightarrow> string \<times> (string \<times> 'a) list \<Rightarrow> bool" where
  "typed_as typed raw out \<longleftrightarrow> fst out = fst raw \<and>
     list_all2 (\<lambda>(n, e) (m, t). m = n \<and> typed e = Ok t) (snd raw) (snd out)"

definition runs :: "(json \<Rightarrow> 'a outcome) \<Rightarrow> ('a \<Rightarrow> unit outcome) \<Rightarrow> (string \<times> json) list \<Rightarrow> bool" where
  "runs typed check channels \<longleftrightarrow> provisioned channels \<and>
     (\<forall>(name, entry) \<in> set channels. \<forall>t. typed entry = Ok t \<longrightarrow> is_ok (check t))"

lemma ex_list_all2: "(\<And>x. x \<in> set xs \<Longrightarrow> \<exists>y. P x y) \<Longrightarrow> \<exists>ys. list_all2 P xs ys"
proof (induction xs)
  case (Cons x xs)
  then obtain y ys where "P x y" "list_all2 P xs ys" by (metis list.set_intros)
  then have "list_all2 P (x # xs) (y # ys)" by simp
  then show ?case ..
qed (auto intro: exI [of _ "[]"])

lemma type_entries_Ok:
  "type_entries typed d cs = Ok ps \<longleftrightarrow> list_all2 (\<lambda>(n, e) (m, t). m = n \<and> typed e = Ok t) cs ps"
proof -
  have "type_entries typed d cs = Ok ps \<longleftrightarrow>
      list_all2 (\<lambda>(n, e) p. \<exists>t. typed e = Ok t \<and> p = (n, t)) cs ps"
    unfolding type_entries_def collect_outcome_Ok list_all2_map1
    by (rule arg_cong [where f = "\<lambda>P. list_all2 P cs ps"]) (auto simp: fun_eq_iff)
  also have "\<dots> \<longleftrightarrow> list_all2 (\<lambda>(n, e) (m, t). m = n \<and> typed e = Ok t) cs ps"
    by (rule arg_cong [where f = "\<lambda>P. list_all2 P cs ps"]) (auto simp: fun_eq_iff)
  finally show ?thesis .
qed

lemma typed_entries_check:
  assumes "list_all2 (\<lambda>(n, e) (m, t). m = n \<and> typed e = Ok t) cs ps"
  shows "(\<forall>(name, entry) \<in> set cs. \<forall>t. typed entry = Ok t \<longrightarrow> P t) \<longleftrightarrow> (\<forall>(m, t) \<in> set ps. P t)"
  using assms by (induction rule: list_all2_induct) (auto split: prod.splits)

lemma typeable_iff:
  "typeable typed cs \<longleftrightarrow> (\<exists>ps. list_all2 (\<lambda>(n, e) (m, t). m = n \<and> typed e = Ok t) cs ps)"
proof (induction cs)
  case (Cons c cs)
  then show ?case
    by (cases c) (auto simp: typeable_def is_ok_iff list_all2_Cons1)
qed (simp add: typeable_def)

lemma list_ex_unprovisioned: "list_ex is_unprovisioned (map snd cs) \<longleftrightarrow> \<not> provisioned cs"
  by (force simp: provisioned_def list_ex_iff)

lemma parse_devices_spec:
  "parse_devices typed check raw = Ok out \<longleftrightarrow>
     (\<forall>(d, cs) \<in> set raw. provisioned cs \<longrightarrow> typeable typed cs) \<and>
     list_all2 (typed_as typed) (filter (\<lambda>(d, cs). runs typed check cs) raw) out"
proof (induction raw arbitrary: out)
  case Nil
  show ?case by auto
next
  case (Cons r raw)
  obtain d cs where r: "r = (d, cs)" by (cases r)
  show ?case
  proof (cases "provisioned cs")
    case False
    then have "\<not> runs typed check cs" by (simp add: runs_def)
    with False show ?thesis by (simp add: r list_ex_unprovisioned Cons)
  next
    case prov: True
    show ?thesis
    proof (cases "typeable typed cs")
      case False
      then have "type_entries typed d cs \<noteq> Ok ps" for ps
        by (auto simp: type_entries_Ok typeable_iff)
      with prov False show ?thesis by (simp add: r list_ex_unprovisioned)
    next
      case True
      then obtain ps where ps: "list_all2 (\<lambda>(n, e) (m, t). m = n \<and> typed e = Ok t) cs ps"
        by (auto simp: typeable_iff)
      have uniq: "typed_as typed (d, cs) p \<longleftrightarrow> p = (d, ps)" for p
      proof -
        have "list_all2 (\<lambda>(n, e) (m, t). m = n \<and> typed e = Ok t) cs qs \<longleftrightarrow> qs = ps" for qs
          using ps type_entries_Ok [of typed d cs] by (metis outcome.inject(1))
        then show ?thesis by (cases p) (auto simp: typed_as_def)
      qed
      have check: "list_ex (\<lambda>(name, entry). \<not> is_ok (check entry)) ps \<longleftrightarrow> \<not> runs typed check cs"
        using typed_entries_check [OF ps, of "\<lambda>t. is_ok (check t)"] prov
        by (force simp: runs_def list_ex_iff)
      from ps have te: "type_entries typed d cs = Ok ps" by (simp add: type_entries_Ok)
      show ?thesis
        using prov True
        by (auto simp: r list_ex_unprovisioned te check Cons list_all2_Cons1 uniq)
    qed
  qed
qed

text \<open>
  (C27) A device the gateway cannot run costs no other device anything: of the devices in a source
  map exactly those are kept that are provisioned and whose every entry passes its check, in order
  and with every entry typed. Parsing fails only on an entry of a provisioned device that does not
  have the type at all.
\<close>

theorem source_map_keeps_runnable:
  assumes "raw_source_map j = Ok raw"
  shows "((\<exists>out. parse_source_map typed check j = Ok out) \<longleftrightarrow>
      (\<forall>(d, cs) \<in> set raw. provisioned cs \<longrightarrow> typeable typed cs)) \<and>
    (\<forall>out. parse_source_map typed check j = Ok out \<longrightarrow>
      list_all2 (typed_as typed) (filter (\<lambda>(d, cs). runs typed check cs) raw) out)"
proof -
  have eq: "parse_source_map typed check j = parse_devices typed check raw"
    by (simp add: parse_source_map_def assms)
  have "\<exists>out. list_all2 (typed_as typed) (filter (\<lambda>(d, cs). runs typed check cs) raw) out"
    if ok: "\<forall>(d, cs) \<in> set raw. provisioned cs \<longrightarrow> typeable typed cs"
  proof (rule ex_list_all2)
    fix r assume "r \<in> set (filter (\<lambda>(d, cs). runs typed check cs) raw)"
    with ok have "typeable typed (snd r)" by (auto simp: runs_def)
    then show "\<exists>p. typed_as typed r p" by (auto simp: typeable_iff typed_as_def)
  qed
  then show ?thesis unfolding eq parse_devices_spec by blast
qed

section \<open>What an accepted spec guarantees\<close>

text \<open>What the tasks built from a spec rely on, per kind of binding.\<close>

definition polls :: "protocol_binding \<Rightarrow> bool" where
  "polls b = (case b of
     ModbusTcp m \<Rightarrow> mb_function_code m \<in> {None, Some 3, Some 4}
   | Dnp3Tcp d \<Rightarrow> dnp_point_type d \<in> {''analog_input'', ''binary_input''}
   | Sunspec s \<Rightarrow> (\<exists>d. readable s = Ok d)
   | _ \<Rightarrow> True)"

definition all_or_none :: "power_cap_binding \<Rightarrow> bool" where
  "all_or_none p \<longleftrightarrow> (\<forall>f \<in> set (guard_fields p). f) \<or> (\<forall>f \<in> set (guard_fields p). \<not> f)"

definition drives :: "protocol_binding \<Rightarrow> bool" where
  "drives b = (case b of
     ModbusTcp m \<Rightarrow> mb_scale_factor_address m = None \<and>
       (mb_function_code m \<in> {None, Some 16} \<or> mb_function_code m = Some 6 \<and> register_count (mb_data_type m) = 1)
   | Sunspec s \<Rightarrow> (\<exists>d. writable s = Ok d)
   | PowerCap p \<Rightarrow> all_or_none p
   | _ \<Rightarrow> True)"

definition keeps_alive :: "heartbeat_source \<Rightarrow> bool" where
  "keeps_alive h \<longleftrightarrow> 2 \<le> hb_counter_modulo h \<and> 0 < hb_period_s h \<and>
     (\<exists>m fn. hb_binding h = ModbusTcp m \<and> write_function (mb_function_code m) (mb_data_type m) = Ok fn)"

definition spec_wf :: "asyncapi_spec \<Rightarrow> bool" where
  "spec_wf spec \<longleftrightarrow> info_version spec \<noteq> [] \<and>
     (\<forall>(d, cs) \<in> set (x_protocol_source spec). \<forall>(n, s) \<in> set cs. polls (ps_binding s)) \<and>
     (\<forall>(d, cs) \<in> set (x_command_source spec). \<forall>(n, c) \<in> set cs. drives (cs_binding c)) \<and>
     (\<forall>(d, h) \<in> set (x_heartbeat_source spec). keeps_alive h)"

lemma is_ok_void: "is_ok (void x) \<longleftrightarrow> (\<exists>y. x = Ok y)"
  by (cases x) (simp_all add: void_def)

lemma read_function_Ok: "(\<exists>fn. read_function code = Ok fn) \<longleftrightarrow> code \<in> {None, Some 3, Some 4}"
  by (auto simp: read_function_def split: option.splits if_splits)

lemma write_function_Ok:
  "(\<exists>fn. write_function code t = Ok fn) \<longleftrightarrow> code \<in> {None, Some 16} \<or> code = Some 6 \<and> register_count t = 1"
  by (auto simp: write_function_def split: option.splits if_splits)

lemma point_kind_Ok: "(\<exists>k. point_kind_of t = Ok k) \<longleftrightarrow> t \<in> {''analog_input'', ''binary_input''}"
  by (auto simp: point_kind_of_def)

lemma length_filter_all: "length (filter (\<lambda>f. f) fs) = length fs \<longleftrightarrow> (\<forall>f \<in> set fs. f)"
  by (metis filter_id_conv length_filter_less less_irrefl)

lemma whole_guard_Ok: "is_ok (whole_guard p) \<longleftrightarrow> all_or_none p"
proof -
  have "length (guard_fields p) = 6" by (simp add: guard_fields_def)
  then have "length (filter (\<lambda>f. f) (guard_fields p)) = 6 \<longleftrightarrow> (\<forall>f \<in> set (guard_fields p). f)"
    using length_filter_all [of "guard_fields p"] by simp
  moreover have "filter (\<lambda>f. f) (guard_fields p) = [] \<longleftrightarrow> (\<forall>f \<in> set (guard_fields p). \<not> f)"
    by (auto simp: filter_empty_conv)
  ultimately show ?thesis by (simp add: whole_guard_def Let_def all_or_none_def disj_commute)
qed

lemma measurement_check_polls: "is_ok (measurement_check s) \<longleftrightarrow> polls (ps_binding s)"
  by (cases "ps_binding s")
    (simp_all add: measurement_check_def polls_def is_ok_void read_function_Ok point_kind_Ok)

lemma command_check_drives: "is_ok (command_check s) \<longleftrightarrow> drives (cs_binding s)"
  by (cases "cs_binding s")
    (simp_all add: command_check_def drives_def is_ok_void write_function_Ok whole_guard_Ok)

lemma runnable_keeps_alive: "is_ok (runnable h) \<longleftrightarrow> keeps_alive h"
  by (cases "hb_binding h") (auto simp: runnable_def keeps_alive_def is_ok_void not_less)

lemma parse_source_map_checked:
  assumes "parse_source_map typed check j = Ok out" and "(d, cs) \<in> set out" and "(n, t) \<in> set cs"
  shows "is_ok (check t)"
proof -
  from assms(1) obtain raw where "parse_devices typed check raw = Ok out"
    by (auto simp: parse_source_map_def)
  then have l: "list_all2 (typed_as typed) (filter (\<lambda>(d, cs). runs typed check cs) raw) out"
    by (simp add: parse_devices_spec)
  from list_all2_in_set2 [OF l assms(2)] obtain r where
    "r \<in> set (filter (\<lambda>(d, cs). runs typed check cs) raw)" and ty: "typed_as typed r (d, cs)" by blast
  then have r: "runs typed check (snd r)" by auto
  from ty have "list_all2 (\<lambda>(n, e) (m, t). m = n \<and> typed e = Ok t) (snd r) cs" by (simp add: typed_as_def)
  from list_all2_in_set2 [OF this assms(3)] obtain e where "(n, e) \<in> set (snd r)" "typed e = Ok t" by auto
  with r show ?thesis by (auto simp: runs_def)
qed

lemma deserialize_spec_checked:
  assumes "deserialize_spec ty j = Ok spec"
  shows "(d, cs) \<in> set (x_protocol_source spec) \<Longrightarrow> (n, s) \<in> set cs \<Longrightarrow> is_ok (measurement_check s)"
    and "(d, ks) \<in> set (x_command_source spec) \<Longrightarrow> (n, c) \<in> set ks \<Longrightarrow> is_ok (command_check c)"
    and "(d, h) \<in> set (x_heartbeat_source spec) \<Longrightarrow> is_ok (runnable h)"
  using assms
  by (auto simp: deserialize_spec_def defaulted_def measurements_def commands_def heartbeats_def
      intro: parse_source_map_checked split: option.splits)

lemma fetch_asyncapi_wf:
  assumes "fetch_asyncapi get parse_json ty base_url = Ok spec"
  shows "spec_wf spec"
proof -
  from assms obtain j where j: "deserialize_spec ty j = Ok spec" and v: "validate_spec spec = Ok ()"
    by (auto simp: fetch_asyncapi_def)
  from v have "info_version spec \<noteq> []" by (auto simp: validate_spec_def split: if_splits)
  with deserialize_spec_checked [OF j] show ?thesis
    unfolding spec_wf_def
    by (auto simp: measurement_check_polls [symmetric] command_check_drives [symmetric] runnable_keeps_alive [symmetric])
qed


section \<open>Two gaps in the checks\<close>

text \<open>
  A heartbeat that passes the check can still have a period \<^verbatim>\<open>Duration::from_secs_f64\<close> panics on,
  which \<^verbatim>\<open>spawn_task_set\<close> calls while it builds the task set of the whole spec.
\<close>

theorem heartbeat_period_panics:
  "is_ok (runnable \<lparr>hb_counter_modulo = 256, hb_period_s = 2 ^ 64, hb_binding = ModbusTcp ex_binding\<rparr>) \<and>
   from_secs_f64 (hb_period_s \<lparr>hb_counter_modulo = 256, hb_period_s = 2 ^ 64, hb_binding = ModbusTcp ex_binding\<rparr>) = Abort Panicked"
  by (simp add: runnable_keeps_alive keeps_alive_def from_secs_f64_def ex_binding_def write_function_def)

text \<open>
  A command-only binding in \<^verbatim>\<open>x-protocol-source\<close> passes the check, although reading it is
  \<^verbatim>\<open>unreachable!\<close>.
\<close>

lemma command_binding_passes_measurements:
  "measurement_check \<lparr>ps_unit = u, ps_poll_rate_hz = hz, ps_payload = p, ps_value_map = vm, ps_binding = Distribute d\<rparr> = Ok ()"
  by (simp add: measurement_check_def)

section \<open>An example\<close>

definition ex_entry :: "string \<Rightarrow> json" where
  "ex_entry host = JObj [(''host'', JStr host), (''port'', JNum 502)]"

definition ex_typed :: "json \<Rightarrow> protocol_source outcome" where
  "ex_typed j = bind_outcome (ok_or (Option.bind (json_get j ''host'') as_str) (E ''host'' [])) (\<lambda>h.
     Ok \<lparr>ps_unit = ''watts'', ps_poll_rate_hz = None, ps_payload = None, ps_value_map = None,
         ps_binding = ModbusTcp (ex_binding\<lparr>mb_host := h, mb_function_code := (if h = ''bad'' then Some 6 else Some 3)\<rparr>)\<rparr>)"

definition ex_map :: json where
  "ex_map = JObj [(''a'', JObj [(''p'', ex_entry ''10.0.0.7'')]), (''b'', JObj [(''p'', ex_entry SENTINEL)]),
     (''c'', JObj [(''p'', ex_entry ''bad'')])]"

definition ex_types :: entry_types where
  "ex_types = \<lparr>et_measurement = ex_typed, et_command = (\<lambda>_. Err (E ''none'' [])), et_heartbeat = (\<lambda>_. Err (E ''none'' [])),
     et_trust = (\<lambda>_. Err (E ''none'' []))\<rparr>"

lemmas ex_source_defs = ex_entry_def ex_typed_def ex_map_def ex_types_def json_get_def SENTINEL_def is_unprovisioned_def

theorem source_map_keeps_runnable_witness:
  "\<exists>out. parse_source_map ex_typed measurement_check ex_map = Ok out \<and> map fst out = [''a'']"
proof -
  let ?raw = "[(''a'', [(''p'', ex_entry ''10.0.0.7'')]), (''b'', [(''p'', ex_entry SENTINEL)]), (''c'', [(''p'', ex_entry ''bad'')])]"
  have raw: "raw_source_map ex_map = Ok ?raw" by (simp add: raw_source_map_def ex_map_def)
  have ty: "typeable ex_typed [(''p'', ex_entry h)]" for h by (simp add: typeable_def ex_source_defs)
  have r: "runs ex_typed measurement_check [(''p'', ex_entry ''10.0.0.7'')]"
    "\<not> runs ex_typed measurement_check [(''p'', ex_entry SENTINEL)]"
    "\<not> runs ex_typed measurement_check [(''p'', ex_entry ''bad'')]"
    by (simp_all add: runs_def provisioned_def measurement_check_polls polls_def ex_source_defs)
  from source_map_keeps_runnable [OF raw, of ex_typed measurement_check] ty
  obtain out where "parse_source_map ex_typed measurement_check ex_map = Ok out"
    "list_all2 (typed_as ex_typed) [(''a'', [(''p'', ex_entry ''10.0.0.7'')])] out" by (auto simp: r)
  then show ?thesis by (auto simp: list_all2_Cons1 typed_as_def)
qed


end
