(* ===== verification/Heartbeat.thy ===== *)
theory Heartbeat
  imports Source_Map
begin

text \<open>
  The counter heartbeats of \<^verbatim>\<open>heartbeat.rs\<close>, as \<^verbatim>\<open>app::spawn_task_set\<close> builds them from the
  spec: a counter that is written once a period while the gateway can steer the device, and that
  counts on from each write that succeeded.
\<close>

record counter =
  hc_device_id :: string
  hc_binding :: modbus_tcp_binding
  hc_modulo :: u16
  hc_period :: duration

text \<open>The binding of another protocol is \<^verbatim>\<open>unreachable!\<close>.\<close>

definition build_counter :: "string \<Rightarrow> heartbeat_source \<Rightarrow> counter outcome" where
  "build_counter device_id h = (case hb_binding h of
     ModbusTcp binding \<Rightarrow> bind_outcome (from_secs_f64 (hb_period_s h)) (\<lambda>period.
       Ok \<lparr>hc_device_id = device_id, hc_binding = binding, hc_modulo = hb_counter_modulo h, hc_period = period\<rparr>)
   | _ \<Rightarrow> Abort Panicked)"

text \<open>\<^verbatim>\<open>(count + 1) % c.modulo\<close> in \<^verbatim>\<open>u16\<close>: the addition overflows at 65535, the remainder panics on 0.\<close>

definition next_count :: "counter \<Rightarrow> u16 \<Rightarrow> u16 outcome" where
  "next_count c n = (if n = 65535 \<or> hc_modulo c = 0 then Abort Panicked else Ok ((n + 1) mod hc_modulo c))"

definition counter_round :: "world \<Rightarrow> bool \<Rightarrow> string set \<Rightarrow> counter \<Rightarrow> device_trust option \<Rightarrow> gateway_credentials option \<Rightarrow> u16 \<Rightarrow> u16 act" where
  "counter_round w link locked c trust creds n s =
     (if \<not> steerable link locked (hc_device_id c) then (Ok n, s)
      else case write_setpoint w (hc_binding c) (real (unat n)) trust creds s of
        (Ok u, t) \<Rightarrow> (next_count c n, t)
      | (Err e, t) \<Rightarrow> (Ok n, t)
      | (Abort a, t) \<Rightarrow> (Abort a, t))"

section \<open>A write never panics\<close>

lemma write_registers_no_abort:
  "ws \<noteq> [] \<Longrightarrow> fst (write_registers w ch u addr ws fn s) \<noteq> Abort a"
  by (simp add: write_registers_def Let_def retry_no_abort)

lemma encode_raw_no_abort: "encode_raw raw ty order \<noteq> Abort a"
  by (cases raw; cases ty) (auto simp: encode_raw_def fits_def f32_is_finite_def)

lemma register_count_pos: "0 < unat (register_count ty)"
  by (cases ty) simp_all

lemma bind_act_no_abort:
  assumes "\<And>a. fst (m s) \<noteq> Abort a" and "\<And>x t a. m s = (Ok x, t) \<Longrightarrow> fst (f x t) \<noteq> Abort a"
  shows "fst (bind_act m f s) \<noteq> Abort a"
  using assms by (cases "m s"; cases "fst (m s)") (auto simp: bind_act_def)

lemma write_channel_no_abort: "fst (write_channel w host port trust creds s) \<noteq> Abort a"
  by (auto simp: write_channel_def open_channel_def Let_def split: option.splits device_trust.splits)

lemma write_function_no_abort: "write_function code ty \<noteq> Abort a"
  by (auto simp: write_function_def split: option.splits)

lemma write_setpoint_no_abort: "fst (write_setpoint w b v trust creds s) \<noteq> Abort a"
  unfolding write_setpoint_def
proof (intro bind_act_no_abort)
  fix fn t ws t' ch t'' u t''' a
  assume "lift_act (encode_raw (to_raw v (mb_scale b) (mb_offset b)) (mb_data_type b) (mb_word_order b)) t = (Ok ws, t')"
  then have "length ws = unat (register_count (mb_data_type b))" by (auto intro: encode_raw_length)
  then have "ws \<noteq> []" using register_count_pos [of "mb_data_type b"] by auto
  then show "fst (write_registers w ch u (mb_address b) ws fn t''') \<noteq> Abort a" by (rule write_registers_no_abort)
qed (simp_all add: lift_act_def write_function_no_abort encode_raw_no_abort write_channel_no_abort parse_unit_id_def)

section \<open>The counter counts\<close>

text \<open>
  A run of the loop: what the broker link, the locks and the device do may differ from round to
  round. \<open>vs\<close> are the values of the writes that succeeded, in order.
\<close>

definition beaten :: "world \<Rightarrow> bool \<Rightarrow> string set \<Rightarrow> counter \<Rightarrow> device_trust option \<Rightarrow> gateway_credentials option \<Rightarrow> u16 \<Rightarrow> south \<Rightarrow> bool" where
  "beaten w link locked c trust creds n s \<longleftrightarrow> steerable link locked (hc_device_id c) \<and>
     is_ok (fst (write_setpoint w (hc_binding c) (real (unat n)) trust creds s))"

inductive counting :: "counter \<Rightarrow> device_trust option \<Rightarrow> gateway_credentials option \<Rightarrow> south \<Rightarrow> u16 list \<Rightarrow> u16 \<Rightarrow> south \<Rightarrow> bool"
  for c trust creds s\<^sub>0 where
  start: "counting c trust creds s\<^sub>0 [] 0 s\<^sub>0"
| round: "counting c trust creds s\<^sub>0 vs n s \<Longrightarrow> counter_round w link locked c trust creds n s = (Ok n', t) \<Longrightarrow>
    counting c trust creds s\<^sub>0 (if beaten w link locked c trust creds n s then vs @ [n] else vs) n' t"

lemma counter_round_cases:
  "fst (counter_round w link locked c trust creds n s) =
     (if beaten w link locked c trust creds n s then next_count c n else Ok n)"
proof (cases "write_setpoint w (hc_binding c) (real (unat n)) trust creds s")
  case (Pair r t)
  with write_setpoint_no_abort [of w "hc_binding c" "real (unat n)" trust creds s]
  have "(\<exists>u. r = Ok u) \<or> (\<exists>e. r = Err e)" by (metis fst_conv outcome.exhaust)
  with Pair show ?thesis by (auto simp: counter_round_def beaten_def)
qed

lemma next_count_below:
  assumes "2 \<le> hc_modulo c" and "n < hc_modulo c"
  shows "\<exists>n'. next_count c n = Ok n' \<and> unat n' = Suc (unat n) mod unat (hc_modulo c)"
proof -
  have m: "unat (hc_modulo c) < 65536" "unat n < unat (hc_modulo c)"
    using assms(2) by (simp_all add: unat_u16_less word_less_nat_alt)
  then have n: "n \<noteq> 65535" by auto
  have z: "hc_modulo c \<noteq> 0" using assms(1) by auto
  have "unat (n + 1) = Suc (unat n)" using m by (simp add: unat_word_ariths)
  with n z show ?thesis by (simp add: next_count_def unat_mod)
qed

lemma counting_inv:
  assumes "counting c trust creds s\<^sub>0 vs n s" and "2 \<le> hc_modulo c"
  shows "unat n = length vs mod unat (hc_modulo c) \<and> vs = map (\<lambda>i. of_nat (i mod unat (hc_modulo c))) [0..<length vs]"
  using assms(1)
proof induction
  case start
  show ?case by simp
next
  case (round vs n s w link locked n' t)
  let ?m = "unat (hc_modulo c)"
  have "0 < ?m" using assms(2) by (auto simp: unat_gt_0)
  then have n: "n < hc_modulo c" using round.IH by (simp add: word_less_nat_alt)
  show ?case
  proof (cases "beaten w link locked c trust creds n s")
    case False
    then have "n' = n" using round.hyps(2) counter_round_cases [of w link locked c trust creds n s] by simp
    then show ?thesis using False round.IH by simp
  next
    case True
    then have "next_count c n = Ok n'"
      using round.hyps(2) counter_round_cases [of w link locked c trust creds n s] by simp
    with next_count_below [OF assms(2) n] round.IH have "unat n' = Suc (length vs) mod ?m"
      by (simp add: mod_Suc_eq)
    moreover have "n = of_nat (length vs mod ?m)" using round.IH by (metis of_nat_unat ucast_id)
    ultimately show ?thesis using True round.IH by simp
  qed
qed

text \<open>
  (C25) A device sees its heartbeat count without a gap: over any run, whatever fails and whatever is
  locked in between, the values of the writes that succeeded are 0, 1, ... modulo-1, 0, ... in
  order, each within the modulo, and the counter never overflows or panics.
\<close>

theorem heartbeat_counts:
  assumes "keeps_alive h" and "build_counter device_id h = Ok c"
    and "counting c trust creds s\<^sub>0 vs n s"
  shows "vs = map (\<lambda>i. of_nat (i mod unat (hb_counter_modulo h))) [0..<length vs] \<and> n < hb_counter_modulo h \<and>
    (\<exists>n' t. counter_round w link locked c trust creds n s = (Ok n', t))"
proof -
  have m: "hc_modulo c = hb_counter_modulo h" "2 \<le> hc_modulo c"
    using assms(1,2) by (auto simp: keeps_alive_def build_counter_def split: protocol_binding.splits)
  note inv = counting_inv [OF assms(3) m(2)]
  have "0 < unat (hc_modulo c)" using m(2) by (auto simp: unat_gt_0)
  then have n: "n < hc_modulo c" using inv by (simp add: word_less_nat_alt)
  from next_count_below [OF m(2) this] have "\<exists>n'. fst (counter_round w link locked c trust creds n s) = Ok n'"
    by (auto simp: counter_round_cases)
  then have "\<exists>n' t. counter_round w link locked c trust creds n s = (Ok n', t)"
    by (metis prod.exhaust_sel)
  moreover have "vs = map (\<lambda>i. of_nat (i mod unat (hb_counter_modulo h))) [0..<length vs]"
    using inv by (simp only: m(1))
  ultimately show ?thesis using n by (simp only: m(1))
qed

section \<open>An example\<close>

definition ex_heartbeat :: heartbeat_source where
  "ex_heartbeat = \<lparr>hb_counter_modulo = 2, hb_period_s = 1, hb_binding = ModbusTcp ex_binding\<rparr>"

definition ex_counter :: counter where
  "ex_counter = \<lparr>hc_device_id = ''bms'', hc_binding = ex_binding, hc_modulo = 2, hc_period = 1000000000\<rparr>"

theorem heartbeat_counts_witness:
  "fst (counter_round (ex_world 0) True {} ex_counter None None 1 south_init) = Ok 0 \<and>
   (\<exists>n' t. counter_round (ex_world 0) True {} ex_counter None None 0 south_init = (Ok n', t))"
proof -
  have h: "keeps_alive ex_heartbeat"
    by (simp add: keeps_alive_def ex_heartbeat_def ex_binding_def write_function_def)
  have b: "build_counter ''bms'' ex_heartbeat = Ok ex_counter"
    by (simp add: build_counter_def ex_heartbeat_def ex_counter_def from_secs_f64_def round_even_def)
  have "is_ok (fst (write_setpoint (ex_world 0) ex_binding 1 None None south_init))"
    using rust_round_of_int [of 0]
    by (simp add: ex_modbus_defs write_setpoint_def bind_act_def lift_act_def write_function_def to_raw_def encode_raw_def
        fits_def encode_finite_def write_channel_def open_channel_def is_secure_def parse_unit_id_def parse_u8_def
        digit_value_def write_registers_def MAX_ATTEMPTS_Suc rust_round_def)
  then have "beaten (ex_world 0) True {} ex_counter None None 1 south_init"
    by (simp add: beaten_def steerable_def ex_counter_def)
  then have "fst (counter_round (ex_world 0) True {} ex_counter None None 1 south_init) = Ok 0"
    by (simp add: counter_round_cases next_count_def ex_counter_def)
  moreover have "\<exists>n' t. counter_round (ex_world 0) True {} ex_counter None None 0 south_init = (Ok n', t)"
    using heartbeat_counts [OF h b counting.start, where w = "ex_world 0" and link = True and locked = "{}"] by blast
  ultimately show ?thesis ..
qed

end
