(* ===== verification/South_Reads.thy ===== *)
theory South_Reads
  imports Dispatch Source_Map
begin

text \<open>
  One read of one measurement, whatever its protocol: the Redfish client
  (\<^verbatim>\<open>redfish/client.rs\<close>), SNMP (\<^verbatim>\<open>snmp/client.rs\<close>), DNP3 (\<^verbatim>\<open>dnp3/client.rs\<close>,
  \<^verbatim>\<open>dnp3/master.rs\<close>), BACnet/IP and BACnet/SC (\<^verbatim>\<open>bacnet/client.rs\<close>,
  \<^verbatim>\<open>bacnet_sc/client.rs\<close>) and the dispatch of \<^verbatim>\<open>read.rs\<close>. The protocol stacks
  (reqwest, snmp2, dnp3, bacnet-rs, sockets, the environment) are the record \<open>peers\<close>.
\<close>

datatype raw = Number f64x | Text string

section \<open>The protocol stacks\<close>

text \<open>The answer to one GET: the status with the parsed body if it was JSON, or no answer.\<close>

datatype get_reply = GetStatus nat "json option" | GetFailed

datatype snmp_value = SnmpInteger int | Counter32 u32 | Unsigned32 u32 | Counter64 u64 | SnmpOther

record usm_security =
  usm_name :: string
  usm_auth_pass :: string
  usm_auth :: snmpv3_auth_protocol
  usm_priv :: snmpv3_priv_protocol
  usm_priv_pass :: string

datatype dnp_channel = DnpTcp string | DnpTls string string gateway_credentials

datatype dnp_value = AnalogValue u16 f64x | BinaryValue u16 bool

datatype property_value = PvReal f64x | PvDouble f64x | PvUnsigned u64 | PvSigned int | PvOther

datatype apdu = ReadPropertyAck "u8 list" | ApduError nat nat | OtherApdu

text \<open>
  \<open>p_get\<close>: the n-th attempt of a GET. \<open>p_oid\<close>: snmp2 takes the sub-identifiers. \<open>p_v2c\<close>,
  \<open>p_v3\<close>: the varbind values of the n-th SNMP attempt. \<open>p_env\<close>: the environment. \<open>p_dnp_tls\<close>:
  the TLS configuration builds. \<open>p_dnp_open\<close>: association and enabling. \<open>p_dnp_read\<close>: the
  values a read delivers, in order, the start-up poll included. \<open>p_bacnet_request\<close>: the encoded
  ReadProperty request. \<open>p_npdu\<close>, \<open>p_npdu_decode\<close>, \<open>p_apdu_decode\<close>, \<open>p_property_decode\<close>: bacnet-rs.
  \<open>p_bacnet_exchange\<close>: resolve, send a frame, await one. \<open>p_bacnet_sc\<close>: connect to the hub and
  read a property.
\<close>

record peers =
  p_get :: "http_scheme \<Rightarrow> string \<Rightarrow> u16 \<Rightarrow> string \<Rightarrow> nat \<Rightarrow> get_reply"
  p_oid :: "u64 list \<Rightarrow> bool"
  p_v2c :: "string \<Rightarrow> u16 \<Rightarrow> string \<Rightarrow> u64 list \<Rightarrow> nat \<Rightarrow> snmp_value list outcome"
  p_v3 :: "string \<Rightarrow> u16 \<Rightarrow> usm_security \<Rightarrow> u64 list \<Rightarrow> nat \<Rightarrow> snmp_value list outcome"
  p_env :: "string \<rightharpoonup> string"
  p_dnp_tls :: "string \<Rightarrow> gateway_credentials \<Rightarrow> bool"
  p_dnp_open :: "dnp_channel \<Rightarrow> u16 \<Rightarrow> u16 \<Rightarrow> nat \<Rightarrow> unit outcome"
  p_dnp_read :: "dnp_channel \<Rightarrow> u16 \<Rightarrow> u16 \<Rightarrow> point_kind \<Rightarrow> u8 \<Rightarrow> nat \<Rightarrow> dnp_value list outcome"
  p_bacnet_request :: "u32 \<Rightarrow> u8 list outcome"
  p_npdu :: "u8 list"
  p_npdu_decode :: "u8 list \<Rightarrow> nat outcome"
  p_apdu_decode :: "u8 list \<Rightarrow> apdu outcome"
  p_property_decode :: "u8 list \<Rightarrow> property_value list outcome"
  p_bacnet_exchange :: "string \<Rightarrow> u16 \<Rightarrow> u8 list \<Rightarrow> nat \<Rightarrow> u8 list outcome"
  p_bacnet_sc :: "gateway_credentials \<Rightarrow> string \<Rightarrow> u8 list \<Rightarrow> u32 \<Rightarrow> property_value outcome"

text \<open>
  The retry loop the clients share: every error is tried again, the last one is reported. The
  second argument is the attempt, the third what is left, the fourth the last error.
\<close>

definition MAX_READ_ATTEMPTS :: nat where
  "MAX_READ_ATTEMPTS = 5"

fun attempts :: "(nat \<Rightarrow> 'a outcome) \<Rightarrow> nat \<Rightarrow> nat \<Rightarrow> err option \<Rightarrow> string \<Rightarrow> 'a outcome" where
  "attempts f k 0 last_err msg = (case last_err of None \<Rightarrow> Abort Panicked | Some e \<Rightarrow> Err (Ctx msg [] e))"
| "attempts f k (Suc n) last_err msg = (case f k of
     Ok x \<Rightarrow> Ok x
   | Err e \<Rightarrow> attempts f (Suc k) n (Some e) msg
   | Abort a \<Rightarrow> Abort a)"

section \<open>Redfish\<close>

text \<open>\<^verbatim>\<open>fetch\<close>: a success whose body is not JSON is final, anything else is tried again.\<close>

fun fetch_loop :: "(nat \<Rightarrow> get_reply) \<Rightarrow> nat \<Rightarrow> nat \<Rightarrow> err option \<Rightarrow> json outcome" where
  "fetch_loop get k 0 last_err =
     (case last_err of None \<Rightarrow> Abort Panicked | Some e \<Rightarrow> Err (Ctx ''redfish fetch exhausted retries'' [] e))"
| "fetch_loop get k (Suc n) last_err = (case get k of
     GetStatus status body \<Rightarrow>
       if 200 \<le> status \<and> status < 300
       then ok_or body (E ''parse Redfish JSON'' [])
       else fetch_loop get (Suc k) n (Some (E ''redfish HTTP'' [W status]))
   | GetFailed \<Rightarrow> fetch_loop get (Suc k) n (Some (E ''redfish send'' [])))"

definition fetch_resource :: "world \<Rightarrow> peers \<Rightarrow> redfish_binding \<Rightarrow> device_trust option \<Rightarrow> gateway_credentials option \<Rightarrow> json outcome" where
  "fetch_resource w p b trust creds = bind_outcome (http_client w trust creds) (\<lambda>scheme.
     fetch_loop (p_get p scheme (rf_host b) (rf_port b) (rf_uri b)) 0 MAX_READ_ATTEMPTS None)"

text \<open>
  \<^verbatim>\<open>serde_json::Value::pointer\<close> (RFC 6901). An array index has no sign and no leading zero.
\<close>

definition parse_index :: "string \<Rightarrow> nat option" where
  "parse_index s =
     (case s of
        [] \<Rightarrow> None
      | c # cs \<Rightarrow>
          if c = CHR ''+'' \<or> (c = CHR ''0'' \<and> cs \<noteq> []) then None
          else case parse_digits 0 s of
                 None \<Rightarrow> None
               | Some n \<Rightarrow> if n < 18446744073709551616 then Some n else None)"

fun json_step :: "json option \<Rightarrow> string \<Rightarrow> json option" where
  "json_step (Some (JObj kvs)) token = map_of kvs token"
| "json_step (Some (JArr vs)) token = (case parse_index token of
     None \<Rightarrow> None
   | Some i \<Rightarrow> if i < length vs then Some (vs ! i) else None)"
| "json_step v token = None"

definition json_pointer :: "json \<Rightarrow> string \<Rightarrow> json option" where
  "json_pointer v ptr =
     (if ptr = [] then Some v
      else if hd ptr \<noteq> CHR ''/'' then None
      else foldl json_step (Some v) (map unescape_token (drop 1 (split_on (CHR ''/'') ptr))))"

fun as_f64 :: "json \<Rightarrow> f64 option" where
  "as_f64 (JNum x) = Some x"
| "as_f64 v = None"

definition extract_reading :: "json \<Rightarrow> redfish_binding \<Rightarrow> raw outcome" where
  "extract_reading body b =
     bind_outcome
       (case rf_json_pointer b of
          Some ptr \<Rightarrow> ok_or (json_pointer body ptr) (E ''json pointer missed'' [S ptr, S (rf_uri b)])
        | None \<Rightarrow> Ok body)
       (\<lambda>value. case value of
          JStr text \<Rightarrow> Ok (Text text)
        | _ \<Rightarrow> bind_outcome (ok_or (as_f64 value) (E ''expected a number or text'' [S (rf_uri b)]))
                 (\<lambda>x. Ok (Number (Fin x * Fin (rf_scale b)))))"

definition read_measurement_redfish :: "world \<Rightarrow> peers \<Rightarrow> redfish_binding \<Rightarrow> device_trust option \<Rightarrow> gateway_credentials option \<Rightarrow> raw outcome" where
  "read_measurement_redfish w p b trust creds = bind_outcome (fetch_resource w p b trust creds) (\<lambda>body. extract_reading body b)"

section \<open>SNMP\<close>

definition COMMUNITY :: string where
  "COMMUNITY = ''public''"

definition parse_u64 :: "string \<Rightarrow> u64 option" where
  "parse_u64 s =
     (let ds = (case s of [] \<Rightarrow> [] | c # cs \<Rightarrow> if c = CHR ''+'' then cs else s) in
      if ds = [] then None
      else case parse_digits 0 ds of
             None \<Rightarrow> None
           | Some n \<Rightarrow> if n < 18446744073709551616 then Some (of_nat n) else None)"

definition parse_dotted_oid :: "peers \<Rightarrow> string \<Rightarrow> u64 list outcome" where
  "parse_dotted_oid p s =
     bind_outcome (collect_outcome (map (\<lambda>segment. ok_or (parse_u64 segment) (E ''parse OID dotted-numeric'' [S s]))
       (split_on (CHR ''.'') s))) (\<lambda>parts.
     if p_oid p parts then Ok parts else Err (E ''invalid OID'' [S s]))"

definition extract_integer :: "snmp_value list \<Rightarrow> f64 outcome" where
  "extract_integer varbinds = (case varbinds of
     [] \<Rightarrow> Err (E ''snmp response had no varbinds'' [])
   | v # _ \<Rightarrow> (case v of
       SnmpInteger i \<Rightarrow> Ok (real_of_int i)
     | Counter32 c \<Rightarrow> Ok (real (unat c))
     | Unsigned32 u \<Rightarrow> Ok (real (unat u))
     | Counter64 c \<Rightarrow> Ok (real (unat c))
     | SnmpOther \<Rightarrow> Err (E ''expected integer-shaped SNMP value'' [])))"

text \<open>\<^verbatim>\<open>to_uppercase\<close> on ASCII letters, which security names consist of.\<close>

definition upper :: "char \<Rightarrow> char" where
  "upper c = (let n = of_char c :: nat in if 97 \<le> n \<and> n \<le> 122 then char_of (n - 32) else c)"

definition usm_key :: "string \<Rightarrow> string" where
  "usm_key security_name = replace_all ''-'' ''_'' (map upper security_name)"

definition load_usm_passphrases :: "peers \<Rightarrow> string \<Rightarrow> (string \<times> string) outcome" where
  "load_usm_passphrases p security_name =
     (let auth_var = ''SNMP_USM_'' @ usm_key security_name @ ''_AUTH_PASSPHRASE'';
          priv_var = ''SNMP_USM_'' @ usm_key security_name @ ''_PRIV_PASSPHRASE'' in
      bind_outcome (ok_or (p_env p auth_var) (E ''missing required env'' [S auth_var])) (\<lambda>auth_pass.
      bind_outcome (ok_or (p_env p priv_var) (E ''missing required env'' [S priv_var])) (\<lambda>priv_pass.
        Ok (auth_pass, priv_pass))))"

definition try_get_v2c :: "peers \<Rightarrow> string \<Rightarrow> u16 \<Rightarrow> u64 list \<Rightarrow> nat \<Rightarrow> f64 outcome" where
  "try_get_v2c p host port oid attempt = bind_outcome (p_v2c p host port COMMUNITY oid attempt) extract_integer"

definition try_get_v3 :: "peers \<Rightarrow> string \<Rightarrow> u16 \<Rightarrow> u64 list \<Rightarrow> string \<Rightarrow> snmpv3_auth_protocol \<Rightarrow> snmpv3_priv_protocol \<Rightarrow> nat \<Rightarrow> f64 outcome" where
  "try_get_v3 p host port oid security_name auth_protocol priv_protocol attempt =
     bind_outcome (load_usm_passphrases p security_name) (\<lambda>(auth_pass, priv_pass).
     bind_outcome (p_v3 p host port
       \<lparr>usm_name = security_name, usm_auth_pass = auth_pass, usm_auth = auth_protocol, usm_priv = priv_protocol,
        usm_priv_pass = priv_pass\<rparr> oid attempt) extract_integer)"

definition read_measurement_snmp :: "peers \<Rightarrow> snmp_binding \<Rightarrow> device_trust option \<Rightarrow> f64 outcome" where
  "read_measurement_snmp p b trust = bind_outcome (parse_dotted_oid p (snmp_oid b)) (\<lambda>oid.
     bind_outcome
       (attempts (\<lambda>k. case trust of
            Some (Snmpv3Usm security_name auth_protocol priv_protocol) \<Rightarrow>
              try_get_v3 p (snmp_host b) (snmp_port b) oid security_name auth_protocol priv_protocol k
          | _ \<Rightarrow> try_get_v2c p (snmp_host b) (snmp_port b) oid k)
         0 MAX_READ_ATTEMPTS None ''snmp get exhausted retries'')
       (\<lambda>v. Ok (v * snmp_scale b)))"

section \<open>DNP3\<close>

definition MASTER_ADDR :: u16 where
  "MASTER_ADDR = 1"

text \<open>The \<^verbatim>\<open>Capturing\<close> handler: values of the kind that is read, the last one per index.\<close>

fun capture :: "point_kind \<Rightarrow> (u16 \<rightharpoonup> f64x) \<Rightarrow> dnp_value \<Rightarrow> (u16 \<rightharpoonup> f64x)" where
  "capture AnalogInput m (AnalogValue idx value) = m(idx \<mapsto> value)"
| "capture BinaryInput m (BinaryValue idx value) = m(idx \<mapsto> Fin (if value then 1 else 0))"
| "capture kind m v = m"

definition read_with_channel :: "peers \<Rightarrow> dnp_channel \<Rightarrow> dnp3_tcp_binding \<Rightarrow> point_kind \<Rightarrow> nat \<Rightarrow> f64x outcome" where
  "read_with_channel p ch b kind attempt =
     bind_outcome (p_dnp_open p ch MASTER_ADDR (dnp_outstation_address b) attempt) (\<lambda>_.
     bind_outcome
       (if unat (dnp_point_index b) < 256 then Ok (ucast (dnp_point_index b)) else Err (E ''point_index must fit in u8'' []))
       (\<lambda>stop.
     bind_outcome (p_dnp_read p ch MASTER_ADDR (dnp_outstation_address b) kind stop attempt) (\<lambda>values.
       ok_or (foldl (capture kind) Map.empty values (dnp_point_index b))
         (E ''no point at index in response'' [W (unat (dnp_point_index b))]))))"

definition try_read_plain :: "peers \<Rightarrow> string \<Rightarrow> dnp3_tcp_binding \<Rightarrow> point_kind \<Rightarrow> nat \<Rightarrow> f64x outcome" where
  "try_read_plain p ep b kind attempt = read_with_channel p (DnpTcp ep) b kind attempt"

definition try_read_tls :: "peers \<Rightarrow> string \<Rightarrow> dnp3_tcp_binding \<Rightarrow> point_kind \<Rightarrow> string \<Rightarrow> gateway_credentials \<Rightarrow> nat \<Rightarrow> f64x outcome" where
  "try_read_tls p ep b kind subject_name creds attempt =
     (if p_dnp_tls p subject_name creds
      then read_with_channel p (DnpTls ep subject_name creds) b kind attempt
      else Err (E ''build dnp3 TlsClientConfig::full_pki'' []))"

text \<open>A port in decimal, as \<^verbatim>\<open>format!\<close> prints it.\<close>

function show_nat :: "nat \<Rightarrow> string" where
  "show_nat n = (if n < 10 then [char_of (48 + n)] else show_nat (n div 10) @ [char_of (48 + n mod 10)])"
  by pat_completeness auto
termination
  by (relation "measure (\<lambda>n. n)") auto

declare show_nat.simps [simp del]

definition endpoint_of :: "string \<Rightarrow> u16 \<Rightarrow> string" where
  "endpoint_of host port = host @ '':'' @ show_nat (unat port)"

definition read_measurement_dnp3 :: "peers \<Rightarrow> dnp3_tcp_binding \<Rightarrow> device_trust option \<Rightarrow> gateway_credentials option \<Rightarrow> f64x outcome" where
  "read_measurement_dnp3 p b trust creds = bind_outcome (point_kind_of (dnp_point_type b)) (\<lambda>kind.
     let ep = endpoint_of (dnp_host b) (dnp_port b) in
     bind_outcome
       (attempts (\<lambda>k. case (trust, creds) of
            (Some (TlsMutual subject_name), Some c) \<Rightarrow> try_read_tls p ep b kind subject_name c k
          | _ \<Rightarrow> try_read_plain p ep b kind k)
         0 MAX_READ_ATTEMPTS None ''dnp3 read exhausted retries'')
       (\<lambda>v. Ok (v * Fin (dnp_scale b))))"

section \<open>BACnet/IP\<close>

text \<open>\<^verbatim>\<open>total as u16\<close> truncates; the length goes into bytes 2 and 3, high byte first.\<close>

definition wrap_bvlc :: "peers \<Rightarrow> u8 list \<Rightarrow> u8 list" where
  "wrap_bvlc p apdu_bytes =
     (let out = [0x81, 0x0A, 0x00, 0x00] @ p_npdu p @ apdu_bytes; total_len = of_nat (length out) :: u16 in
      (out[2 := ucast (drop_bit 8 total_len)])[3 := ucast (total_len AND 0xFF)])"

definition numeric_property :: "property_value \<Rightarrow> f64x option" where
  "numeric_property v = (case v of
     PvReal f \<Rightarrow> Some f | PvDouble f \<Rightarrow> Some f
   | PvUnsigned u \<Rightarrow> Some (Fin (real (unat u))) | PvSigned i \<Rightarrow> Some (Fin (real_of_int i))
   | PvOther \<Rightarrow> None)"

fun find_map :: "('a \<Rightarrow> 'b option) \<Rightarrow> 'a list \<Rightarrow> 'b option" where
  "find_map f [] = None"
| "find_map f (x # xs) = (case f x of None \<Rightarrow> find_map f xs | Some y \<Rightarrow> Some y)"

definition parse_response :: "peers \<Rightarrow> u8 list \<Rightarrow> f64x outcome" where
  "parse_response p frame =
     (if length frame < 4 \<or> frame ! 0 \<noteq> 0x81 then Err (E ''not a BACnet/IP BVLC frame'' [])
      else bind_outcome (p_npdu_decode p (drop 4 frame)) (\<lambda>npdu_len.
        if 4 + npdu_len > length frame then Abort Panicked
        else bind_outcome (p_apdu_decode p (drop (4 + npdu_len) frame)) (\<lambda>apdu.
          bind_outcome
            (case apdu of
               ReadPropertyAck service_data \<Rightarrow> Ok service_data
             | ApduError error_class error_code \<Rightarrow> Err (E ''bacnet error'' [W error_class, W error_code])
             | OtherApdu \<Rightarrow> Err (E ''unexpected apdu type'' []))
            (\<lambda>service_data. bind_outcome (p_property_decode p service_data) (\<lambda>values.
              ok_or (find_map numeric_property values) (E ''no numeric value in response'' []))))))"

definition try_read_bacnet :: "peers \<Rightarrow> bacnet_ip_binding \<Rightarrow> nat \<Rightarrow> f64x outcome" where
  "try_read_bacnet p b attempt =
     bind_outcome (p_bacnet_request p (bip_object_instance b)) (\<lambda>apdu_bytes.
     bind_outcome (p_bacnet_exchange p (bip_host b) (bip_port b) (wrap_bvlc p apdu_bytes) attempt) (parse_response p))"

definition read_measurement_bacnet :: "peers \<Rightarrow> bacnet_ip_binding \<Rightarrow> f64x outcome" where
  "read_measurement_bacnet p b =
     (if bip_object_type b \<noteq> ''analog_input'' then
        Err (E ''Tier 1 BACnet only supports analog_input object_type'' [S (bip_object_type b)])
      else if bip_property_id b \<noteq> ''present_value'' then
        Err (E ''Tier 1 BACnet only supports present_value property_id'' [S (bip_property_id b)])
      else attempts (try_read_bacnet p b) 0 MAX_READ_ATTEMPTS None ''bacnet read exhausted retries'')"

section \<open>BACnet/SC\<close>

definition hex_value :: "char \<Rightarrow> nat option" where
  "hex_value c = (let n = of_char c :: nat in
     if 48 \<le> n \<and> n \<le> 57 then Some (n - 48)
     else if 65 \<le> n \<and> n \<le> 70 then Some (n - 55)
     else if 97 \<le> n \<and> n \<le> 102 then Some (n - 87) else None)"

text \<open>Pairs of digits into bytes; all characters passed the filter, so no byte fails to parse.\<close>

fun hex_bytes :: "nat list \<Rightarrow> u8 list" where
  "hex_bytes (a # b # ds) = of_nat (16 * a + b) # hex_bytes ds"
| "hex_bytes ds = []"

definition parse_vmac :: "string \<Rightarrow> u8 list outcome" where
  "parse_vmac s =
     (let cleaned = List.map_filter hex_value s in
      if length cleaned \<noteq> 12 then Err (E ''VMAC must be 12 hex digits'' [W (length cleaned), S s])
      else Ok (hex_bytes cleaned))"

definition coerce_to_f64 :: "property_value \<Rightarrow> f64x outcome" where
  "coerce_to_f64 v = ok_or (numeric_property v) (E ''Tier 1 BACnet/SC only supports numeric PropertyValue variants'' [])"

definition read_measurement_bacnet_sc :: "peers \<Rightarrow> bacnet_sc_binding \<Rightarrow> gateway_credentials option \<Rightarrow> f64x outcome" where
  "read_measurement_bacnet_sc p b creds =
     bind_outcome (ok_or creds (E ''BACnet/SC requires gateway_credentials (CA bundle + cert + key)'' [])) (\<lambda>c.
     if bsc_object_type b \<noteq> ''analog_input'' then
       Err (E ''Tier 1 BACnet/SC only supports analog_input object_type'' [S (bsc_object_type b)])
     else if bsc_property_id b \<noteq> ''present_value'' then
       Err (E ''Tier 1 BACnet/SC only supports present_value property_id'' [S (bsc_property_id b)])
     else bind_outcome (parse_vmac (bsc_device_vmac b)) (\<lambda>dest_vmac.
       bind_outcome (p_bacnet_sc p c (bsc_hub_url b) dest_vmac (bsc_object_instance b)) coerce_to_f64))"

section \<open>Any protocol\<close>

definition number_act :: "f64x outcome \<Rightarrow> raw act" where
  "number_act x = lift_act (bind_outcome x (\<lambda>v. Ok (Number v)))"

text \<open>\<^verbatim>\<open>read::read_value\<close>; the bindings that are no measurement source are \<^verbatim>\<open>unreachable!\<close>.\<close>

definition read_value :: "world \<Rightarrow> peers \<Rightarrow> protocol_binding \<Rightarrow> device_trust option \<Rightarrow> gateway_credentials option \<Rightarrow> raw act" where
  "read_value w p binding trust creds = (case binding of
     ModbusTcp b \<Rightarrow> number_act (read_measurement w b trust creds)
   | Snmp b \<Rightarrow> number_act (bind_outcome (read_measurement_snmp p b trust) (\<lambda>v. Ok (Fin v)))
   | Redfish b \<Rightarrow> lift_act (read_measurement_redfish w p b trust creds)
   | Dnp3Tcp b \<Rightarrow> number_act (read_measurement_dnp3 p b trust creds)
   | BacnetIp b \<Rightarrow> number_act (read_measurement_bacnet p b)
   | BacnetSc b \<Rightarrow> number_act (read_measurement_bacnet_sc p b creds)
   | Sunspec b \<Rightarrow> bind_act (lift_act (open_channel w (ss_host b) (ss_port b) trust creds)) (\<lambda>ch.
       bind_act (read_on_sunspec w ch b) (\<lambda>v. lift_act (Ok (Number v))))
   | Synthetic _ \<Rightarrow> lift_act (Abort Panicked)
   | Distribute _ \<Rightarrow> lift_act (Abort Panicked)
   | PowerCap _ \<Rightarrow> lift_act (Abort Panicked))"

section \<open>A Redfish write and its read\<close>

lemma nest_foldr: "nest ptr v = foldr (\<lambda>token inner. JObj [(unescape_token token, inner)]) (drop 1 (split_on (CHR ''/'') ptr)) v"
  by (simp add: nest_def foldl_conv_foldr)

lemma json_steps_foldr:
  "foldl json_step (Some (foldr (\<lambda>token inner. JObj [(unescape_token token, inner)]) tokens v)) (map unescape_token tokens) = Some v"
  by (induction tokens) simp_all

text \<open>Pointers RFC 6901 allows: empty, or starting with a slash.\<close>

definition pointer_ok :: "string \<Rightarrow> bool" where
  "pointer_ok ptr \<longleftrightarrow> ptr = [] \<or> hd ptr = CHR ''/''"

lemma json_pointer_nest: "pointer_ok ptr \<Longrightarrow> json_pointer (nest ptr v) ptr = Some v"
  by (auto simp: json_pointer_def pointer_ok_def nest_foldr json_steps_foldr)

lemma write_setpoint_redfish_sent:
  assumes "write_setpoint_redfish w b value trust creds s = (Ok (), t)" and "rf_json_pointer b = Some ptr"
  shows "\<exists>scheme. http_client w trust creds = Ok scheme \<and> sent t = sent s @ [HttpPatch scheme (rf_host b) (rf_port b) (rf_uri b)
    (nest ptr (json_number (Fin value / Fin (rf_scale b))))]"
proof (cases "http_client w trust creds")
  case (Ok scheme)
  with assms show ?thesis
    by (auto simp: write_setpoint_redfish_def bind_act_def lift_act_def Let_def simp del: divide_f64x.simps)
qed (use assms in \<open>simp_all add: write_setpoint_redfish_def bind_act_def lift_act_def\<close>)

text \<open>A resource holds what a PATCH body says at a pointer.\<close>

definition holds_patch :: "json \<Rightarrow> string \<Rightarrow> south_write \<Rightarrow> bool" where
  "holds_patch resource ptr x = (case x of
     HttpPatch scheme host port uri body \<Rightarrow> json_pointer resource ptr = json_pointer body ptr
   | RegisterWrite _ _ _ _ _ \<Rightarrow> False)"


text \<open>
  Two shapes of pointer the write and the read disagree on. Without its leading slash the write
  drops the first token and the read misses; through an array the write builds an object.
\<close>

lemma nest_without_slash: "nest ''A/B'' v = JObj [(''B'', v)] \<and> json_pointer j ''A/B'' = None"
  by (simp add: nest_def json_pointer_def unescape_token_def)

lemma nest_through_array:
  "nest ''/Limits/0'' v = JObj [(''Limits'', JObj [(''0'', v)])] \<and>
   json_pointer (JObj [(''Limits'', JArr [v])]) ''/Limits/0'' = Some v"
  by (simp add: nest_def json_pointer_def unescape_token_def parse_index_def digit_value_def)

definition ex_redfish :: redfish_binding where
  "ex_redfish = \<lparr>rf_host = ''bmc'', rf_port = 443, rf_uri = ''/Chassis/1'', rf_json_pointer = Some ''/Power/Limit'', rf_scale = 10\<rparr>"

definition ex_peers :: peers where
  "ex_peers = \<lparr>p_get = (\<lambda>_ _ _ _ k. if k < 1 then GetFailed else GetStatus 200 (Some (JObj [(''Power'', JObj [(''Limit'', JNum 25)])]))),
     p_oid = (\<lambda>_. True), p_v2c = (\<lambda>_ _ _ _ _. Ok [SnmpInteger 7]), p_v3 = (\<lambda>_ _ _ _ _. Ok [SnmpInteger 7]), p_env = Map.empty,
     p_dnp_tls = (\<lambda>_ _. True), p_dnp_open = (\<lambda>_ _ _ _. Ok ()), p_dnp_read = (\<lambda>_ _ _ _ _ _. Ok []),
     p_bacnet_request = (\<lambda>_. Ok []), p_npdu = [], p_npdu_decode = (\<lambda>_. Ok 0), p_apdu_decode = (\<lambda>_. Ok OtherApdu),
     p_property_decode = (\<lambda>_. Ok []), p_bacnet_exchange = (\<lambda>_ _ _ _. Ok []), p_bacnet_sc = (\<lambda>_ _ _ _. Ok PvOther)\<rparr>"


section \<open>What a reading of a device with mutual TLS depends on\<close>

text \<open>
  Two surroundings of the gateway that may differ in everything an unauthenticated peer says,
  but not in the local certificate files and not in what is answered over mutual TLS.
\<close>

definition same_secured :: "world \<Rightarrow> peers \<Rightarrow> world \<Rightarrow> peers \<Rightarrow> bool" where
  "same_secured w p w' p' \<longleftrightarrow>
     w_tls w' = w_tls w \<and> w_https w' = w_https w \<and> w_range w' = w_range w \<and> p_dnp_tls p' = p_dnp_tls p \<and>
     (\<forall>host port name creds.
        w_enable w' (TlsChannel host port name creds) = w_enable w (TlsChannel host port name creds) \<and>
        w_read w' (TlsChannel host port name creds) = w_read w (TlsChannel host port name creds)) \<and>
     (\<forall>creds. p_get p' (Https creds) = p_get p (Https creds)) \<and>
     (\<forall>ep name creds.
        p_dnp_open p' (DnpTls ep name creds) = p_dnp_open p (DnpTls ep name creds) \<and>
        p_dnp_read p' (DnpTls ep name creds) = p_dnp_read p (DnpTls ep name creds))"

text \<open>Everything read over a Modbus session goes through \<^verbatim>\<open>read_registers\<close>.\<close>

definition same_reads :: "world \<Rightarrow> world \<Rightarrow> channel \<Rightarrow> bool" where
  "same_reads w w' ch \<longleftrightarrow> read_registers w' ch = read_registers w ch"

lemma same_secured_reads: "same_secured w p w' p' \<Longrightarrow> same_reads w w' (TlsChannel host port name creds)"
  unfolding same_secured_def same_reads_def read_registers_def by (intro ext) simp

lemma read_on_cong:
  assumes "same_reads w w' ch"
  shows "read_on w' ch b = read_on w ch b"
  unfolding read_on_def assms [unfolded same_reads_def] ..

lemma walk_loop_cong:
  assumes "same_reads w w' ch"
  shows "walk_loop w' ch u n addr models = walk_loop w ch u n addr models"
proof (induction n arbitrary: addr models)
  case (Suc n)
  show ?case unfolding walk_loop.simps assms [unfolded same_reads_def] Suc ..
qed simp

lemma discover_from_cong:
  assumes "same_reads w w' ch"
  shows "discover_from w' ch u bases = discover_from w ch u bases"
proof (induction bases)
  case (Cons base bases)
  show ?case
    unfolding discover_from.simps walk_def walk_loop_cong [OF assms] assms [unfolded same_reads_def] Cons ..
qed simp

lemma models_of_cong:
  assumes "same_reads w w' ch"
  shows "models_of w' ch key = models_of w ch key"
  unfolding models_of_def discover_def discover_from_cong [OF assms] ..

lemma read_point_cong:
  assumes "same_reads w w' ch"
  shows "read_point w' ch key b d = read_point w ch key b d"
  unfolding read_point_def models_of_cong [OF assms] read_registers_of_def assms [unfolded same_reads_def] ..

lemma read_on_sunspec_cong:
  assumes "same_reads w w' ch"
  shows "read_on_sunspec w' ch b = read_on_sunspec w ch b"
  unfolding read_on_sunspec_def read_point_cong [OF assms] ..

text \<open>The protocols that have a variant with mutual TLS.\<close>

fun tls_capable :: "protocol_binding \<Rightarrow> bool" where
  "tls_capable (ModbusTcp b) = True"
| "tls_capable (Sunspec b) = True"
| "tls_capable (Redfish b) = True"
| "tls_capable (Dnp3Tcp b) = True"
| "tls_capable b = False"

lemma open_tls_cong:
  assumes "same_secured w p w' p'"
  shows "open_channel w' host port (Some (TlsMutual name)) (Some creds) = open_channel w host port (Some (TlsMutual name)) (Some creds)"
  using assms by (simp add: open_channel_def same_secured_def)

text \<open>
  A reading of a device that requires mutual TLS is never influenced by anything an
  unauthenticated peer says: with Modbus, SunSpec, Redfish and DNP3, in any two surroundings that
  answer alike over mutual TLS the read has the same result and leaves the same state, however
  they differ on plain connections.
\<close>

lemma read_value_secured:
  assumes "same_secured w p w' p'" and "tls_capable binding"
  shows "read_value w' p' binding (Some (TlsMutual name)) (Some creds) s =
    read_value w p binding (Some (TlsMutual name)) (Some creds) s"
proof (cases binding)
  case (ModbusTcp b)
  show ?thesis
    using open_tls_cong [OF assms(1)]
    by (simp add: ModbusTcp read_value_def read_measurement_def)
      (simp add: open_channel_def read_on_cong [OF same_secured_reads [OF assms(1)]])
next
  case (Sunspec b)
  show ?thesis
    using open_tls_cong [OF assms(1)]
    by (simp add: Sunspec read_value_def)
      (simp add: open_channel_def read_on_sunspec_cong [OF same_secured_reads [OF assms(1)]] bind_act_def lift_act_def)
next
  case (Redfish b)
  show ?thesis
    using assms(1)
    by (simp add: Redfish read_value_def read_measurement_redfish_def fetch_resource_def http_client_def same_secured_def)
next
  case (Dnp3Tcp b)
  have "try_read_tls p' ep b kind name creds = try_read_tls p ep b kind name creds" for ep kind
    using assms(1) by (simp add: fun_eq_iff try_read_tls_def read_with_channel_def same_secured_def)
  then show ?thesis by (simp add: Dnp3Tcp read_value_def read_measurement_dnp3_def Let_def)
qed (use assms(2) in simp_all)

section \<open>Frames and addresses\<close>

text \<open>A BACnet/IP frame says its own length, and unwraps to what was wrapped.\<close>

lemma wrap_bvlc_length_field:
  assumes "length (wrap_bvlc p bs) < 65536"
  shows "push_bit 8 (ucast (wrap_bvlc p bs ! 2)) OR ucast (wrap_bvlc p bs ! 3) = (of_nat (length (wrap_bvlc p bs)) :: u16)"
proof -
  have "push_bit 8 (ucast (ucast (drop_bit 8 v) :: u8)) OR ucast (ucast (v AND 0xFF) :: u8) = v" for v :: u16
  proof -
    have ff: "bit (255 :: int) n \<longleftrightarrow> n < 8" for n
    proof -
      have "bit (mask 8 :: int) n \<longleftrightarrow> n < 8" by (auto simp: bit_mask_iff)
      then show ?thesis by (simp add: mask_eq_exp_minus_1)
    qed
    show ?thesis
      by (rule bit_word_eqI) (auto simp: ff bit_and_iff bit_or_iff bit_push_bit_iff bit_unsigned_iff bit_drop_bit_eq)
  qed
  then show ?thesis by (simp add: wrap_bvlc_def Let_def)
qed

lemma parse_wrapped:
  assumes "p_npdu_decode p (p_npdu p @ bs) = Ok (length (p_npdu p))"
    and "p_apdu_decode p bs = Ok (ReadPropertyAck data)" and "p_property_decode p data = Ok values"
  shows "parse_response p (wrap_bvlc p bs) = ok_or (find_map numeric_property values) (E ''no numeric value in response'' [])"
proof -
  obtain a b where w: "wrap_bvlc p bs = 0x81 # 0x0A # a # b # p_npdu p @ bs"
    by (simp add: wrap_bvlc_def Let_def)
  then show ?thesis using assms by (simp add: parse_response_def numeral_eq_Suc)
qed

text \<open>A VMAC parses exactly when it has twelve hexadecimal digits, to six bytes.\<close>

lemma length_hex_bytes: "length ds = 2 * n \<Longrightarrow> length (hex_bytes ds) = n"
proof (induction n arbitrary: ds)
  case (Suc n)
  then obtain a b rest where "ds = a # b # rest" "length rest = 2 * n"
    by (metis length_Suc_conv mult_Suc_right add_2_eq_Suc)
  with Suc.IH show ?case by simp
qed simp

lemma parse_vmac_Ok:
  "parse_vmac s = Ok bs \<longleftrightarrow> length (List.map_filter hex_value s) = 12 \<and> bs = hex_bytes (List.map_filter hex_value s)"
  by (auto simp: parse_vmac_def Let_def)

lemma parse_vmac_six: "parse_vmac s = Ok bs \<Longrightarrow> length bs = 6"
  by (auto simp: parse_vmac_Ok intro: length_hex_bytes)

end
