(* ===== verification/Poller.thy ===== *)
theory Poller
  imports South_Reads Synthetic "HOL-Library.Sublist"
begin

text \<open>
  The device pollers: shaping a reading into the payload its schema declares (\<^verbatim>\<open>payload.rs\<close>),
  one pass over the readings that are due (\<^verbatim>\<open>poller.rs\<close>), and how a device's readings are built
  from the spec (\<^verbatim>\<open>app::spawn_task_set\<close>). The JSON-schema validator is a parameter.
\<close>

section \<open>Payloads\<close>

datatype kind = KNumber | KBoolean | KLabel

text \<open>
  \<open>schema_compiles\<close> and \<open>schema_accepts\<close> stand for the \<^verbatim>\<open>jsonschema\<close> crate: whether a schema
  compiles, and whether the compiled schema accepts a value.
\<close>

record validator =
  schema_compiles :: "json \<Rightarrow> bool"
  schema_accepts :: "json \<Rightarrow> json \<Rightarrow> bool"

record payload =
  pl_kind :: kind
  pl_schema :: json

definition kind_of :: "string option \<Rightarrow> kind outcome" where
  "kind_of t =
     (if t = Some ''number'' \<or> t = Some ''integer'' then Ok KNumber
      else if t = Some ''boolean'' then Ok KBoolean
      else if t = Some ''string'' then Ok KLabel
      else Err (E ''measurement schema has no number/boolean/string value'' []))"

definition compile_payload :: "validator \<Rightarrow> json \<Rightarrow> payload outcome" where
  "compile_payload v schema =
     bind_outcome (kind_of (Option.bind (json_pointer schema ''/properties/value/type'') as_str)) (\<lambda>kind.
     if schema_compiles v schema then Ok \<lparr>pl_kind = kind, pl_schema = schema\<rparr>
     else Err (E ''invalid measurement schema'' []))"

text \<open>
  The key a raw reading has in the value map. A whole number prints as the integer
  \<^verbatim>\<open>*n as i64\<close>, which saturates; how another number prints is left to \<open>show_float\<close>.
\<close>

definition show_int :: "int \<Rightarrow> string" where
  "show_int i = (if i < 0 then CHR ''-'' # show_nat (nat (- i)) else show_nat (nat i))"

definition as_i64 :: "f64 \<Rightarrow> int" where
  "as_i64 x = max (- 9223372036854775808) (min 9223372036854775807 (if x < 0 then - \<lfloor>- x\<rfloor> else \<lfloor>x\<rfloor>))"

definition raw_key :: "(f64x \<Rightarrow> string) \<Rightarrow> raw \<Rightarrow> string" where
  "raw_key show_float r = (case r of
     Text text \<Rightarrow> text
   | Number n \<Rightarrow> (case n of
       Fin x \<Rightarrow> if x = of_int \<lfloor>x\<rfloor> then show_int (as_i64 x) else show_float n
     | _ \<Rightarrow> show_float n))"

definition shape :: "(f64x \<Rightarrow> string) \<Rightarrow> kind \<Rightarrow> (string \<rightharpoonup> string) option \<Rightarrow> raw \<Rightarrow> json outcome" where
  "shape show_float k value_map r = (case (k, r) of
     (KNumber, Number n) \<Rightarrow> Ok (json_number n)
   | (KBoolean, Number n) \<Rightarrow> Ok (JBool (n \<noteq> Fin 0))
   | (KLabel, _) \<Rightarrow>
       bind_outcome (ok_or (Option.bind value_map (\<lambda>m. m (raw_key show_float r)))
         (E ''reading has no label in the value_map'' [S (raw_key show_float r)])) (\<lambda>label. Ok (JStr label))
   | _ \<Rightarrow> Err (E ''a reading can't be this kind of measurement'' []))"

definition sample_of :: "string \<Rightarrow> json \<Rightarrow> json" where
  "sample_of ts value = JObj [(''ts'', JStr ts), (''value'', value)]"

definition sample :: "validator \<Rightarrow> (f64x \<Rightarrow> string) \<Rightarrow> payload \<Rightarrow> raw \<Rightarrow> (string \<rightharpoonup> string) option \<Rightarrow> string \<Rightarrow> json outcome" where
  "sample v show_float pl r value_map ts = bind_outcome (shape show_float (pl_kind pl) value_map r) (\<lambda>value.
     if schema_accepts v (pl_schema pl) (sample_of ts value) then Ok (sample_of ts value)
     else Err (E ''doesn't fit its schema'' []))"

definition strip_prefix :: "string \<Rightarrow> string \<Rightarrow> string option" where
  "strip_prefix pre s = (if take (length pre) s = pre then Some (drop (length pre) s) else None)"

definition resolve_payload :: "validator \<Rightarrow> json \<Rightarrow> (string \<times> json) list \<Rightarrow> payload outcome" where
  "resolve_payload v reference schemas =
     bind_outcome (ok_or (Option.bind (json_get reference ''$ref'') as_str) (E ''payload is not a $ref'' [])) (\<lambda>target.
     bind_outcome (ok_or (strip_prefix ''#/components/schemas/'' target)
       (E ''payload $ref is not into components.schemas'' [S target])) (\<lambda>name.
     bind_outcome (ok_or (map_of schemas name) (E ''payload $ref names no schema in the spec'' [S target])) (\<lambda>schema.
       compile_payload v schema)))"

section \<open>Readings of a device\<close>

record point_cfg =
  pt_topic :: string
  pt_binding :: protocol_binding
  pt_period :: duration
  pt_payload :: "payload option"
  pt_value_map :: "(string \<rightharpoonup> string) option"

definition build_topic :: "string \<Rightarrow> string \<Rightarrow> string \<Rightarrow> string \<Rightarrow> string" where
  "build_topic site_id device_id measurement unit =
     ''sites/'' @ site_id @ ''/devices/'' @ device_id @ ''/measurements/'' @ measurement @ ''/'' @ unit"

text \<open>A schema that does not compile falls back to number publishing.\<close>

definition build_point :: "validator \<Rightarrow> asyncapi_spec \<Rightarrow> string \<Rightarrow> string \<Rightarrow> string \<Rightarrow> protocol_source \<Rightarrow> point_cfg outcome" where
  "build_point v spec site_id device_id measurement source =
     bind_outcome (from_secs_f64 (1 / clamp_poll_rate (ps_poll_rate_hz source))) (\<lambda>period.
       Ok \<lparr>pt_topic = build_topic site_id device_id measurement (ps_unit source), pt_binding = ps_binding source,
           pt_period = period,
           pt_payload = Option.bind (ps_payload source) (\<lambda>reference.
             case resolve_payload v reference (x_schemas spec) of Ok pl \<Rightarrow> Some pl | _ \<Rightarrow> None),
           pt_value_map = ps_value_map source\<rparr>)"

fun is_synthetic :: "protocol_binding \<Rightarrow> bool" where
  "is_synthetic (Synthetic b) = True"
| "is_synthetic b = False"

definition device_points :: "validator \<Rightarrow> asyncapi_spec \<Rightarrow> string \<Rightarrow> string \<Rightarrow> (string \<times> protocol_source) list \<Rightarrow> point_cfg list outcome" where
  "device_points v spec site_id device_id channels =
     collect_outcome (map (\<lambda>(measurement, source). build_point v spec site_id device_id measurement source)
       (filter (\<lambda>(_, source). \<not> is_synthetic (ps_binding source)) channels))"

section \<open>Polling\<close>

definition due :: "instant list \<Rightarrow> instant \<Rightarrow> nat list" where
  "due next now = filter (\<lambda>i. next ! i \<le> now) [0..<length next]"

definition advance :: "instant \<Rightarrow> duration \<Rightarrow> instant \<Rightarrow> instant" where
  "advance due_at period now =
     (let on_schedule = due_at + period in if on_schedule \<le> now then now + period else on_schedule)"

text \<open>
  The state of a poller. \<open>po_fetched\<close> lives for one pass; \<open>po_gets\<close> and \<open>po_published\<close> record the
  GETs that were sent and the messages that were published.
\<close>

record poll_state =
  po_next :: "instant list"
  po_sessions :: "string \<rightharpoonup> channel"
  po_fetched :: "string \<rightharpoonup> json outcome"
  po_south :: south
  po_gets :: "string list"
  po_published :: "(string \<times> json) list"

text \<open>
  The surroundings of one pass: the protocol stacks, the validator, whether the broker takes a
  message, the time stamps and the clock (\<open>e_now i\<close> when reading \<open>i\<close> has been dealt with).
\<close>

record poll_env =
  e_world :: world
  e_peers :: peers
  e_validator :: validator
  e_show :: "f64x \<Rightarrow> string"
  e_publishes :: "string \<times> json \<Rightarrow> bool"
  e_ts :: "nat \<Rightarrow> string"
  e_now :: "nat \<Rightarrow> instant"

definition resource_key :: "redfish_binding \<Rightarrow> string" where
  "resource_key b = endpoint_of (rf_host b) (rf_port b) @ rf_uri b"

definition read_shared :: "poll_env \<Rightarrow> redfish_binding \<Rightarrow> device_trust option \<Rightarrow> gateway_credentials option \<Rightarrow> poll_state \<Rightarrow> raw outcome \<times> poll_state" where
  "read_shared e b trust creds st =
     (let key = resource_key b;
          st' = (if po_fetched st key \<noteq> None then st
                 else st\<lparr>po_fetched := (po_fetched st)(key \<mapsto> fetch_resource (e_world e) (e_peers e) b trust creds),
                         po_gets := po_gets st @ [key]\<rparr>) in
      (bind_outcome (the (po_fetched st' key)) (\<lambda>body. extract_reading body b), st'))"

text \<open>A Modbus or SunSpec reading goes over the device's session; without one there is no read.\<close>

definition poll_session :: "poll_env \<Rightarrow> string \<Rightarrow> u16 \<Rightarrow> device_trust option \<Rightarrow> gateway_credentials option \<Rightarrow> poll_state \<Rightarrow> channel outcome \<times> poll_state" where
  "poll_session e host port trust creds st =
     (let key = endpoint_of host port in
      case po_sessions st key of
        Some ch \<Rightarrow> (Ok ch, st)
      | None \<Rightarrow> (case open_channel (e_world e) host port trust creds of
          Ok ch \<Rightarrow> (Ok ch, st\<lparr>po_sessions := (po_sessions st)(key \<mapsto> ch)\<rparr>)
        | Err x \<Rightarrow> (Err x, st)
        | Abort a \<Rightarrow> (Abort a, st)))"

definition on_south :: "'a act \<Rightarrow> poll_state \<Rightarrow> 'a outcome \<times> poll_state" where
  "on_south m st = (case m (po_south st) of (r, s) \<Rightarrow> (r, st\<lparr>po_south := s\<rparr>))"

definition read_one :: "poll_env \<Rightarrow> protocol_binding \<Rightarrow> device_trust option \<Rightarrow> gateway_credentials option \<Rightarrow> poll_state \<Rightarrow> raw outcome \<times> poll_state" where
  "read_one e binding trust creds st = (case binding of
     Redfish b \<Rightarrow> read_shared e b trust creds st
   | ModbusTcp b \<Rightarrow> (case poll_session e (mb_host b) (mb_port b) trust creds st of
       (Ok ch, st') \<Rightarrow> on_south (number_act (read_on (e_world e) ch b)) st'
     | (Err x, st') \<Rightarrow> (Err x, st')
     | (Abort a, st') \<Rightarrow> (Abort a, st'))
   | Sunspec b \<Rightarrow> (case poll_session e (ss_host b) (ss_port b) trust creds st of
       (Ok ch, st') \<Rightarrow> on_south (bind_act (read_on_sunspec (e_world e) ch b) (\<lambda>v. lift_act (Ok (Number v)))) st'
     | (Err x, st') \<Rightarrow> (Err x, st')
     | (Abort a, st') \<Rightarrow> (Abort a, st'))
   | other \<Rightarrow> on_south (read_value (e_world e) (e_peers e) other trust creds) st)"

text \<open>\<^verbatim>\<open>publish\<close>: the message of a reading, if it has one.\<close>

definition message :: "poll_env \<Rightarrow> nat \<Rightarrow> point_cfg \<Rightarrow> raw \<Rightarrow> json outcome" where
  "message e i pt r = (case (pt_payload pt, r) of
     (Some pl, _) \<Rightarrow> sample (e_validator e) (e_show e) pl r (pt_value_map pt) (e_ts e i)
   | (None, Number n) \<Rightarrow> Ok (sample_of (e_ts e i) (json_number n))
   | (None, Text text) \<Rightarrow> Err (E ''text reading has no payload schema'' [S text]))"

definition publish_reading :: "poll_env \<Rightarrow> nat \<Rightarrow> point_cfg \<Rightarrow> raw \<Rightarrow> poll_state \<Rightarrow> poll_state" where
  "publish_reading e i pt r st = (case message e i pt r of
     Ok msg \<Rightarrow> if e_publishes e (pt_topic pt, msg) then st\<lparr>po_published := po_published st @ [(pt_topic pt, msg)]\<rparr> else st
   | _ \<Rightarrow> st)"

text \<open>One reading of a pass: read, publish, reschedule. A failed read is skipped; only a panic ends the poller.\<close>

definition poll_one :: "poll_env \<Rightarrow> point_cfg list \<Rightarrow> device_trust option \<Rightarrow> gateway_credentials option \<Rightarrow> nat \<Rightarrow> poll_state \<Rightarrow> poll_state outcome" where
  "poll_one e points trust creds i st =
     (let pt = points ! i in
      case read_one e (pt_binding pt) trust creds st of
        (Abort a, st') \<Rightarrow> Abort a
      | (r, st') \<Rightarrow>
          (let st'' = (case r of Ok raw \<Rightarrow> publish_reading e i pt raw st' | _ \<Rightarrow> st') in
           Ok (st''\<lparr>po_next := (po_next st'')[i := advance (po_next st'' ! i) (pt_period pt) (e_now e i)]\<rparr>)))"

fun poll_all :: "poll_env \<Rightarrow> point_cfg list \<Rightarrow> device_trust option \<Rightarrow> gateway_credentials option \<Rightarrow> nat list \<Rightarrow> poll_state \<Rightarrow> poll_state outcome" where
  "poll_all e points trust creds [] st = Ok st"
| "poll_all e points trust creds (i # is) st =
     bind_outcome (poll_one e points trust creds i st) (poll_all e points trust creds is)"

definition poll_due :: "poll_env \<Rightarrow> point_cfg list \<Rightarrow> device_trust option \<Rightarrow> gateway_credentials option \<Rightarrow> instant \<Rightarrow> poll_state \<Rightarrow> poll_state outcome" where
  "poll_due e points trust creds now st =
     poll_all e points trust creds (due (po_next st) now) (st\<lparr>po_fetched := Map.empty, po_gets := []\<rparr>)"

definition wake :: "instant list \<Rightarrow> instant \<Rightarrow> instant" where
  "wake next now = (if next = [] then now else Min (set next))"

section \<open>The schedule\<close>

lemma read_one_frame:
  assumes "read_one e binding trust creds st = (r, st')"
  shows "po_next st' = po_next st" and "po_published st' = po_published st"
  using assms
  by (auto simp: read_one_def read_shared_def poll_session_def on_south_def Let_def
      split: protocol_binding.splits prod.splits outcome.splits option.splits if_splits)

lemma publish_reading_next [simp]: "po_next (publish_reading e i pt r st) = po_next st"
  by (auto simp: publish_reading_def split: outcome.splits)

lemma poll_one_next:
  assumes "poll_one e points trust creds i st = Ok st'"
  shows "po_next st' = (po_next st)[i := advance (po_next st ! i) (pt_period (points ! i)) (e_now e i)]"
proof -
  obtain r st1 where r: "read_one e (pt_binding (points ! i)) trust creds st = (r, st1)" by fastforce
  with read_one_frame(1) [OF r] assms show ?thesis
    by (cases r) (auto simp: poll_one_def Let_def)
qed

lemma poll_all_next:
  assumes "poll_all e points trust creds is st = Ok st'" and "distinct is"
  shows "length (po_next st') = length (po_next st)"
    and "i < length (po_next st) \<Longrightarrow> po_next st' ! i =
      (if i \<in> set is then advance (po_next st ! i) (pt_period (points ! i)) (e_now e i) else po_next st ! i)"
proof -
  have "length (po_next st') = length (po_next st) \<and> (\<forall>i < length (po_next st). po_next st' ! i =
      (if i \<in> set is then advance (po_next st ! i) (pt_period (points ! i)) (e_now e i) else po_next st ! i))"
    using assms
  proof (induction "is" arbitrary: st)
    case (Cons j js)
    from Cons.prems obtain st1 where
      one: "poll_one e points trust creds j st = Ok st1" and all: "poll_all e points trust creds js st1 = Ok st'" by auto
    from Cons.prems have j: "j \<notin> set js" "distinct js" by auto
    show ?case
      using Cons.IH [OF all j(2)] poll_one_next [OF one] j(1)
      by (auto simp: nth_list_update) (metis nth_list_update_neq)+
  qed simp
  then show "length (po_next st') = length (po_next st)"
    "i < length (po_next st) \<Longrightarrow> po_next st' ! i =
      (if i \<in> set is then advance (po_next st ! i) (pt_period (points ! i)) (e_now e i) else po_next st ! i)"
    by blast+
qed

lemma distinct_due [simp]: "distinct (due next now)"
  by (simp add: due_def)

lemma set_due: "i \<in> set (due next now) \<longleftrightarrow> i < length next \<and> next ! i \<le> now"
  by (auto simp: due_def)

lemma poll_due_next:
  assumes "poll_due e points trust creds now st = Ok st'"
  shows "length (po_next st') = length (po_next st)"
    and "i < length (po_next st) \<Longrightarrow> po_next st' ! i =
      (if po_next st ! i \<le> now then advance (po_next st ! i) (pt_period (points ! i)) (e_now e i) else po_next st ! i)"
  using poll_all_next [OF assms [unfolded poll_due_def]] by (simp_all add: set_due)

lemma advance_bounds:
  assumes "0 < period"
  shows "due_at + period \<le> advance due_at period now" and "now < advance due_at period now"
    and "advance due_at period now \<le> max due_at now + period"
  using assms by (auto simp: advance_def Let_def)

text \<open>
  A run of passes and the instants of those that read one reading. The clock, the devices and the
  broker may do anything in between.
\<close>

inductive polling :: "point_cfg list \<Rightarrow> device_trust option \<Rightarrow> gateway_credentials option \<Rightarrow> nat \<Rightarrow> poll_state \<Rightarrow> instant list \<Rightarrow> poll_state \<Rightarrow> bool"
  for points trust creds i st\<^sub>0 where
  start: "polling points trust creds i st\<^sub>0 [] st\<^sub>0"
| pass: "polling points trust creds i st\<^sub>0 ts st \<Longrightarrow> poll_due e points trust creds now st = Ok st' \<Longrightarrow>
    polling points trust creds i st\<^sub>0 (if po_next st ! i \<le> now then ts @ [now] else ts) st'"

text \<open>
  (C39) However late, slow or failing a device is, no reading is polled faster than its rate and none
  is made up for in a burst: over any run of passes the j-th poll of a reading does not come before
  j periods after its first due time, and after each pass a reading that was due is next due in the
  future of its own poll, at most one period later.
\<close>

theorem poll_rate_bounded:
  assumes "polling points trust creds i st\<^sub>0 ts st" and "i < length (po_next st\<^sub>0)" and "0 < pt_period (points ! i)"
  shows "(\<forall>j < length ts. po_next st\<^sub>0 ! i + j * pt_period (points ! i) \<le> ts ! j) \<and>
    (\<forall>e now st'. poll_due e points trust creds now st = Ok st' \<and> po_next st ! i \<le> now \<longrightarrow>
       e_now e i < po_next st' ! i \<and> po_next st' ! i \<le> max (po_next st ! i) (e_now e i) + pt_period (points ! i))"
proof -
  have inv: "(\<forall>j < length ts. po_next st\<^sub>0 ! i + j * pt_period (points ! i) \<le> ts ! j) \<and>
      po_next st\<^sub>0 ! i + length ts * pt_period (points ! i) \<le> po_next st ! i \<and> length (po_next st) = length (po_next st\<^sub>0)"
    using assms(1)
  proof induction
    case (pass ts st e now st')
    note next' = poll_due_next [OF pass.hyps(2)]
    have i: "i < length (po_next st)" using pass.IH assms(2) by simp
    show ?case
    proof (cases "po_next st ! i \<le> now")
      case True
      have "po_next st ! i + pt_period (points ! i) \<le> po_next st' ! i"
        using next'(2) [OF i] True advance_bounds(1) [OF assms(3)] by simp
      with True pass.IH next'(1) show ?thesis by (auto simp: nth_append less_Suc_eq)
    next
      case False
      with pass.IH next' i show ?thesis by simp
    qed
  qed simp
  with poll_due_next(2) [of _ points trust creds _ st _ i] advance_bounds(2,3) [OF assms(3)] assms(2) show ?thesis
    by auto
qed

section \<open>One fetch per resource\<close>

definition redfish_keys :: "point_cfg list \<Rightarrow> nat list \<Rightarrow> string set" where
  "redfish_keys points is = {resource_key b | b i. i \<in> set is \<and> pt_binding (points ! i) = Redfish b}"

definition gets_ok :: "poll_state \<Rightarrow> bool" where
  "gets_ok st \<longleftrightarrow> distinct (po_gets st) \<and> set (po_gets st) = dom (po_fetched st)"

lemma publish_reading_gets [simp]:
  "po_gets (publish_reading e i pt r st) = po_gets st" "po_fetched (publish_reading e i pt r st) = po_fetched st"
  by (auto simp: publish_reading_def split: outcome.splits)

lemma read_one_gets:
  assumes "read_one e binding trust creds st = (r, st')" and "gets_ok st"
  shows "gets_ok st' \<and> set (po_gets st') = set (po_gets st) \<union> {resource_key b | b. binding = Redfish b}"
  using assms
  by (auto simp: gets_ok_def read_one_def read_shared_def poll_session_def on_south_def Let_def
      split: protocol_binding.splits prod.splits outcome.splits option.splits if_splits)

lemma poll_all_gets:
  assumes "poll_all e points trust creds is st = Ok st'" and "gets_ok st"
  shows "gets_ok st' \<and> set (po_gets st') = set (po_gets st) \<union> redfish_keys points is"
  using assms
proof (induction "is" arbitrary: st)
  case Nil
  then show ?case by (simp add: redfish_keys_def)
next
  case (Cons i js)
  from Cons.prems obtain st1 where
    one: "poll_one e points trust creds i st = Ok st1" and all: "poll_all e points trust creds js st1 = Ok st'" by auto
  obtain r st2 where r: "read_one e (pt_binding (points ! i)) trust creds st = (r, st2)" by fastforce
  with one have "po_gets st1 = po_gets st2" "po_fetched st1 = po_fetched st2"
    by (cases r; auto simp: poll_one_def Let_def)+
  with read_one_gets [OF r Cons.prems(2)]
  have st1: "gets_ok st1" "set (po_gets st1) = set (po_gets st) \<union> {resource_key b | b. pt_binding (points ! i) = Redfish b}"
    by (auto simp: gets_ok_def)
  have "redfish_keys points (i # js) = {resource_key b | b. pt_binding (points ! i) = Redfish b} \<union> redfish_keys points js"
    by (auto simp: redfish_keys_def)
  with Cons.IH [OF all st1(1)] st1(2) show ?case by (simp add: Un_assoc)
qed

text \<open>Readings that share a Redfish resource share one GET, and no other resource is fetched.\<close>

lemma poll_due_gets:
  assumes "poll_due e points trust creds now st = Ok st'"
  shows "distinct (po_gets st') \<and> set (po_gets st') = redfish_keys points (due (po_next st) now)"
  using poll_all_gets [OF assms [unfolded poll_due_def]] by (auto simp: gets_ok_def)

section \<open>What is published\<close>

fun of_kind :: "kind \<Rightarrow> (string \<rightharpoonup> string) option \<Rightarrow> json \<Rightarrow> bool" where
  "of_kind KNumber vm v = (\<exists>n. v = json_number n)"
| "of_kind KBoolean vm v = (\<exists>b. v = JBool b)"
| "of_kind KLabel vm v = (\<exists>m key label. vm = Some m \<and> m key = Some label \<and> v = JStr label)"

definition fits_point :: "poll_env \<Rightarrow> point_cfg \<Rightarrow> json \<Rightarrow> bool" where
  "fits_point e pt msg \<longleftrightarrow> (\<exists>ts value. msg = sample_of ts value \<and>
     (case pt_payload pt of
        None \<Rightarrow> (\<exists>n. value = json_number n)
      | Some pl \<Rightarrow> of_kind (pl_kind pl) (pt_value_map pt) value \<and> schema_accepts (e_validator e) (pl_schema pl) msg))"

lemma shape_of_kind: "shape show_float k vm r = Ok value \<Longrightarrow> of_kind k vm value"
  by (cases k; cases r) (auto simp: shape_def bind_eq_Some_conv)

lemma message_fits: "message e i pt r = Ok msg \<Longrightarrow> fits_point e pt msg"
  by (auto simp: message_def fits_point_def sample_def split: option.splits raw.splits if_splits dest: shape_of_kind)

lemma publish_reading_published:
  "\<exists>new. po_published (publish_reading e i pt r st) = po_published st @ new \<and>
     (new = [] \<or> (\<exists>msg. new = [(pt_topic pt, msg)] \<and> fits_point e pt msg))"
  by (auto simp: publish_reading_def message_fits split: outcome.splits)

lemma poll_one_published:
  assumes "poll_one e points trust creds i st = Ok st'"
  shows "\<exists>new. po_published st' = po_published st @ new \<and>
    (new = [] \<or> (\<exists>msg. new = [(pt_topic (points ! i), msg)] \<and> fits_point e (points ! i) msg))"
proof -
  obtain r st1 where r: "read_one e (pt_binding (points ! i)) trust creds st = (r, st1)" by fastforce
  with read_one_frame(2) [OF r] assms publish_reading_published [of e i "points ! i" _ st1] show ?thesis
    by (cases r) (auto simp: poll_one_def Let_def)
qed

text \<open>The messages of a pass, in the order of the readings \<open>is\<close>, at most one each.\<close>

definition messages_of :: "poll_env \<Rightarrow> point_cfg list \<Rightarrow> nat list \<Rightarrow> (string \<times> json) list \<Rightarrow> bool" where
  "messages_of e points is new \<longleftrightarrow> (\<exists>js. subseq js is \<and>
     list_all2 (\<lambda>i (topic, msg). topic = pt_topic (points ! i) \<and> fits_point e (points ! i) msg) js new)"

lemma messages_of_Cons:
  assumes "messages_of e points is new"
  shows "messages_of e points (i # is) new"
    and "fits_point e (points ! i) msg \<Longrightarrow> messages_of e points (i # is) ((pt_topic (points ! i), msg) # new)"
  using assms unfolding messages_of_def by (blast, fastforce intro: exI [of _ "i # _"])

lemma poll_all_published:
  assumes "poll_all e points trust creds is st = Ok st'"
  shows "\<exists>new. po_published st' = po_published st @ new \<and> messages_of e points is new"
  using assms
proof (induction "is" arbitrary: st)
  case Nil
  then show ?case by (auto simp: messages_of_def)
next
  case (Cons i js)
  from Cons.prems obtain st1 where
    one: "poll_one e points trust creds i st = Ok st1" and all: "poll_all e points trust creds js st1 = Ok st'" by auto
  from Cons.IH [OF all] obtain new where
    new: "po_published st' = po_published st1 @ new" "messages_of e points js new" by blast
  from poll_one_published [OF one] obtain n1 where
    n1: "po_published st1 = po_published st @ n1"
      "n1 = [] \<or> (\<exists>msg. n1 = [(pt_topic (points ! i), msg)] \<and> fits_point e (points ! i) msg)" by blast
  have "messages_of e points (i # js) (n1 @ new)"
    using n1(2) messages_of_Cons [OF new(2), of i] by auto
  with new(1) n1(1) show ?case by (intro exI [of _ "n1 @ new"]) simp
qed

text \<open>
  (C21) A pass publishes only readings that were due, each at most once, in order and on its own
  topic, and nothing that does not fit: a reading with a schema is published as the kind the schema
  declares, an enum only as a label of its value map, and only if the schema accepts the whole
  sample; a reading without a schema is published as a number, never as text.
\<close>

theorem published_fits_schema:
  assumes "poll_due e points trust creds now st = Ok st'"
  shows "\<exists>new. po_published st' = po_published st @ new \<and> messages_of e points (due (po_next st) now) new"
  using poll_all_published [OF assms [unfolded poll_due_def]] by simp

section \<open>Sessions\<close>

text \<open>A printed number has digits only, and is printed in one way; so an endpoint determines host and port.\<close>

lemma digit_value_char: "d < 10 \<Longrightarrow> digit_value (char_of (48 + d)) = Some d"
  by (simp add: digit_value_def Let_def)

lemma parse_digits_snoc:
  "parse_digits acc (xs @ [c]) = (case parse_digits acc xs of None \<Rightarrow> None
     | Some m \<Rightarrow> map_option (\<lambda>d. m * 10 + d) (digit_value c))"
  by (induction xs arbitrary: acc) (auto split: option.splits)

lemma parse_show_nat: "parse_digits 0 (show_nat n) = Some n"
proof (induction n rule: show_nat.induct)
  case (1 n)
  show ?case
  proof (cases "n < 10")
    case True
    with digit_value_char [of n] show ?thesis by (simp add: show_nat.simps [of n])
  next
    case False
    with 1 have "parse_digits 0 (show_nat (n div 10)) = Some (n div 10)" by simp
    moreover have "show_nat n = show_nat (n div 10) @ [char_of (48 + n mod 10)]"
      using False by (simp add: show_nat.simps [of n])
    ultimately show ?thesis
      using digit_value_char [of "n mod 10"] by (simp add: parse_digits_snoc)
  qed
qed

lemma parse_digits_digits: "parse_digits acc xs = Some n \<Longrightarrow> c \<in> set xs \<Longrightarrow> digit_value c \<noteq> None"
  by (induction xs arbitrary: acc) (auto split: option.splits)

lemma colon_not_in_show: "CHR '':'' \<notin> set (show_nat n)"
  using parse_digits_digits [OF parse_show_nat, of "CHR '':''" n] by (auto simp: digit_value_def)

lemma endpoint_of_inj: "endpoint_of host port = endpoint_of host' port' \<longleftrightarrow> host = host' \<and> port = port'"
proof
  assume eq: "endpoint_of host port = endpoint_of host' port'"
  have tw: "takeWhile (\<lambda>c. c \<noteq> CHR '':'') (rev (endpoint_of h p)) = rev (show_nat (unat p))" for h and p :: u16
  proof -
    have "rev (endpoint_of h p) = rev (show_nat (unat p)) @ CHR '':'' # rev h" by (simp add: endpoint_of_def)
    then show ?thesis using colon_not_in_show [of "unat p"] by (auto simp: takeWhile_append)
  qed
  from eq have "show_nat (unat port) = show_nat (unat port')" by (metis tw rev_swap)
  then have "port = port'" by (metis option.inject parse_show_nat word_unat_eq_iff)
  with eq show "host = host' \<and> port = port'" by (simp add: endpoint_of_def)
qed simp

text \<open>Every session of a poller serves the endpoint it is filed under, as secure as the device requires.\<close>

definition poll_sessions_ok :: "device_trust option \<Rightarrow> gateway_credentials option \<Rightarrow> poll_state \<Rightarrow> bool" where
  "poll_sessions_ok trust creds st \<longleftrightarrow> (\<forall>host port ch. po_sessions st (endpoint_of host port) = Some ch \<longrightarrow>
     serves (host, port, is_secure trust creds) ch)"

lemma poll_session_serves:
  assumes "poll_session e host port trust creds st = (r, st')" and "poll_sessions_ok trust creds st"
  shows "poll_sessions_ok trust creds st' \<and> (\<forall>ch. r = Ok ch \<longrightarrow> serves (host, port, is_secure trust creds) ch)"
  using assms serves_open_channel [of "e_world e" host port trust creds]
  by (auto simp: poll_session_def poll_sessions_ok_def Let_def endpoint_of_inj split: option.splits outcome.splits if_splits)

fun is_tls :: "channel \<Rightarrow> bool" where
  "is_tls (TlsChannel host port name creds) = True"
| "is_tls (TcpChannel host port) = False"

definition all_tls :: "poll_state \<Rightarrow> bool" where
  "all_tls st \<longleftrightarrow> (\<forall>key ch. po_sessions st key = Some ch \<longrightarrow> is_tls ch)"

definition surroundings :: "poll_env \<Rightarrow> world \<Rightarrow> peers \<Rightarrow> poll_env" where
  "surroundings e w p = e\<lparr>e_world := w, e_peers := p\<rparr>"

lemma surroundings_simps [simp]:
  "e_world (surroundings e w p) = w" "e_peers (surroundings e w p) = p" "e_validator (surroundings e w p) = e_validator e"
  "e_show (surroundings e w p) = e_show e" "e_publishes (surroundings e w p) = e_publishes e" "e_ts (surroundings e w p) = e_ts e"
  "e_now (surroundings e w p) = e_now e"
  by (simp_all add: surroundings_def)

lemma poll_session_secured:
  assumes same: "same_secured (e_world e) (e_peers e) w p" and "all_tls st" and "poll_session e host port (Some (TlsMutual name)) (Some creds) st = (r, st')"
  shows "poll_session (surroundings e w p) host port (Some (TlsMutual name)) (Some creds) st = (r, st')"
    and "all_tls st'" and "r = Ok ch \<Longrightarrow> same_reads (e_world e) w ch"
proof -
  show "poll_session (surroundings e w p) host port (Some (TlsMutual name)) (Some creds) st = (r, st')"
    using assms(3) unfolding poll_session_def surroundings_simps open_tls_cong [OF same] .
  show tls: "all_tls st'"
    using assms by (auto simp: poll_session_def all_tls_def Let_def open_channel_def split: option.splits outcome.splits if_splits)
  have "is_tls ch" if "r = Ok ch"
    using assms that by (auto simp: poll_session_def all_tls_def Let_def open_channel_def split: option.splits outcome.splits if_splits)
  with same_secured_reads [OF same] show "r = Ok ch \<Longrightarrow> same_reads (e_world e) w ch" by (cases ch) auto
qed

lemma read_one_secured:
  assumes same: "same_secured (e_world e) (e_peers e) w p" and "all_tls st" and "tls_capable binding"
    and "read_one e binding (Some (TlsMutual name)) (Some creds) st = (r, st')"
  shows "read_one (surroundings e w p) binding (Some (TlsMutual name)) (Some creds) st = (r, st') \<and> all_tls st'"
proof (cases binding)
  case (ModbusTcp b)
  obtain c st1 where c: "poll_session e (mb_host b) (mb_port b) (Some (TlsMutual name)) (Some creds) st = (c, st1)" by fastforce
  note s = poll_session_secured [OF same assms(2) c]
  have "read_on w ch b = read_on (e_world e) ch b" if "c = Ok ch" for ch
    by (rule read_on_cong [OF s(3) [OF that]])
  with s(1,2) c assms(4) show ?thesis
    by (cases c) (auto simp: ModbusTcp read_one_def on_south_def all_tls_def split: prod.splits)
next
  case (Sunspec b)
  obtain c st1 where c: "poll_session e (ss_host b) (ss_port b) (Some (TlsMutual name)) (Some creds) st = (c, st1)" by fastforce
  note s = poll_session_secured [OF same assms(2) c]
  have "read_on_sunspec w ch b = read_on_sunspec (e_world e) ch b" if "c = Ok ch" for ch
    by (rule read_on_sunspec_cong [OF s(3) [OF that]])
  with s(1,2) c assms(4) show ?thesis
    by (cases c) (auto simp: Sunspec read_one_def on_south_def all_tls_def split: prod.splits)
next
  case (Redfish b)
  have "fetch_resource w p b (Some (TlsMutual name)) (Some creds) =
      fetch_resource (e_world e) (e_peers e) b (Some (TlsMutual name)) (Some creds)"
    using same by (simp add: fetch_resource_def http_client_def same_secured_def)
  with assms(2,4) show ?thesis
    by (auto simp: Redfish read_one_def read_shared_def all_tls_def Let_def split: if_splits)
next
  case (Dnp3Tcp b)
  with read_value_secured [OF same assms(3)] assms(2,4) show ?thesis
    by (auto simp: read_one_def on_south_def all_tls_def split: prod.splits)
qed (use assms(3) in simp_all)

lemma publish_reading_surroundings [simp]: "publish_reading (surroundings e w p) i pt r st = publish_reading e i pt r st"
  unfolding publish_reading_def message_def surroundings_simps ..

lemma publish_reading_sessions [simp]: "po_sessions (publish_reading e i pt r st) = po_sessions st"
  by (auto simp: publish_reading_def split: outcome.splits)

lemma poll_one_secured:
  assumes same: "same_secured (e_world e) (e_peers e) w p" and "all_tls st" and "tls_capable (pt_binding (points ! i))"
  shows "poll_one (surroundings e w p) points (Some (TlsMutual name)) (Some creds) i st =
      poll_one e points (Some (TlsMutual name)) (Some creds) i st"
    and "poll_one e points (Some (TlsMutual name)) (Some creds) i st = Ok st' \<Longrightarrow> all_tls st'"
proof -
  obtain r st1 where r: "read_one e (pt_binding (points ! i)) (Some (TlsMutual name)) (Some creds) st = (r, st1)" by fastforce
  note rs = read_one_secured [OF assms r]
  show "poll_one (surroundings e w p) points (Some (TlsMutual name)) (Some creds) i st =
      poll_one e points (Some (TlsMutual name)) (Some creds) i st"
    unfolding poll_one_def using rs r by (cases r) (simp_all add: Let_def)
  show "poll_one e points (Some (TlsMutual name)) (Some creds) i st = Ok st' \<Longrightarrow> all_tls st'"
    using rs r by (cases r) (auto simp: poll_one_def Let_def all_tls_def)
qed

lemma poll_all_secured:
  assumes same: "same_secured (e_world e) (e_peers e) w p" and "all_tls st" and "\<forall>i \<in> set is. tls_capable (pt_binding (points ! i))"
  shows "poll_all (surroundings e w p) points (Some (TlsMutual name)) (Some creds) is st =
      poll_all e points (Some (TlsMutual name)) (Some creds) is st \<and>
    (\<forall>st'. poll_all e points (Some (TlsMutual name)) (Some creds) is st = Ok st' \<longrightarrow> all_tls st')"
  using assms
proof (induction "is" arbitrary: st)
  case (Cons i js)
  from Cons.prems have "tls_capable (pt_binding (points ! i))" by simp
  note one = poll_one_secured [OF same Cons.prems(2) this]
  show ?case
  proof (cases "poll_one e points (Some (TlsMutual name)) (Some creds) i st")
    case (Ok st1)
    with Cons.IH [OF same one(2) [OF Ok]] Cons.prems show ?thesis by (simp add: one(1))
  qed (simp_all add: one(1))
qed simp


text \<open>
  (C19) The readings of a device that requires mutual TLS are never influenced by an unauthenticated
  peer: with Modbus, SunSpec, Redfish and DNP3, in any two surroundings that answer alike over mutual
  TLS a whole pass of the poller ends in the same state, publications included, however they differ
  on plain connections; and its sessions stay TLS sessions.
\<close>

theorem secured_polling:
  assumes "same_secured (e_world e) (e_peers e) w p" and "all_tls st"
    and "\<forall>i \<in> set (due (po_next st) now). tls_capable (pt_binding (points ! i))"
  shows "poll_due (surroundings e w p) points (Some (TlsMutual name)) (Some creds) now st =
      poll_due e points (Some (TlsMutual name)) (Some creds) now st \<and>
    (\<forall>st'. poll_due e points (Some (TlsMutual name)) (Some creds) now st = Ok st' \<longrightarrow> all_tls st')"
proof -
  let ?st = "st\<lparr>po_fetched := Map.empty, po_gets := []\<rparr>"
  from assms(2) have tls: "all_tls ?st" by (simp add: all_tls_def)
  from poll_all_secured [OF assms(1) tls assms(3)] show ?thesis by (simp add: poll_due_def)
qed

section \<open>The periods of a spec\<close>

text \<open>Whatever rate a spec asks for, a reading is polled at least every 100 and at most every 0.1 seconds.\<close>

lemma round_even_bounds: "x - 1 / 2 \<le> of_int (round_even x) \<and> of_int (round_even x) \<le> x + 1 / 2"
  unfolding round_even_def Let_def by (simp split: if_splits) linarith

lemma build_point_period:
  assumes "build_point v spec site_id device_id m source = Ok pt"
  shows "100000000 \<le> pt_period pt \<and> pt_period pt \<le> 100000000000"
proof -
  define hz where "hz = clamp_poll_rate (ps_poll_rate_hz source)"
  have hz: "1 / 100 \<le> hz" "hz \<le> 10"
    using clamp_poll_rate_range [of "ps_poll_rate_hz source"] by (simp_all add: hz_def MIN_POLL_HZ_def MAX_POLL_HZ_def)
  then have x: "1 / 10 \<le> 1 / hz" "1 / hz \<le> 100" by (simp_all add: field_simps)
  from assms have p: "pt_period pt = nat (round_even (1 / hz * 1000000000))"
    by (auto simp: build_point_def from_secs_f64_def hz_def split: if_splits)
  have "real_of_int 100000000 - 1 / 2 \<le> real_of_int (round_even (1 / hz * 1000000000))"
    "real_of_int (round_even (1 / hz * 1000000000)) \<le> real_of_int 100000000000 + 1 / 2"
    using round_even_bounds [of "1 / hz * 1000000000"] x by linarith+
  then have "100000000 \<le> round_even (1 / hz * 1000000000)" "round_even (1 / hz * 1000000000) \<le> 100000000000"
    by linarith+
  then show ?thesis unfolding p by (simp add: le_nat_iff nat_le_iff)
qed

lemma build_point_returns: "\<exists>pt. build_point v spec site_id device_id m source = Ok pt"
proof -
  have "1 / 100 \<le> clamp_poll_rate (ps_poll_rate_hz source)"
    using clamp_poll_rate_range [of "ps_poll_rate_hz source"] by (simp add: MIN_POLL_HZ_def)
  then have "0 \<le> 1 / clamp_poll_rate (ps_poll_rate_hz source)" "1 / clamp_poll_rate (ps_poll_rate_hz source) \<le> 100"
    by (simp_all add: field_simps)
  then show ?thesis by (auto simp: build_point_def from_secs_f64_def)
qed

lemma device_points_returns: "\<exists>pts. device_points v spec site_id device_id channels = Ok pts"
  unfolding device_points_def
proof (induction channels)
  case (Cons c cs)
  obtain m source where c: "c = (m, source)" by (cases c)
  obtain pt where "build_point v spec site_id device_id m source = Ok pt" using build_point_returns by blast
  with Cons show ?case by (auto simp: c)
qed simp

section \<open>An example\<close>

definition ex_env :: poll_env where
  "ex_env = \<lparr>e_world = ex_world 1, e_peers = ex_peers,
     e_validator = \<lparr>schema_compiles = (\<lambda>_. True), schema_accepts = (\<lambda>_ _. True)\<rparr>, e_show = (\<lambda>_. []),
     e_publishes = (\<lambda>_. True), e_ts = (\<lambda>_. ''now''), e_now = (\<lambda>_. secs 7)\<rparr>"

definition ex_point :: point_cfg where
  "ex_point = \<lparr>pt_topic = ''t'', pt_binding = Redfish ex_redfish, pt_period = secs 2, pt_payload = None, pt_value_map = None\<rparr>"

definition ex_poll :: poll_state where
  "ex_poll = \<lparr>po_next = [secs 3], po_sessions = Map.empty, po_fetched = Map.empty, po_south = south_init, po_gets = [],
     po_published = []\<rparr>"

lemma ex_pass:
  "poll_due ex_env [ex_point] None None (secs 5) ex_poll = Ok
     \<lparr>po_next = [secs 9], po_sessions = Map.empty,
      po_fetched = [resource_key ex_redfish \<mapsto> Ok (JObj [(''Power'', JObj [(''Limit'', JNum 25)])])],
      po_south = south_init, po_gets = [resource_key ex_redfish],
      po_published = [(''t'', sample_of ''now'' (JNum 250))]\<rparr>"
proof -
  have f: "fetch_resource (ex_world 1) ex_peers ex_redfish None None = Ok (JObj [(''Power'', JObj [(''Limit'', JNum 25)])])"
    by (simp add: fetch_resource_def http_client_def ex_world_def ex_peers_def MAX_READ_ATTEMPTS_def numeral_eq_Suc)
  have x: "extract_reading (JObj [(''Power'', JObj [(''Limit'', JNum 25)])]) ex_redfish = Ok (Number (Fin 250))"
    by (simp add: extract_reading_def ex_redfish_def json_pointer_def unescape_token_def)
  show ?thesis
    by (simp add: poll_due_def due_def ex_poll_def poll_one_def read_one_def ex_point_def read_shared_def ex_env_def f x
        publish_reading_def message_def json_number_def advance_def secs_def NANOS_def Let_def)
qed

theorem poll_rate_bounded_witness:
  "secs 3 + 0 * secs 2 \<le> [secs 5] ! 0 \<and> e_now ex_env 0 < secs 9"
proof -
  have p: "0 < pt_period ([ex_point] ! 0)" and l: "0 < length (po_next ex_poll)" and d: "po_next ex_poll ! 0 \<le> secs 5"
    by (simp_all add: ex_point_def ex_poll_def secs_def NANOS_def)
  have run: "polling [ex_point] None None 0 ex_poll [secs 5]
      \<lparr>po_next = [secs 9], po_sessions = Map.empty,
      po_fetched = [resource_key ex_redfish \<mapsto> Ok (JObj [(''Power'', JObj [(''Limit'', JNum 25)])])],
      po_south = south_init, po_gets = [resource_key ex_redfish],
      po_published = [(''t'', sample_of ''now'' (JNum 250))]\<rparr>"
    using polling.pass [OF polling.start ex_pass, of 0] d by simp
  have "secs 3 + 0 * secs 2 \<le> [secs 5] ! 0"
    using poll_rate_bounded [OF run l p] by (simp add: ex_poll_def ex_point_def)
  moreover have "e_now ex_env 0 < secs 9"
    using poll_rate_bounded [OF polling.start l p, of None None] ex_pass d by fastforce
  ultimately show ?thesis ..
qed

theorem published_fits_schema_witness:
  "messages_of ex_env [ex_point] (due [secs 3] (secs 5)) [(''t'', sample_of ''now'' (JNum 250))]"
  using published_fits_schema [OF ex_pass] by (simp add: ex_poll_def)

theorem secured_polling_witness:
  "poll_due (surroundings ex_env (ex_world 1) (ex_peers\<lparr>p_get := (\<lambda>scheme. if scheme = Http then \<lambda>_ _ _ _. GetFailed else p_get ex_peers scheme)\<rparr>))
      [ex_point] (Some (TlsMutual ''bmc'')) (Some \<lparr>ca_bundle_path = ''ca'', cert_path = ''c'', key_path = ''k''\<rparr>) (secs 5) ex_poll =
   poll_due ex_env [ex_point] (Some (TlsMutual ''bmc'')) (Some \<lparr>ca_bundle_path = ''ca'', cert_path = ''c'', key_path = ''k''\<rparr>) (secs 5) ex_poll"
  by (rule secured_polling [THEN conjunct1])
    (auto simp: same_secured_def ex_env_def all_tls_def ex_poll_def set_due ex_point_def)

end
