(* ===== verification/Task_Set.thy ===== *)
theory Task_Set
  imports Topics Heartbeat Poller
begin

text \<open>
  The tasks a spec runs (\<^verbatim>\<open>app::spawn_task_set\<close>): a poller per device, the derived channels, a
  rebalance task per distribute command, the heartbeats, one shed task per POI and the two site
  tasks. What each loop does is in the theory of its component; here are the configurations it runs
  with, and that the topics of the spec cover everything these tasks read.
\<close>

section \<open>Copies of a binding\<close>

text \<open>
  Bindings are not \<^verbatim>\<open>Clone\<close>; tasks and command channels get a field-wise copy. It is the identity,
  so the other definitions leave it out.
\<close>

fun clone_binding :: "protocol_binding \<Rightarrow> protocol_binding" where
  "clone_binding (Sunspec b) = Sunspec \<lparr>ss_host = ss_host b, ss_port = ss_port b, ss_unit_id = ss_unit_id b, ss_model_id = ss_model_id b,
     ss_point = ss_point b, ss_bit = ss_bit b\<rparr>"
| "clone_binding (ModbusTcp b) = ModbusTcp \<lparr>mb_host = mb_host b, mb_port = mb_port b, mb_unit_id = mb_unit_id b, mb_address = mb_address b,
     mb_scale = mb_scale b, mb_offset = mb_offset b, mb_data_type = mb_data_type b,
     mb_word_order = mb_word_order b, mb_function_code = mb_function_code b,
     mb_scale_factor_address = mb_scale_factor_address b\<rparr>"
| "clone_binding (Snmp b) = Snmp \<lparr>snmp_host = snmp_host b, snmp_port = snmp_port b, snmp_oid = snmp_oid b, snmp_scale = snmp_scale b\<rparr>"
| "clone_binding (Redfish b) = Redfish \<lparr>rf_host = rf_host b, rf_port = rf_port b, rf_uri = rf_uri b, rf_json_pointer = rf_json_pointer b,
     rf_scale = rf_scale b\<rparr>"
| "clone_binding (Dnp3Tcp b) = Dnp3Tcp \<lparr>dnp_host = dnp_host b, dnp_port = dnp_port b, dnp_point_index = dnp_point_index b,
     dnp_point_type = dnp_point_type b, dnp_variation = dnp_variation b, dnp_scale = dnp_scale b,
     dnp_outstation_address = dnp_outstation_address b\<rparr>"
| "clone_binding (Synthetic b) = Synthetic \<lparr>sy_operation = sy_operation b, sy_inputs = sy_inputs b, sy_pairs = sy_pairs b\<rparr>"
| "clone_binding (BacnetIp b) = BacnetIp \<lparr>bip_host = bip_host b, bip_port = bip_port b, bip_device_instance = bip_device_instance b,
     bip_object_type = bip_object_type b, bip_object_instance = bip_object_instance b,
     bip_property_id = bip_property_id b\<rparr>"
| "clone_binding (BacnetSc b) = BacnetSc \<lparr>bsc_hub_url = bsc_hub_url b, bsc_device_vmac = bsc_device_vmac b,
     bsc_object_type = bsc_object_type b, bsc_object_instance = bsc_object_instance b,
     bsc_property_id = bsc_property_id b\<rparr>"
| "clone_binding (PowerCap p) = PowerCap p"
| "clone_binding (Distribute b) = Distribute \<lparr>d_allocation_policy = d_allocation_policy b, d_children = d_children b,
     d_state_of_charge_floor_percent = d_state_of_charge_floor_percent b,
     d_ramp_rate_per_sec = d_ramp_rate_per_sec b, d_hysteresis_margin = d_hysteresis_margin b,
     d_hysteresis_dwell_secs = d_hysteresis_dwell_secs b, d_power_min = d_power_min b,
     d_power_max = d_power_max b, d_import_limit_topic = d_import_limit_topic b,
     d_export_limit_topic = d_export_limit_topic b, d_active_power_topic = d_active_power_topic b,
     d_poi_active_power_topic = d_poi_active_power_topic b,
     d_operator_reserve_topic = d_operator_reserve_topic b, d_site_capacity_wh = d_site_capacity_wh b,
     d_readiness_soc_percent = d_readiness_soc_percent b, d_recharge_power_w = d_recharge_power_w b\<rparr>"

lemma clone_binding_same [simp]: "clone_binding b = b"
  by (cases b) simp_all

section \<open>Building the task set\<close>

text \<open>The readings and derived channels of one device; a panic is a period that no duration holds.\<close>

definition device_synthetics :: "asyncapi_spec \<Rightarrow> string \<Rightarrow> string \<Rightarrow> (string \<times> protocol_source) list \<Rightarrow> synthetic_task_config list outcome" where
  "device_synthetics spec site_id device_id channels =
     bind_outcome (collect_outcome (map (\<lambda>(measurement, source). case ps_binding source of
         Synthetic b \<Rightarrow> spawn_synthetic spec b (build_topic site_id device_id measurement (ps_unit source))
           (clamp_poll_rate (ps_poll_rate_hz source)) site_id
       | _ \<Rightarrow> Ok None) channels))
     (\<lambda>cfgs. Ok (concat (map opt_list cfgs)))"

record device_tasks =
  dt_device_id :: string
  dt_points :: "point_cfg list"
  dt_trust :: "device_trust option"
  dt_synthetics :: "synthetic_task_config list"

definition spawn_device :: "validator \<Rightarrow> asyncapi_spec \<Rightarrow> string \<Rightarrow> string \<times> (string \<times> protocol_source) list \<Rightarrow> device_tasks outcome" where
  "spawn_device v spec site_id device = (case device of (device_id, channels) \<Rightarrow>
     bind_outcome (device_points v spec site_id device_id channels) (\<lambda>points.
     bind_outcome (device_synthetics spec site_id device_id channels) (\<lambda>synthetics.
       Ok \<lparr>dt_device_id = device_id, dt_points = points, dt_trust = map_of (x_device_trust spec) device_id,
           dt_synthetics = synthetics\<rparr>)))"

text \<open>What one command spawns: a shed configuration, or a rebalance task and its storage.\<close>

definition substituted_guard :: "string \<Rightarrow> envelope_guard \<Rightarrow> envelope_guard" where
  "substituted_guard site_id guard = guard\<lparr>
     eg_import_limit_topic := substitute_site_id (eg_import_limit_topic guard) site_id,
     eg_export_limit_topic := substitute_site_id (eg_export_limit_topic guard) site_id,
     eg_active_power_topic := substitute_site_id (eg_active_power_topic guard) site_id\<rparr>"

record command_tasks =
  cmd_shed :: "shed_task_config option"
  cmd_task :: "envelope_task_config option"
  cmd_storage :: "distribute_binding option"

definition spawn_command :: "string \<Rightarrow> gateway_credentials option \<Rightarrow> string \<times> command_source \<Rightarrow> command_tasks outcome" where
  "spawn_command site_id creds c = (case c of (device_id, source) \<Rightarrow>
     let key = command_key (cs_verb source) (cs_target source) in
     (case cs_binding source of
        PowerCap p \<Rightarrow> bind_outcome (from_binding device_id key p site_id creds) (\<lambda>shed.
          Ok \<lparr>cmd_shed = shed, cmd_task = None, cmd_storage = None\<rparr>)
      | Distribute d \<Rightarrow> bind_outcome (envelope_guard_config d) (\<lambda>guard.
          Ok \<lparr>cmd_shed = None,
              cmd_task = Some \<lparr>tc_device_id = device_id, tc_channel_key = key,
                tc_guard = map_option (substituted_guard site_id) guard, tc_binding = cs_binding source\<rparr>,
              cmd_storage = (if guard \<noteq> None then Some d else None)\<rparr>)
      | _ \<Rightarrow> Ok \<lparr>cmd_shed = None, cmd_task = None, cmd_storage = None\<rparr>))"

record actual_power_config =
  ap_output_topic :: string
  ap_source_topics :: "string list"

record task_set =
  ts_pollers :: "(point_cfg list \<times> device_trust option) list"
  ts_synthetic :: "synthetic_task_config list"
  ts_envelope :: "envelope_task_config list"
  ts_counters :: "(counter \<times> device_trust option) list"
  ts_beats :: "(beat \<times> device_trust option) list"
  ts_shed :: "shed_task_config list"
  ts_actual :: actual_power_config
  ts_site :: site_config

definition spawn_task_set :: "validator \<Rightarrow> asyncapi_spec \<Rightarrow> string \<Rightarrow> gateway_credentials option \<Rightarrow> task_set outcome" where
  "spawn_task_set v spec site_id creds =
     bind_outcome (collect_outcome (map (spawn_device v spec site_id) (x_protocol_source spec))) (\<lambda>devices.
     bind_outcome (collect_outcome (map (spawn_command site_id creds) (command_sources spec))) (\<lambda>commands.
     bind_outcome (collect_outcome (map (\<lambda>(device_id, h). bind_outcome (build_counter device_id h) (\<lambda>c.
         Ok (c, map_of (x_device_trust spec) device_id))) (x_heartbeat_source spec))) (\<lambda>counters.
     let storage = concat (map (\<lambda>c. opt_list (cmd_storage c)) commands);
         sheds = concat (map (\<lambda>c. opt_list (cmd_shed c)) commands)
     in Ok \<lparr>ts_pollers = map (\<lambda>d. (dt_points d, dt_trust d)) (filter (\<lambda>d. dt_points d \<noteq> []) devices),
            ts_synthetic = concat (map dt_synthetics devices),
            ts_envelope = concat (map (\<lambda>c. opt_list (cmd_task c)) commands),
            ts_counters = counters,
            ts_beats = map (\<lambda>b. (b, map_of (x_device_trust spec) (bt_device_id b))) (beats (x_command_source spec)),
            ts_shed = map (\<lambda>c. c\<lparr>sh_storage := storage\<rparr>) (per_poi sheds),
            ts_actual = \<lparr>ap_output_topic = der_topic site_id ''actual_active_power/watts'',
              ap_source_topics = collect_der_dispatch_active_power_topics spec site_id\<rparr>,
            ts_site = \<lparr>sd_site_id = site_id,
              sd_topics = \<lparr>pt_event_active = der_topic site_id ''event_active/none'',
                pt_target_present = der_topic site_id ''target_setpoint_present/none'',
                pt_target = der_topic site_id ''target_active_power/watts''\<rparr>,
              sd_creds = creds\<rparr>\<rparr>)))"

text \<open>One tick of \<^verbatim>\<open>der_dispatch::actual_power\<close>: the sum is published, retained, once every source is cached.\<close>

definition actual_power_tick :: "actual_power_config \<Rightarrow> input_cache \<Rightarrow> (string \<times> f64) option" where
  "actual_power_tick cfg cache =
     map_option (\<lambda>total. (ap_output_topic cfg, total)) (sum_cached (ap_source_topics cfg) cache)"

section \<open>Where the tasks come from\<close>

lemma spawn_command_results:
  assumes "spawn_command site creds (device_id, source) = Ok c"
  shows "cmd_task c = Some cfg \<Longrightarrow> \<exists>d guard. cs_binding source = Distribute d \<and> envelope_guard_config d = Ok guard \<and>
      cfg = \<lparr>tc_device_id = device_id, tc_channel_key = command_key (cs_verb source) (cs_target source),
        tc_guard = map_option (substituted_guard site) guard, tc_binding = Distribute d\<rparr>"
    and "cmd_storage c = Some d \<Longrightarrow> cs_binding source = Distribute d \<and> (\<exists>guard. envelope_guard_config d = Ok (Some guard))"
    and "cmd_shed c = Some s \<Longrightarrow> \<exists>p. cs_binding source = PowerCap p \<and>
      from_binding device_id (command_key (cs_verb source) (cs_target source)) p site creds = Ok (Some s)"
  using assms by (cases "cs_binding source"; auto simp: spawn_command_def Let_def split: if_splits)+

lemma spawn_task_set_commands:
  assumes "spawn_task_set v spec site creds = Ok ts"
  obtains commands where "\<And>c. c \<in> set commands \<Longrightarrow> \<exists>device_id source. (device_id, source) \<in> set (command_sources spec) \<and>
      spawn_command site creds (device_id, source) = Ok c"
    "set (ts_envelope ts) = (\<Union>c \<in> set commands. set_option (cmd_task c))"
    "\<And>cfg. cfg \<in> set (ts_shed ts) \<Longrightarrow> set (sh_storage cfg) = (\<Union>c \<in> set commands. set_option (cmd_storage c))"
    "\<And>cfg. cfg \<in> set (ts_shed ts) \<Longrightarrow>
       \<exists>storage. cfg \<in> (\<lambda>c. c\<lparr>sh_storage := storage\<rparr>) ` set (per_poi (concat (map (\<lambda>c. opt_list (cmd_shed c)) commands)))"
proof -
  from assms obtain commands where "collect_outcome (map (spawn_command site creds) (command_sources spec)) = Ok commands"
    and "ts_envelope ts = concat (map (\<lambda>c. opt_list (cmd_task c)) commands)"
    and "ts_shed ts = map (\<lambda>c. c\<lparr>sh_storage := concat (map (\<lambda>c. opt_list (cmd_storage c)) commands)\<rparr>)
       (per_poi (concat (map (\<lambda>c. opt_list (cmd_shed c)) commands)))"
    by (auto simp: spawn_task_set_def Let_def)
  note cs = this
  show thesis
  proof (rule that [of commands])
    show "\<exists>device_id source. (device_id, source) \<in> set (command_sources spec) \<and> spawn_command site creds (device_id, source) = Ok c"
      if "c \<in> set commands" for c
      using collect_outcome_origin [OF cs(1) that] by auto
  qed (auto simp: cs(2,3))
qed

lemma spawn_task_set_envelope:
  assumes "spawn_task_set v spec site creds = Ok ts" and "cfg \<in> set (ts_envelope ts)"
  obtains device_id source d guard where "(device_id, source) \<in> set (command_sources spec)"
    "cs_binding source = Distribute d" "envelope_guard_config d = Ok guard"
    "cfg = \<lparr>tc_device_id = device_id, tc_channel_key = command_key (cs_verb source) (cs_target source),
       tc_guard = map_option (substituted_guard site) guard, tc_binding = Distribute d\<rparr>"
proof (rule spawn_task_set_commands [OF assms(1)])
  fix commands
  assume c: "\<And>c. c \<in> set commands \<Longrightarrow> \<exists>device_id source. (device_id, source) \<in> set (command_sources spec) \<and>
      spawn_command site creds (device_id, source) = Ok c"
    and "set (ts_envelope ts) = (\<Union>c \<in> set commands. set_option (cmd_task c))"
  then obtain c where "c \<in> set commands" "cmd_task c = Some cfg" using assms(2) by (auto simp: elem_set)
  with c show thesis using that spawn_command_results(1) by metis
qed

lemma spawn_task_set_storage:
  assumes "spawn_task_set v spec site creds = Ok ts" and "cfg \<in> set (ts_shed ts)" and "d \<in> set (sh_storage cfg)"
  obtains device_id source guard where "(device_id, source) \<in> set (command_sources spec)"
    "cs_binding source = Distribute d" "envelope_guard_config d = Ok (Some guard)"
proof (rule spawn_task_set_commands [OF assms(1)])
  fix commands
  assume c: "\<And>c. c \<in> set commands \<Longrightarrow> \<exists>device_id source. (device_id, source) \<in> set (command_sources spec) \<and>
      spawn_command site creds (device_id, source) = Ok c"
    and "\<And>cfg. cfg \<in> set (ts_shed ts) \<Longrightarrow> set (sh_storage cfg) = (\<Union>c \<in> set commands. set_option (cmd_storage c))"
  then obtain c where "c \<in> set commands" "cmd_storage c = Some d" using assms(2,3) by (auto simp: elem_set)
  with c show thesis using that spawn_command_results(2) by metis
qed

lemma add_to_group_origin:
  "g \<in> set (add_to_group gs c) \<Longrightarrow> \<exists>g\<^sub>0 \<in> set (c # gs). \<exists>ms. g = g\<^sub>0\<lparr>sh_modules := ms\<rparr>"
proof (induction gs c rule: add_to_group.induct)
  case (1 c)
  then show ?case by (auto intro: exI [of _ "sh_modules c"])
next
  case (2 h gs c)
  have same: "\<exists>ms. x = x\<lparr>sh_modules := ms\<rparr>" for x :: shed_task_config
    by (rule exI [of _ "sh_modules x"]) simp
  show ?case
  proof (cases "poi_key h = poi_key c")
    case True
    then have "g = h\<lparr>sh_modules := sh_modules h @ sh_modules c\<rparr> \<or> g \<in> set gs" using 2(2) by simp
    then show ?thesis using same [of g] by auto
  next
    case False
    then have "g = h \<or> (\<exists>g\<^sub>0 \<in> set (c # gs). \<exists>ms. g = g\<^sub>0\<lparr>sh_modules := ms\<rparr>)" using 2 by auto
    then show ?thesis using same [of g] by auto
  qed
qed

lemma per_poi_origin:
  assumes "g \<in> set (per_poi cs)"
  shows "\<exists>c \<in> set cs. \<exists>ms. g = c\<lparr>sh_modules := ms\<rparr>"
proof -
  have "g \<in> set (foldl add_to_group gs cs) \<Longrightarrow> \<exists>c \<in> set gs \<union> set cs. \<exists>ms. g = c\<lparr>sh_modules := ms\<rparr>" for gs
  proof (induction cs arbitrary: gs)
    case Nil
    then have "g \<in> set gs \<and> g = g\<lparr>sh_modules := sh_modules g\<rparr>" by simp
    then show ?case by blast
  next
    case (Cons c cs)
    from Cons.IH [of "add_to_group gs c"] Cons.prems
    obtain h ms where "h \<in> set (add_to_group gs c) \<union> set cs" "g = h\<lparr>sh_modules := ms\<rparr>" by auto
    then show ?case using add_to_group_origin [of h gs c] by fastforce
  qed
  from this [of "[]"] assms show ?thesis by (simp add: per_poi_def)
qed

lemma from_binding_topics:
  assumes "from_binding device_id key p site creds = Ok (Some c)"
  shows "\<exists>poi imp ex. pc_poi_active_power_topic p = Some poi \<and> pc_import_limit_topic p = Some imp \<and>
    pc_export_limit_topic p = Some ex \<and> sh_poi_topic c = substitute_site_id poi site \<and>
    sh_import_limit_topic c = substitute_site_id imp site \<and> sh_export_limit_topic c = substitute_site_id ex site \<and>
    sh_creds c = creds \<and> sh_site_id c = site"
  using assms
  by (cases "pc_poi_active_power_topic p"; cases "pc_import_limit_topic p"; cases "pc_export_limit_topic p")
    (auto simp: from_binding_def split: option.splits)

lemma spawn_task_set_shed:
  assumes "spawn_task_set v spec site creds = Ok ts" and "cfg \<in> set (ts_shed ts)"
  obtains device_id source p poi imp ex where "(device_id, source) \<in> set (command_sources spec)"
    "cs_binding source = PowerCap p" "pc_poi_active_power_topic p = Some poi" "pc_import_limit_topic p = Some imp"
    "pc_export_limit_topic p = Some ex" "sh_poi_topic cfg = substitute_site_id poi site"
    "sh_import_limit_topic cfg = substitute_site_id imp site" "sh_export_limit_topic cfg = substitute_site_id ex site"
    "sh_creds cfg = creds" "sh_site_id cfg = site"
proof (rule spawn_task_set_commands [OF assms(1)])
  fix commands
  assume c: "\<And>c. c \<in> set commands \<Longrightarrow> \<exists>device_id source. (device_id, source) \<in> set (command_sources spec) \<and>
      spawn_command site creds (device_id, source) = Ok c"
    and "\<And>cfg. cfg \<in> set (ts_shed ts) \<Longrightarrow>
       \<exists>storage. cfg \<in> (\<lambda>c. c\<lparr>sh_storage := storage\<rparr>) ` set (per_poi (concat (map (\<lambda>c. opt_list (cmd_shed c)) commands)))"
  then obtain storage g where g: "g \<in> set (per_poi (concat (map (\<lambda>c. opt_list (cmd_shed c)) commands)))" "cfg = g\<lparr>sh_storage := storage\<rparr>"
    using assms(2) by blast
  from per_poi_origin [OF g(1)] obtain s ms c' where s: "c' \<in> set commands" "cmd_shed c' = Some s" "g = s\<lparr>sh_modules := ms\<rparr>"
    by (auto simp: elem_set)
  from c [OF s(1)] obtain device_id source where cmd: "(device_id, source) \<in> set (command_sources spec)"
    "spawn_command site creds (device_id, source) = Ok c'" by auto
  from spawn_command_results(3) [OF cmd(2) s(2)] obtain p where p: "cs_binding source = PowerCap p"
    "from_binding device_id (command_key (cs_verb source) (cs_target source)) p site creds = Ok (Some s)" by auto
  from from_binding_topics [OF p(2)] show thesis using that [OF cmd(1) p(1)] g(2) s(3) by auto
qed

section \<open>The inputs of every task are subscribed\<close>

lemma site_topic_substitute: "site_topic site raw = substitute_site_id raw site"
  by (simp add: site_topic_def substitute_site_id_def)

lemma plan_tick_reads:
  assumes "plain_site site" and "share_topics site d \<subseteq> T"
    and "\<And>g. guard = Some g \<Longrightarrow> set (guard_topics site g) \<subseteq> T"
    and "soc_topic site device_id \<in> T" and "der_topic site ''event_active/none'' \<in> T" and "der_topic site ''energize_enabled/none'' \<in> T"
  shows "cache_reader T (\<lambda>cache. plan_tick \<lparr>tc_device_id = device_id, tc_channel_key = key,
      tc_guard = map_option (substituted_guard site) guard, tc_binding = Distribute d\<rparr> now dt requested site cache locked t)"
    (is "cache_reader T (\<lambda>cache. plan_tick ?cfg now dt requested site cache locked t)")
proof (rule cache_readerI)
  fix cache cache' :: input_cache
  assume same: "\<And>t. t \<in> T \<Longrightarrow> cache t = cache' t"
  have num: "cached_number cache t = cached_number cache' t" if "t \<in> T" for t
    using same [OF that] by (simp add: cached_number_def)
  have soc: "cached_number cache (''sites/'' @ site @ ''/devices/'' @ device_id @ ''/measurements/state_of_charge/percent'') =
      cached_number cache' (''sites/'' @ site @ ''/devices/'' @ device_id @ ''/measurements/state_of_charge/percent'')"
    using num [OF assms(4)] by (simp only: soc_topic_def)
  have event: "cached_number cache (''sites/'' @ site @ ''/devices/der_dispatch/measurements/event_active/none'') =
      cached_number cache' (''sites/'' @ site @ ''/devices/der_dispatch/measurements/event_active/none'')"
    using num [OF assms(5)] by (simp add: der_topic_def)
  have recharge: "recharge_requested_w (Distribute d) device_id requested site cache =
      recharge_requested_w (Distribute d) device_id requested site cache'"
    unfolding recharge_requested_w_def soc event ..
  have energize: "energize_target_w x site cache = energize_target_w x site cache'" for x
    using num [OF assms(6)] by (simp add: energize_target_w_def energize_topic_def der_topic_def)
  have target: "module_target ?cfg now dt requested site cache t = module_target ?cfg now dt requested site cache' t"
  proof (cases guard)
    case (Some g)
    let ?g = "substituted_guard site g"
    have T: "site_topic site (eg_import_limit_topic ?g) \<in> T" "site_topic site (eg_export_limit_topic ?g) \<in> T"
      "site_topic site (eg_active_power_topic ?g) \<in> T"
      using assms(3) [OF Some] substitute_twice [OF assms(1)]
      by (auto simp: guard_topics_def substituted_guard_def site_topic_substitute)
    have poi: "poi_reading (substituted_guard site g) site cache = poi_reading (substituted_guard site g) site cache'"
      using assms(3) [OF Some] same
      by (auto simp: poi_reading_def substituted_guard_def guard_topics_def site_topic_substitute split: option.split)
    have "guarded_target ?cfg ?g now dt requested site cache t = guarded_target ?cfg ?g now dt requested site cache' t"
      unfolding guarded_target_def envelope_task_config.simps recharge poi T [THEN num] ..
    then show ?thesis using Some by (simp add: module_target_def)
  qed (simp add: module_target_def)
  have shares: "compute_shares now d x site cache locked = compute_shares now d x site cache' locked" for x
    by (rule cache_reader.only_reads [OF compute_shares_reads [OF assms(2)] same])
  show "plan_tick ?cfg now dt requested site cache locked t = plan_tick ?cfg now dt requested site cache' locked t"
    unfolding plan_tick_def target energize by (simp add: shares cong: outcome.case_cong)
qed

lemma tick_once_reads:
  assumes "cache_reader T (\<lambda>cache. plan_tick cfg now dt
      (case requested_of last_requested (tc_device_id cfg) (tc_channel_key cfg) of Some v \<Rightarrow> v | None \<Rightarrow> 0)
      site cache (dv_locked dv) t)"
  shows "cache_reader T (\<lambda>cache. tick_once w cfg now landed_at dt site cache last_requested dv creds t)"
  unfolding tick_once_def Let_def by (rule cache_reader_map [OF assms])

lemma spare_w_reads:
  assumes "\<And>d. d \<in> set modules \<Longrightarrow> share_topics site d \<subseteq> T \<and>
      (\<forall>raw. d_active_power_topic d = Some raw \<longrightarrow> substitute_site_id raw site \<in> T)"
  shows "cache_reader T (\<lambda>cache. spare_w now modules poi site cache locked)"
proof (rule cache_readerI)
  fix cache cache' :: input_cache
  assume same: "\<And>t. t \<in> T \<Longrightarrow> cache t = cache' t"
  have "module_spare_w now d site cache locked = module_spare_w now d site cache' locked" if "d \<in> set modules" for d
  proof -
    have "compute_shares now d x site cache locked = compute_shares now d x site cache' locked" for x
      by (rule cache_reader.only_reads [OF compute_shares_reads same]) (use assms [OF that] in auto)
    moreover have "cached_number cache (substitute_site_id raw site) = cached_number cache' (substitute_site_id raw site)"
      if "d_active_power_topic d = Some raw" for raw
      using assms [OF \<open>d \<in> set modules\<close>] that same by (simp add: cached_number_def)
    ultimately show ?thesis by (simp add: module_spare_w_def split: option.split)
  qed
  then show "spare_w now modules poi site cache locked = spare_w now modules poi site cache' locked"
    unfolding spare_w_def by (intro arg_cong [where f = sum_list] map_cong) simp_all
qed

lemma shed_round_reads:
  assumes "cache_reader T (\<lambda>cache. spare_w now (sh_storage cfg) (sh_poi_topic cfg) (sh_site_id cfg) cache (dv_locked dv))"
    and "{sh_poi_topic cfg, sh_import_limit_topic cfg, sh_export_limit_topic cfg} \<subseteq> T"
  shows "cache_reader T (\<lambda>cache. shed_round w now cfg cache requested dv st)"
proof (rule cache_readerI)
  fix cache cache' :: input_cache
  assume same: "\<And>t. t \<in> T \<Longrightarrow> cache t = cache' t"
  have spare: "spare_w now (sh_storage cfg) (sh_poi_topic cfg) (sh_site_id cfg) cache (dv_locked dv) =
      spare_w now (sh_storage cfg) (sh_poi_topic cfg) (sh_site_id cfg) cache' (dv_locked dv)"
    by (rule cache_reader.only_reads [OF assms(1) same])
  have "shed_inputs cfg cache x last_poi = shed_inputs cfg cache' x last_poi" for x last_poi
    using assms(2) same by (simp add: shed_inputs_def cached_reading_def)
  then show "shed_round w now cfg cache requested dv st = shed_round w now cfg cache' requested dv st"
    unfolding shed_round_def spare by (simp only: Let_def)
qed

lemma execute_setpoint_reads:
  assumes "\<And>d. binding = Distribute d \<Longrightarrow> share_topics site d \<subseteq> T"
  shows "cache_reader T (\<lambda>cache. execute_setpoint w now binding value device_id key site channels trusts locked creds cache)"
proof (cases binding)
  case (Distribute d)
  show ?thesis
    unfolding execute_setpoint_def Distribute protocol_binding.case dispatch_distribute_def
    by (rule cache_reader_map [OF compute_shares_reads [OF assms [OF Distribute]]])
qed (auto simp: execute_setpoint_def intro: cache_readerI)

lemma handle_command_reads:
  assumes "\<And>i key d. channel_lookup (dv_channels dv) i key = Some (Distribute d) \<Longrightarrow> share_topics site d \<subseteq> T"
  shows "cache_reader T (\<lambda>cache. handle_command w now accepts parse_frame site dv creds cache topic payload g)"
proof (rule cache_readerI)
  fix cache cache' :: input_cache
  assume same: "\<And>t. t \<in> T \<Longrightarrow> cache t = cache' t"
  let ?run = "\<lambda>cache. handle_command w now accepts parse_frame site dv creds cache topic payload g"
  show "?run cache = ?run cache'"
  proof (cases "course_of accepts parse_frame site dv topic payload")
    case (Executed b cmd f)
    let ?key = "command_key (ct_verb cmd) (ct_target cmd)"
    let ?ex = "\<lambda>cache. execute_setpoint w now b (cf_value f) (ct_device_id cmd) ?key site
      (dv_channels dv) (dv_trust dv) (dv_locked dv) creds cache"
    have "?ex cache = ?ex cache'"
      by (rule cache_reader.only_reads [OF execute_setpoint_reads same])
        (use assms course_Executed(2) [OF Executed] in auto)
    then obtain r s where "?ex cache (g_south g) = (r, s)" "?ex cache' (g_south g) = (r, s)" by fastforce
    note ex = this
    obtain prev req where rq: "record_request (g_requested g) (ct_device_id cmd) ?key (cf_value f) = (prev, req)" by fastforce
    show ?thesis
      unfolding handle_command_executed [OF Executed ex(1) rq] handle_command_executed [OF Executed ex(2) rq] ..
  qed (auto simp: handle_command_def course_of_def publish_event_def Let_def split: option.splits if_splits)
qed

lemma modules_with_bounds_reads:
  assumes "\<And>i commands d. (i, commands) \<in> set channels \<Longrightarrow> map_of commands CHANNEL_KEY = Some (Distribute d) \<Longrightarrow>
      soc_topic site i \<in> T \<and> share_topics site d \<subseteq> T"
  shows "cache_reader T (\<lambda>cache. modules_with_bounds now channels cache site target locked)"
proof (rule cache_readerI)
  fix cache cache' :: input_cache
  assume same: "\<And>t. t \<in> T \<Longrightarrow> cache t = cache' t"
  have room: "module_headroom now d lo hi target site cache locked = module_headroom now d lo hi target site cache' locked"
    if "share_topics site d \<subseteq> T" for d lo hi
  proof -
    have "headroom now c target site cache = headroom now c target site cache'" if "c \<in> set (d_children d)" for c
      by (rule cache_reader.only_reads [OF headroom_reads same])
        (use that \<open>share_topics site d \<subseteq> T\<close> in \<open>auto simp: share_topics_def\<close>)
    then have "map (\<lambda>c. headroom now c target site cache) (filter (\<lambda>c. ca_device_id c \<notin> locked) (d_children d)) =
        map (\<lambda>c. headroom now c target site cache') (filter (\<lambda>c. ca_device_id c \<notin> locked) (d_children d))" by simp
    then show ?thesis unfolding module_headroom_def by (simp only:)
  qed
  show "modules_with_bounds now channels cache site target locked = modules_with_bounds now channels cache' site target locked"
    using assms
  proof (induction channels)
    case (Cons x rest)
    obtain i commands where x: "x = (i, commands)" by force
    have rest: "modules_with_bounds now rest cache site target locked = modules_with_bounds now rest cache' site target locked"
      by (rule Cons.IH) (use Cons.prems in auto)
    show ?case
    proof (cases "\<exists>d. map_of commands CHANNEL_KEY = Some (Distribute d)")
      case True
      then obtain d where d: "map_of commands CHANNEL_KEY = Some (Distribute d)" ..
      with Cons.prems x have "soc_topic site i \<in> T" "share_topics site d \<subseteq> T" by auto
      then show ?thesis using same d x
        by (simp add: rest room [OF \<open>share_topics site d \<subseteq> T\<close>] read_number_def split: option.split)
    next
      case False
      then show ?thesis using x rest by (auto split: option.split protocol_binding.split)
    qed
  qed simp
qed

lemma site_tick_reads:
  assumes cmd: "\<And>i key d. channel_lookup (dv_channels dv) i key = Some (Distribute d) \<Longrightarrow> share_topics site d \<subseteq> T"
    and mods: "\<And>i commands d. (i, commands) \<in> set (dv_channels dv) \<Longrightarrow> map_of commands CHANNEL_KEY = Some (Distribute d) \<Longrightarrow>
      soc_topic site i \<in> T \<and> share_topics site d \<subseteq> T"
    and "sd_site_id cfg = site"
    and "{pt_event_active (sd_topics cfg), pt_target_present (sd_topics cfg), pt_target (sd_topics cfg)} \<subseteq> T"
  shows "cache_reader T (\<lambda>cache. site_tick w now accepts parse_frame frame stamp cfg cache dv st)"
proof (rule cache_readerI)
  fix cache cache' :: input_cache
  assume same: "\<And>t. t \<in> T \<Longrightarrow> cache t = cache' t"
  have posture: "posture_of (sd_topics cfg) cache = posture_of (sd_topics cfg) cache'"
  proof -
    have num: "read_number cache t = read_number cache' t" if "t \<in> T" for t
      using same [OF that] by (simp add: read_number_def)
    have T: "pt_event_active (sd_topics cfg) \<in> T" "pt_target_present (sd_topics cfg) \<in> T" "pt_target (sd_topics cfg) \<in> T"
      using assms(4) by simp_all
    show ?thesis unfolding posture_of_def T [THEN num] ..
  qed
  have "handle_command w now accepts parse_frame (sd_site_id cfg) dv (sd_creds cfg) cache topic payload g =
      handle_command w now accepts parse_frame (sd_site_id cfg) dv (sd_creds cfg) cache' topic payload g" for topic payload g
    unfolding assms(3) by (rule cache_reader.only_reads [OF handle_command_reads same]) (rule cmd)
  then have send: "dispatch_one w now accepts parse_frame frame stamp cfg cache dv =
      dispatch_one w now accepts parse_frame frame stamp cfg cache' dv"
    by (intro ext) (simp add: dispatch_one_def)
  have "modules_with_bounds now (dv_channels dv) cache site target (dv_locked dv) =
      modules_with_bounds now (dv_channels dv) cache' site target (dv_locked dv)" for target
    by (rule cache_reader.only_reads [OF modules_with_bounds_reads same]) (rule mods)
  then have shares: "site_shares now (dv_channels dv) cache (sd_site_id cfg) target (dv_locked dv) =
      site_shares now (dv_channels dv) cache' (sd_site_id cfg) target (dv_locked dv)" for target
    by (simp add: site_shares_def assms(3))
  show "site_tick w now accepts parse_frame frame stamp cfg cache dv st = site_tick w now accepts parse_frame frame stamp cfg cache' dv st"
    unfolding site_tick_def posture send shares ..
qed

lemma synthetic_tick_reads:
  assumes "set (computation_topics (sy_computation cfg)) \<subseteq> T"
  shows "cache_reader T (\<lambda>cache. synthetic_tick now cfg cache)"
proof (rule cache_readerI)
  fix cache cache' :: input_cache
  assume same: "\<And>t. t \<in> T \<Longrightarrow> cache t = cache' t"
  have fresh: "fresh now cache t limits = fresh now cache' t limits" if "t \<in> T" for t limits
    using same [OF that] by (simp add: fresh_def)
  have inputs: "set topics \<subseteq> T \<Longrightarrow> gather_inputs now topics cache limits = gather_inputs now topics cache' limits" for topics limits
    by (induction topics) (simp_all add: fresh split: option.split)
  have pairs: "set (map fst ps) \<subseteq> T \<Longrightarrow> gather_pairs now ps cache limits = gather_pairs now ps cache' limits" for ps limits
  proof (induction ps)
    case (Cons p ps)
    then show ?case by (cases p) (simp add: fresh split: option.split)
  qed simp
  show "synthetic_tick now cfg cache = synthetic_tick now cfg cache'"
    using assms by (cases "sy_computation cfg") (simp_all add: synthetic_tick_def inputs pairs)
qed

lemma channels_of_origin:
  "map_of (channels_of cs) key = Some b \<Longrightarrow> \<exists>(n, c) \<in> set cs. cs_binding c = b"
proof (induction cs rule: rev_induct)
  case Nil
  then show ?case by (simp add: channels_of_def)
next
  case (snoc x cs)
  then show ?case by (cases x) (auto simp: map_of_channels_of_snoc split: if_splits)
qed

lemma device_channels_origin:
  assumes "(i, cmds) \<in> set (device_channels spec)" and "map_of cmds key = Some b"
  shows "\<exists>source. (i, source) \<in> set (command_sources spec) \<and> cs_binding source = b"
  using assms channels_of_origin by (fastforce simp: device_channels_def command_sources_def)

lemma channel_lookup_origin:
  assumes "channel_lookup (device_channels spec) i key = Some b"
  shows "\<exists>source. (i, source) \<in> set (command_sources spec) \<and> cs_binding source = b"
proof -
  from assms obtain cmds where "map_of (device_channels spec) i = Some cmds" "map_of cmds key = Some b"
    by (auto simp: channel_lookup_def Option.bind_eq_Some_conv)
  then show ?thesis by (intro device_channels_origin map_of_SomeD)
qed

lemma spawn_task_set_synthetic:
  assumes "spawn_task_set v spec site creds = Ok ts" and "cfg \<in> set (ts_synthetic ts)"
    and "input_topics spec site = Ok topics"
  shows "set (computation_topics (sy_computation cfg)) \<subseteq> set topics"
proof -
  from assms(1,2) obtain devices dt where "collect_outcome (map (spawn_device v spec site) (x_protocol_source spec)) = Ok devices"
    and "dt \<in> set devices" "cfg \<in> set (dt_synthetics dt)"
    by (auto simp: spawn_task_set_def Let_def)
  from collect_outcome_origin [OF this(1,2)] this(3) obtain device_id channels where
    dev: "(device_id, channels) \<in> set (x_protocol_source spec)"
    and "\<exists>cfgs. device_synthetics spec site device_id channels = Ok cfgs \<and> cfg \<in> set cfgs"
    by (auto simp: spawn_device_def)
  then obtain cfgs where "collect_outcome (map (\<lambda>(measurement, source). case ps_binding source of
         Synthetic b \<Rightarrow> spawn_synthetic spec b (build_topic site device_id measurement (ps_unit source))
           (clamp_poll_rate (ps_poll_rate_hz source)) site
       | _ \<Rightarrow> Ok None) channels) = Ok cfgs" "Some cfg \<in> set cfgs"
    by (auto simp: device_synthetics_def elem_set)
  from collect_outcome_origin [OF this] obtain name source b where
    src: "(name, source) \<in> set channels" "ps_binding source = Synthetic b"
    and "spawn_synthetic spec b (build_topic site device_id name (ps_unit source)) (clamp_poll_rate (ps_poll_rate_hz source)) site = Ok (Some cfg)"
    by (auto split: protocol_binding.splits)
  then have "set (computation_topics (sy_computation cfg)) \<subseteq> set (synthetic_topics site source)"
    by (auto simp: spawn_synthetic_def computation_of_def synthetic_topics_def split: if_splits option.splits outcome.splits)
  then show ?thesis using synthetic_subscribed [OF assms(3) dev src(1)] by blast
qed

definition plain_parents :: "asyncapi_spec \<Rightarrow> bool" where
  "plain_parents spec \<longleftrightarrow> list_all (\<lambda>device_id. CHR ''{'' \<notin> set device_id) (distribute_parent_device_ids spec)"

lemma distribute_parent:
  assumes "(device_id, source) \<in> set (command_sources spec)" and "cs_binding source = Distribute d"
  shows "device_id \<in> set (distribute_parent_device_ids spec)"
  using assms by (force simp: command_sources_def distribute_parent_device_ids_def list_ex_iff)

lemma parent_soc:
  assumes "input_topics spec site = Ok topics" and "plain_parents spec"
    and "(device_id, source) \<in> set (command_sources spec)" and "cs_binding source = Distribute d"
  shows "soc_topic site device_id \<in> set topics"
  using parent_subscribed [OF assms(1,3,4)] distribute_parent [OF assms(3,4)] assms(2)
  by (simp add: plain_parents_def list_all_iff)

lemma envelope_task_reads:
  assumes "spawn_task_set v spec site creds = Ok ts" and "input_topics spec site = Ok topics"
    and "plain_site site" and "plain_parents spec" and "cfg \<in> set (ts_envelope ts)"
  shows "cache_reader (set topics) (\<lambda>cache. tick_once w cfg now landed_at dt site cache requested dv creds' t)"
proof (rule spawn_task_set_envelope [OF assms(1,5)], rule tick_once_reads)
  fix device_id source d guard
  assume src: "(device_id, source) \<in> set (command_sources spec)" "cs_binding source = Distribute d"
    and guard: "envelope_guard_config d = Ok guard"
    and cfg: "cfg = \<lparr>tc_device_id = device_id, tc_channel_key = command_key (cs_verb source) (cs_target source),
       tc_guard = map_option (substituted_guard site) guard, tc_binding = Distribute d\<rparr>"
  show "cache_reader (set topics) (\<lambda>cache. plan_tick cfg now dt
      (case requested_of requested (tc_device_id cfg) (tc_channel_key cfg) of Some v \<Rightarrow> v | None \<Rightarrow> 0) site cache (dv_locked dv) t)"
    unfolding cfg
    by (rule plan_tick_reads)
      (use assms(3) guard distribute_subscribed [OF assms(2) src] parent_soc [OF assms(2,4) src]
        der_topic_subscribed [OF assms(2)] in auto)
qed

lemma guard_active_power:
  "envelope_guard_config d = Ok (Some guard) \<Longrightarrow> d_active_power_topic d = Some (eg_active_power_topic guard)"
  by (cases "d_power_min d"; cases "d_power_max d"; cases "d_import_limit_topic d"; cases "d_export_limit_topic d";
      cases "d_active_power_topic d")
    (auto simp: envelope_guard_config_def split: option.splits)

lemma shed_task_reads:
  assumes "spawn_task_set v spec site creds = Ok ts" and "input_topics spec site = Ok topics" and "cfg \<in> set (ts_shed ts)"
  shows "cache_reader (set topics) (\<lambda>cache. shed_round w now cfg cache requested dv st)"
proof (rule spawn_task_set_shed [OF assms(1,3)], rule shed_round_reads)
  fix device_id source p poi imp ex
  assume cfg: "(device_id, source) \<in> set (command_sources spec)"
    "cs_binding source = PowerCap p" "pc_poi_active_power_topic p = Some poi" "pc_import_limit_topic p = Some imp"
    "pc_export_limit_topic p = Some ex" "sh_poi_topic cfg = substitute_site_id poi site"
    "sh_import_limit_topic cfg = substitute_site_id imp site" "sh_export_limit_topic cfg = substitute_site_id ex site"
    "sh_site_id cfg = site"
  show "{sh_poi_topic cfg, sh_import_limit_topic cfg, sh_export_limit_topic cfg} \<subseteq> set topics"
    using command_topics_subscribed [OF assms(2) cfg(1)] cfg(2-) by (auto simp: command_topics_def)
  show "cache_reader (set topics) (\<lambda>cache. spare_w now (sh_storage cfg) (sh_poi_topic cfg) (sh_site_id cfg) cache (dv_locked dv))"
    unfolding cfg(9)
  proof (rule spare_w_reads)
    fix d assume "d \<in> set (sh_storage cfg)"
    then obtain device_id source guard where src: "(device_id, source) \<in> set (command_sources spec)"
      "cs_binding source = Distribute d" "envelope_guard_config d = Ok (Some guard)"
      using spawn_task_set_storage [OF assms(1,3)] by metis
    have "d_active_power_topic d = Some (eg_active_power_topic guard)"
      using src(3) by (rule guard_active_power)
    then show "share_topics site d \<subseteq> set topics \<and>
        (\<forall>raw. d_active_power_topic d = Some raw \<longrightarrow> substitute_site_id raw site \<in> set topics)"
      using distribute_subscribed [OF assms(2) src(1,2)] src(3) by (auto simp: guard_topics_def)
  qed
qed

lemma spawn_task_set_site:
  assumes "spawn_task_set v spec site creds = Ok ts"
  shows "sd_site_id (ts_site ts) = site" "pt_event_active (sd_topics (ts_site ts)) = der_topic site ''event_active/none''"
    "pt_target_present (sd_topics (ts_site ts)) = der_topic site ''target_setpoint_present/none''"
    "pt_target (sd_topics (ts_site ts)) = der_topic site ''target_active_power/watts''"
    "sd_creds (ts_site ts) = creds" "ap_source_topics (ts_actual ts) = collect_der_dispatch_active_power_topics spec site"
  using assms by (auto simp: spawn_task_set_def Let_def)

lemma site_task_reads:
  assumes "spawn_task_set v spec site creds = Ok ts" and "input_topics spec site = Ok topics"
    and "plain_parents spec" and "dv_channels dv = device_channels spec"
  shows "cache_reader (set topics) (\<lambda>cache. site_tick w now accepts parse_frame frame stamp (ts_site ts) cache dv mg)"
proof (rule site_tick_reads)
  show "share_topics site d \<subseteq> set topics" if "channel_lookup (dv_channels dv) i key = Some (Distribute d)" for i key d
    using channel_lookup_origin [OF that [unfolded assms(4)]] distribute_subscribed(1) [OF assms(2)] by auto
  show "soc_topic site i \<in> set topics \<and> share_topics site d \<subseteq> set topics"
    if "(i, cmds) \<in> set (dv_channels dv)" "map_of cmds CHANNEL_KEY = Some (Distribute d)" for i cmds d
    using device_channels_origin [OF that(1) [unfolded assms(4)] that(2)] distribute_subscribed(1) [OF assms(2)]
      parent_soc [OF assms(2,3)] by auto
  show "{pt_event_active (sd_topics (ts_site ts)), pt_target_present (sd_topics (ts_site ts)), pt_target (sd_topics (ts_site ts))} \<subseteq> set topics"
    unfolding spawn_task_set_site [OF assms(1)] using der_topic_subscribed [OF assms(2)] by blast
qed (rule spawn_task_set_site [OF assms(1)])

lemma actual_task_reads:
  assumes "spawn_task_set v spec site creds = Ok ts" and "input_topics spec site = Ok topics"
  shows "cache_reader (set topics) (\<lambda>cache. actual_power_tick (ts_actual ts) cache)"
proof (rule cache_readerI)
  fix cache cache' :: input_cache
  assume same: "\<And>t. t \<in> set topics \<Longrightarrow> cache t = cache' t"
  have "add_cached acc ts cache = add_cached acc ts cache'" if "set ts \<subseteq> set topics" for acc ts
    using that by (induction ts arbitrary: acc) (auto simp: same read_number_def split: option.split)
  moreover have "set (ap_source_topics (ts_actual ts)) \<subseteq> set topics"
    using assms(2) by (auto simp: spawn_task_set_site [OF assms(1)] input_topics_def)
  ultimately show "actual_power_tick (ts_actual ts) cache = actual_power_tick (ts_actual ts) cache'"
    by (simp add: actual_power_tick_def sum_cached_def)
qed

text \<open>
  (C9) What the gateway subscribes to is all it needs: with the tasks and the input topics of one
  spec, every rebalance tick, shed round, derived channel, site tick and command does exactly what it
  would do on a cache that holds nothing but the subscribed topics. No task waits for a reading that
  the broker was never asked for.
\<close>

theorem input_topics_suffice:
  assumes "spawn_task_set v spec site creds = Ok ts" and "input_topics spec site = Ok topics"
    and "plain_site site" and "plain_parents spec" and "dv_channels dv = device_channels spec"
  shows "(\<forall>cfg \<in> set (ts_envelope ts). tick_once w cfg now landed_at dt site (cache |` set topics) requested dv creds t =
      tick_once w cfg now landed_at dt site cache requested dv creds t) \<and>
    (\<forall>cfg \<in> set (ts_shed ts). shed_round w now cfg (cache |` set topics) requested dv st =
      shed_round w now cfg cache requested dv st) \<and>
    (\<forall>cfg \<in> set (ts_synthetic ts). synthetic_tick now cfg (cache |` set topics) = synthetic_tick now cfg cache) \<and>
    actual_power_tick (ts_actual ts) (cache |` set topics) = actual_power_tick (ts_actual ts) cache \<and>
    site_tick w now accepts parse_frame frame stamp (ts_site ts) (cache |` set topics) dv mg =
      site_tick w now accepts parse_frame frame stamp (ts_site ts) cache dv mg \<and>
    handle_command w now accepts parse_frame site dv creds (cache |` set topics) topic payload g =
      handle_command w now accepts parse_frame site dv creds cache topic payload g"
proof (intro conjI ballI)
  have share: "share_topics site d \<subseteq> set topics" if "channel_lookup (dv_channels dv) i key = Some (Distribute d)" for i key d
    using channel_lookup_origin [OF that [unfolded assms(5)]] distribute_subscribed(1) [OF assms(2)] by auto
  show "handle_command w now accepts parse_frame site dv creds (cache |` set topics) topic payload g =
      handle_command w now accepts parse_frame site dv creds cache topic payload g"
    by (rule cache_reader.subscribed_suffices [OF handle_command_reads [OF share]])
qed (rule cache_reader.subscribed_suffices,
    (rule envelope_task_reads [OF assms(1-4)] shed_task_reads [OF assms(1,2)] actual_task_reads [OF assms(1,2)]
      synthetic_tick_reads [OF spawn_task_set_synthetic [OF assms(1) _ assms(2)]] site_task_reads [OF assms(1,2,4,5)]; assumption?))+

section \<open>A small site\<close>

definition ex_command :: "protocol_binding \<Rightarrow> command_source" where
  "ex_command b = \<lparr>cs_verb = ''set'', cs_target = ''active_power'', cs_unit = ''watts'', cs_binding = b\<rparr>"

definition ex_spec :: asyncapi_spec where
  "ex_spec = \<lparr>info_version = ''1'', x_protocol_source = [], x_command_source = [(''m'', [(''power'', ex_command (Distribute ex_guarded))])],
     x_heartbeat_source = [], x_device_trust = [], x_schemas = []\<rparr>"

definition ex_topics :: "string list" where
  "ex_topics = (case input_topics ex_spec ''site-1'' of Ok ts \<Rightarrow> ts | _ \<Rightarrow> [])"

definition ex_tasks :: task_set where
  "ex_tasks = (case spawn_task_set (e_validator ex_env) ex_spec ''site-1'' None of Ok ts \<Rightarrow> ts | _ \<Rightarrow> undefined)"

lemma ex_guarded_config: "\<exists>g. envelope_guard_config ex_guarded = Ok (Some g)"
  by (simp add: envelope_guard_config_def ex_guarded_def from_secs_f64_def)

lemma ex_spec_runs:
  "input_topics ex_spec ''site-1'' = Ok ex_topics"
  "spawn_task_set (e_validator ex_env) ex_spec ''site-1'' None = Ok ex_tasks"
  "length (ts_envelope ex_tasks) = 1"
proof -
  obtain g where g: "envelope_guard_config ex_guarded = Ok (Some g)" using ex_guarded_config ..
  have c: "command_sources ex_spec = [(''m'', ex_command (Distribute ex_guarded))]"
    by (simp add: command_sources_def ex_spec_def)
  have "\<exists>ts. input_topics ex_spec ''site-1'' = Ok ts"
    by (simp add: input_topics_def collect_distribute_input_topics_def c command_topics_def ex_command_def g)
  then show "input_topics ex_spec ''site-1'' = Ok ex_topics" by (auto simp: ex_topics_def)
  have "\<exists>ts. spawn_task_set (e_validator ex_env) ex_spec ''site-1'' None = Ok ts \<and> length (ts_envelope ts) = 1"
    by (simp add: spawn_task_set_def c spawn_command_def ex_command_def g Let_def) (simp add: ex_spec_def)
  then show "spawn_task_set (e_validator ex_env) ex_spec ''site-1'' None = Ok ex_tasks" "length (ts_envelope ex_tasks) = 1"
    by (auto simp: ex_tasks_def)
qed

theorem input_topics_suffice_witness:
  "let dv = \<lparr>dv_channels = device_channels ex_spec, dv_trust = Map.empty, dv_locked = {}\<rparr>; cfg = hd (ts_envelope ex_tasks) in
   tick_once (ex_world 0) cfg 0 0 0 ''site-1'' (ex_cache |` set ex_topics) Map.empty dv None task_new =
   tick_once (ex_world 0) cfg 0 0 0 ''site-1'' ex_cache Map.empty dv None task_new"
proof -
  have "plain_site ''site-1''" "plain_parents ex_spec"
    by (simp_all add: plain_site_def plain_parents_def distribute_parent_device_ids_def ex_spec_def ex_command_def)
  note suffice = input_topics_suffice [OF ex_spec_runs(2,1) this]
  have "hd (ts_envelope ex_tasks) \<in> set (ts_envelope ex_tasks)" using ex_spec_runs(3) by (intro hd_in_set) auto
  moreover have "dv_channels \<lparr>dv_channels = device_channels ex_spec, dv_trust = Map.empty, dv_locked = {}\<rparr> = device_channels ex_spec"
    by simp
  ultimately show ?thesis
    unfolding Let_def by (intro suffice [THEN conjunct1, THEN bspec])
qed

end
