(* ===== verification/Lifecycle.thy ===== *)
theory Lifecycle
  imports Task_Set
begin

text \<open>
  The life of a gateway: the fetches from device-api (\<^verbatim>\<open>http/client.rs\<close>), the lockouts and their
  refresher (\<^verbatim>\<open>loto/\<close>), the subscriber that sorts incoming messages (\<^verbatim>\<open>mqtt/subscriber.rs\<close>), and
  boot, reconcile and shutdown of \<^verbatim>\<open>app::run\<close>. Its tasks run interleaved: \<open>gateway_step\<close> is one turn
  of any of them, and leaves to the environment which, when, and how peers and broker answer.
\<close>

section \<open>Fetching from device-api\<close>

text \<open>What one GET meets: no answer, or a status and the reading of its body.\<close>

datatype reply = Unreachable | Reply nat "string outcome"

datatype attempt = Got string | Transient err | Permanent err

definition get_once :: "reply \<Rightarrow> attempt" where
  "get_once r = (case r of
     Unreachable \<Rightarrow> Transient (E ''GET failed'' [])
   | Reply status body \<Rightarrow>
       if 500 \<le> status \<and> status < 600 then Transient (E ''server error'' [W status])
       else if 400 \<le> status \<and> status < 500 then Permanent (E ''client error'' [W status])
       else (case body of Ok text \<Rightarrow> Got text | Err e \<Rightarrow> Permanent e | Abort a \<Rightarrow> Permanent (E ''body'' [])))"

text \<open>\<^verbatim>\<open>backoff::future::retry\<close> on the attempts that fit into its 60 s, the first of which is always made.\<close>

fun retry_get :: "attempt \<Rightarrow> attempt list \<Rightarrow> string outcome" where
  "retry_get (Got text) rest = Ok text"
| "retry_get (Permanent e) rest = Err e"
| "retry_get (Transient e) [] = Err e"
| "retry_get (Transient e) (a # rest) = retry_get a rest"

text \<open>\<open>replies\<close> is \<open>None\<close> where the HTTP client cannot be built.\<close>

definition get_with_backoff :: "(string \<Rightarrow> (reply \<times> reply list) option) \<Rightarrow> string \<Rightarrow> string outcome" where
  "get_with_backoff replies url = (case replies url of
     None \<Rightarrow> Err (Ctx ''build reqwest client'' [] (E ''client'' []))
   | Some (first, rest) \<Rightarrow> with_context (retry_get (get_once first) (map get_once rest)) ''GET'' [S url])"

text \<open>\<open>from_str\<close> is \<^verbatim>\<open>serde_json::from_str::<LotoResponse>\<close>, narrowed to the list it holds.\<close>

definition parse_loto :: "(string \<Rightarrow> string list outcome) \<Rightarrow> string \<Rightarrow> string set outcome" where
  "parse_loto from_str body =
     bind_outcome (with_context (from_str body) ''parse /loto'' []) (\<lambda>locked_devices. Ok (set locked_devices))"

definition fetch_loto :: "(string \<Rightarrow> string outcome) \<Rightarrow> (string \<Rightarrow> string list outcome) \<Rightarrow> string \<Rightarrow> string set outcome" where
  "fetch_loto get from_str base_url = bind_outcome (get (base_url @ ''/loto'')) (parse_loto from_str)"

definition apply_locks :: "string set \<Rightarrow> string set \<Rightarrow> bool \<times> string set" where
  "apply_locks locked newer = (if locked = newer then (False, locked) else (True, newer))"

text \<open>One round of the refresher; a failed fetch keeps the set.\<close>

definition refresh_locks :: "string set outcome \<Rightarrow> string set \<Rightarrow> string set" where
  "refresh_locks fetched locked = (case fetched of Ok newer \<Rightarrow> snd (apply_locks locked newer) | _ \<Rightarrow> locked)"

section \<open>The state of a gateway\<close>

text \<open>
  A task set in progress: what each loop keeps between its turns, \<open>None\<close> once it panicked. Word
  heartbeats keep their word in \<^verbatim>\<open>WORDS\<close>, derived channels and the site tasks keep nothing.
\<close>

record running =
  ru_tasks :: task_set
  ru_envelope :: "task option list"
  ru_shed :: "(shed_controller \<times> instant option) option list"
  ru_counters :: "u16 option list"
  ru_pollers :: "poll_state option list"

definition poll_new :: "instant \<Rightarrow> point_cfg list \<Rightarrow> poll_state" where
  "poll_new now points = \<lparr>po_next = replicate (length points) now, po_sessions = Map.empty, po_fetched = Map.empty,
     po_south = south_init, po_gets = [], po_published = []\<rparr>"

definition start :: "instant \<Rightarrow> task_set \<Rightarrow> running" where
  "start now ts = \<lparr>ru_tasks = ts, ru_envelope = map (\<lambda>_. Some task_new) (ts_envelope ts),
     ru_shed = map (\<lambda>c. Some (shed_new (sh_control c), None)) (ts_shed ts),
     ru_counters = map (\<lambda>_. Some 0) (ts_counters ts),
     ru_pollers = map (\<lambda>(points, _). Some (poll_new now points)) (ts_pollers ts)\<rparr>"

text \<open>
  Where the loop of \<^verbatim>\<open>app::run\<close> stands: waiting with its tasks running; tasks joined and the spec
  being fetched; and, for an accepted spec, after the swap of the command channels and after the swap
  of the trust, each its own lock and its own await.
\<close>

datatype stage = Waiting running | Fetching | Swapped asyncapi_spec | Trusted asyncapi_spec

record app =
  a_spec :: asyncapi_spec
  a_stage :: stage
  a_devices :: devices
  a_cache :: input_cache
  a_gateway :: gateway
  a_event :: event_memory
  a_subscriptions :: subscriptions
  a_session :: session
  a_listening :: bool
  a_beacons :: u64
  a_seen :: u64
  a_loto_beacons :: u64
  a_loto_seen :: u64

section \<open>Messages\<close>

fun contains :: "string \<Rightarrow> string \<Rightarrow> bool" where
  "contains pat [] = (pat = [])"
| "contains pat (c # cs) = (take (length pat) (c # cs) = pat \<or> contains pat cs)"

text \<open>
  One message of the subscriber's stream. A command that fails to publish its events is only
  logged; one that panics takes the subscriber with it.
\<close>

definition receive :: "world \<Rightarrow> instant \<Rightarrow> (dispatch_event \<Rightarrow> bool) \<Rightarrow> (string \<Rightarrow> command_frame option) \<Rightarrow> (string \<Rightarrow> json option) \<Rightarrow> string \<Rightarrow> gateway_credentials option \<Rightarrow> string \<Rightarrow> string \<Rightarrow> app \<Rightarrow> app" where
  "receive w now accepts parse_frame parse_sample site_id creds topic payload a =
     (if topic = TOPIC_TOPOLOGY_CHANGED then a\<lparr>a_beacons := a_beacons a + 1\<rparr>
      else if topic = TOPIC_LOTO_CHANGED then a\<lparr>a_loto_beacons := a_loto_beacons a + 1\<rparr>
      else if contains ''/commands/'' topic then
        (let (r, g) = handle_command w now accepts parse_frame site_id (a_devices a) creds (a_cache a) topic payload (a_gateway a)
         in a\<lparr>a_gateway := g, a_listening := (case r of Abort _ \<Rightarrow> False | _ \<Rightarrow> a_listening a)\<rparr>)
      else a\<lparr>a_cache := cache_sample parse_sample now topic payload (a_cache a)\<rparr>)"

section \<open>Connecting to the broker\<close>

text \<open>The password is the environment's, else the secret of the customer's stack.\<close>

definition gateway_password :: "(string \<rightharpoonup> string) \<Rightarrow> string outcome \<Rightarrow> string outcome" where
  "gateway_password env secret = (case env ''MQTT_GATEWAY_PASSWORD'' of
     Some pw \<Rightarrow> Ok pw
   | None \<Rightarrow> with_context secret ''MQTT_GATEWAY_PASSWORD unset; broker auth requires it'' [])"

text \<open>A connect error of paho: a CONNACK code with its display, or another error.\<close>

datatype connect_error = ConnectReturn nat string | OtherError string

fun display :: "connect_error \<Rightarrow> string" where
  "display (ConnectReturn rc text) = text"
| "display (OtherError text) = text"

definition CONNACK_NOT_AUTHORIZED :: nat where
  "CONNACK_NOT_AUTHORIZED = 5"

definition classify_connect_error :: "connect_error \<Rightarrow> err" where
  "classify_connect_error e =
     (if (case e of ConnectReturn rc _ \<Rightarrow> rc = CONNACK_NOT_AUTHORIZED \<or> rc = 4 | OtherError _ \<Rightarrow> False)
      then E ''mqtt connect: not_authorized; bad credentials'' [S (display e)]
      else if contains ''Not authorized'' (display e) \<or> contains ''Bad User Name or Password'' (display e)
      then E ''mqtt connect: not_authorized; bad credentials'' [S (display e)]
      else E ''connect to broker'' [S (display e)])"

text \<open>\<open>dial\<close> is paho's client: it cannot be created, does not connect, or does.\<close>

datatype dialled = NotCreated | Refused_by connect_error | Connected

definition connect_broker :: "(string \<Rightarrow> dialled) \<Rightarrow> string \<Rightarrow> unit outcome" where
  "connect_broker dial password = (case dial password of
     NotCreated \<Rightarrow> Err (Ctx ''create mqtt client'' [] (E ''client'' []))
   | Refused_by e \<Rightarrow> Err (classify_connect_error e)
   | Connected \<Rightarrow> Ok ())"

section \<open>Boot and reconcile\<close>

definition boot :: "string outcome \<Rightarrow> (string \<Rightarrow> dialled) \<Rightarrow> asyncapi_spec outcome \<Rightarrow> string set outcome \<Rightarrow> (request \<Rightarrow> bool) \<Rightarrow> validator \<Rightarrow> instant \<Rightarrow> string \<Rightarrow> gateway_credentials option \<Rightarrow> app outcome" where
  "boot password dial fetched_spec fetched_locks answers v now site_id creds =
     bind_outcome password (\<lambda>pw.
     bind_outcome (connect_broker dial pw) (\<lambda>_.
     bind_outcome fetched_spec (\<lambda>spec.
     bind_outcome (validate_trust_creds_alignment spec creds) (\<lambda>_.
     bind_outcome (input_topics spec site_id) (\<lambda>topics.
     bind_outcome fetched_locks (\<lambda>locked.
     let subscriptions = subscriptions_new site_id topics;
         (r, session) = request_many answers (Subscribe (zip (fst (sb_current subscriptions)) (snd (sb_current subscriptions)))) Map.empty
     in bind_outcome (with_context r ''subscribe to beacon, commands and input topics'' []) (\<lambda>_.
     bind_outcome (spawn_task_set v spec site_id creds) (\<lambda>ts.
     Ok \<lparr>a_spec = spec, a_stage = Waiting (start now ts),
         a_devices = \<lparr>dv_channels = device_channels spec, dv_trust = map_of (x_device_trust spec), dv_locked = locked\<rparr>,
         a_cache = new_input_cache,
         a_gateway = \<lparr>g_south = south_init, g_requested = Map.empty, g_events = []\<rparr>,
         a_event = new_event_memory, a_subscriptions = subscriptions, a_session = session, a_listening = True,
         a_beacons = 0, a_seen = 0, a_loto_beacons = 1, a_loto_seen = 0\<rparr>))))))))"

text \<open>
  The answer to the re-fetch: a spec that does not arrive or does not fit the credentials leaves the
  gateway on the last one, whose tasks are spawned again.
\<close>

definition respawn :: "validator \<Rightarrow> instant \<Rightarrow> string \<Rightarrow> gateway_credentials option \<Rightarrow> asyncapi_spec \<Rightarrow> app \<Rightarrow> app outcome" where
  "respawn v now site_id creds spec a =
     bind_outcome (spawn_task_set v spec site_id creds) (\<lambda>ts. Ok (a\<lparr>a_spec := spec, a_stage := Waiting (start now ts)\<rparr>))"

definition refetched :: "asyncapi_spec outcome \<Rightarrow> validator \<Rightarrow> instant \<Rightarrow> string \<Rightarrow> gateway_credentials option \<Rightarrow> app \<Rightarrow> app outcome" where
  "refetched fetched v now site_id creds a = (case fetched of
     Ok newer \<Rightarrow>
       (case validate_trust_creds_alignment newer creds of
          Ok _ \<Rightarrow> Ok (a\<lparr>a_devices := (a_devices a)\<lparr>dv_channels := device_channels newer\<rparr>, a_stage := Swapped newer\<rparr>)
        | _ \<Rightarrow> respawn v now site_id creds (a_spec a) a)
   | _ \<Rightarrow> respawn v now site_id creds (a_spec a) a)"

definition swap_trust :: "asyncapi_spec \<Rightarrow> app \<Rightarrow> app" where
  "swap_trust newer a = a\<lparr>a_devices := (a_devices a)\<lparr>dv_trust := map_of (x_device_trust newer)\<rparr>, a_stage := Trusted newer\<rparr>"

text \<open>A subscription update that fails is only logged.\<close>

definition follow :: "(request \<Rightarrow> bool) \<Rightarrow> validator \<Rightarrow> instant \<Rightarrow> string \<Rightarrow> gateway_credentials option \<Rightarrow> asyncapi_spec \<Rightarrow> app \<Rightarrow> app outcome" where
  "follow answers v now site_id creds newer a =
     bind_outcome (input_topics newer site_id) (\<lambda>topics.
     let (_, sb, b) = subscriptions_update answers topics (a_subscriptions a, a_session a) in
     respawn v now site_id creds newer (a\<lparr>a_subscriptions := sb, a_session := b\<rparr>))"

section \<open>One turn of the gateway\<close>

definition on_gateway :: "(gateway \<Rightarrow> gateway) \<Rightarrow> app \<Rightarrow> app" where
  "on_gateway f a = a\<lparr>a_gateway := f (a_gateway a)\<rparr>"

text \<open>The loop of a task after its turn: its new state, or nothing after a panic.\<close>

fun survived :: "'a outcome \<Rightarrow> 'a option" where
  "survived (Ok x) = Some x"
| "survived _ = None"

definition envelope_turn :: "world \<Rightarrow> instant \<Rightarrow> instant \<Rightarrow> duration \<Rightarrow> string \<Rightarrow> gateway_credentials option \<Rightarrow> nat \<Rightarrow> task \<Rightarrow> running \<Rightarrow> app \<Rightarrow> app" where
  "envelope_turn w now landed_at dt site_id creds i t ru a =
     (let (r, s) = tick_once w (ts_envelope (ru_tasks ru) ! i) now landed_at dt site_id (a_cache a)
            (g_requested (a_gateway a)) (a_devices a) creds t (g_south (a_gateway a))
      in a\<lparr>a_gateway := (a_gateway a)\<lparr>g_south := s\<rparr>, a_stage := Waiting (ru\<lparr>ru_envelope := (ru_envelope ru)[i := survived r]\<rparr>)\<rparr>)"

definition shed_turn :: "world \<Rightarrow> instant \<Rightarrow> nat \<Rightarrow> shed_controller \<times> instant option \<Rightarrow> running \<Rightarrow> app \<Rightarrow> app" where
  "shed_turn w now i st ru a =
     (let (r, s) = shed_round w now (ts_shed (ru_tasks ru) ! i) (a_cache a) (g_requested (a_gateway a)) (a_devices a) st
            (g_south (a_gateway a))
      in a\<lparr>a_gateway := (a_gateway a)\<lparr>g_south := s\<rparr>, a_stage := Waiting (ru\<lparr>ru_shed := (ru_shed ru)[i := survived r]\<rparr>)\<rparr>)"

definition counter_turn :: "world \<Rightarrow> bool \<Rightarrow> gateway_credentials option \<Rightarrow> nat \<Rightarrow> u16 \<Rightarrow> running \<Rightarrow> app \<Rightarrow> app" where
  "counter_turn w link creds i n ru a =
     (let (c, trust) = ts_counters (ru_tasks ru) ! i;
          (r, s) = counter_round w link (dv_locked (a_devices a)) c trust creds n (g_south (a_gateway a))
      in a\<lparr>a_gateway := (a_gateway a)\<lparr>g_south := s\<rparr>, a_stage := Waiting (ru\<lparr>ru_counters := (ru_counters ru)[i := survived r]\<rparr>)\<rparr>)"

definition beat_turn :: "world \<Rightarrow> bool \<Rightarrow> gateway_credentials option \<Rightarrow> nat \<Rightarrow> running \<Rightarrow> app \<Rightarrow> app" where
  "beat_turn w link creds i ru a =
     (let (bt, trust) = ts_beats (ru_tasks ru) ! i
      in a\<lparr>a_gateway := (a_gateway a)\<lparr>g_south := beat_once w link (dv_locked (a_devices a)) bt trust creds (g_south (a_gateway a))\<rparr>\<rparr>)"

definition site_turn :: "world \<Rightarrow> instant \<Rightarrow> (dispatch_event \<Rightarrow> bool) \<Rightarrow> (string \<Rightarrow> command_frame option) \<Rightarrow> (string \<times> string \<Rightarrow> f64 \<Rightarrow> string) \<Rightarrow> (string \<Rightarrow> string \<times> string) \<Rightarrow> running \<Rightarrow> app \<Rightarrow> app" where
  "site_turn w now accepts parse_frame frame stamp ru a =
     (let (_, mem, g) = site_tick w now accepts parse_frame frame stamp (ts_site (ru_tasks ru)) (a_cache a) (a_devices a)
            (a_event a, a_gateway a)
      in a\<lparr>a_event := mem, a_gateway := g\<rparr>)"

text \<open>A poller reads through the models and words the writers share, on sessions of its own.\<close>

definition poll_turn :: "poll_env \<Rightarrow> instant \<Rightarrow> gateway_credentials option \<Rightarrow> nat \<Rightarrow> poll_state \<Rightarrow> running \<Rightarrow> app \<Rightarrow> app" where
  "poll_turn e now creds i st ru a =
     (let (points, trust) = ts_pollers (ru_tasks ru) ! i in
      case poll_due e points trust creds now (st\<lparr>po_south := g_south (a_gateway a)\<rparr>) of
        Ok st' \<Rightarrow> a\<lparr>a_gateway := (a_gateway a)\<lparr>g_south := po_south st'\<rparr>,
                    a_stage := Waiting (ru\<lparr>ru_pollers := (ru_pollers ru)[i := Some st']\<rparr>)\<rparr>
      | _ \<Rightarrow> a\<lparr>a_stage := Waiting (ru\<lparr>ru_pollers := (ru_pollers ru)[i := None]\<rparr>)\<rparr>)"

inductive gateway_step :: "validator \<Rightarrow> string \<Rightarrow> gateway_credentials option \<Rightarrow> app \<Rightarrow> app \<Rightarrow> bool" for v site creds where
  message: "a_listening a \<Longrightarrow>
    gateway_step v site creds a (receive w now accepts parse_frame parse_sample site creds topic payload a)"
| locks: "a_loto_beacons a \<noteq> a_loto_seen a \<Longrightarrow>
    gateway_step v site creds a (a\<lparr>a_loto_seen := a_loto_beacons a,
      a_devices := (a_devices a)\<lparr>dv_locked := refresh_locks fetched (dv_locked (a_devices a))\<rparr>\<rparr>)"
| envelope: "a_stage a = Waiting ru \<Longrightarrow> i < length (ru_envelope ru) \<Longrightarrow> ru_envelope ru ! i = Some t \<Longrightarrow>
    gateway_step v site creds a (envelope_turn w now landed_at dt site creds i t ru a)"
| shed: "a_stage a = Waiting ru \<Longrightarrow> i < length (ru_shed ru) \<Longrightarrow> ru_shed ru ! i = Some st \<Longrightarrow>
    gateway_step v site creds a (shed_turn w now i st ru a)"
| counter: "a_stage a = Waiting ru \<Longrightarrow> i < length (ru_counters ru) \<Longrightarrow> ru_counters ru ! i = Some n \<Longrightarrow>
    gateway_step v site creds a (counter_turn w link creds i n ru a)"
| word_beat: "a_stage a = Waiting ru \<Longrightarrow> i < length (ts_beats (ru_tasks ru)) \<Longrightarrow>
    gateway_step v site creds a (beat_turn w link creds i ru a)"
| site: "a_stage a = Waiting ru \<Longrightarrow>
    gateway_step v site creds a (site_turn w now accepts parse_frame frame stamp ru a)"
| poll: "a_stage a = Waiting ru \<Longrightarrow> i < length (ru_pollers ru) \<Longrightarrow> ru_pollers ru ! i = Some st \<Longrightarrow>
    gateway_step v site creds a (poll_turn e now creds i st ru a)"
| beacon: "a_stage a = Waiting ru \<Longrightarrow> a_beacons a \<noteq> a_seen a \<Longrightarrow>
    gateway_step v site creds a (a\<lparr>a_seen := a_beacons a, a_stage := Fetching\<rparr>)"
| fetched: "a_stage a = Fetching \<Longrightarrow> refetched (fetch_asyncapi get parse_json ty url) v now site creds a = Ok a' \<Longrightarrow>
    gateway_step v site creds a a'"
| trusted: "a_stage a = Swapped newer \<Longrightarrow> gateway_step v site creds a (swap_trust newer a)"
| followed: "a_stage a = Trusted newer \<Longrightarrow> follow answers v now site creds newer a = Ok a' \<Longrightarrow>
    gateway_step v site creds a a'"
| reconnected: "gateway_step v site creds a (a\<lparr>a_session := on_reconnect (a_subscriptions a) Map.empty\<rparr>)"

inductive reachable :: "validator \<Rightarrow> string \<Rightarrow> gateway_credentials option \<Rightarrow> app \<Rightarrow> bool" for v site creds where
  booted: "boot password dial (fetch_asyncapi get parse_json ty url) fetched_locks answers v now site creds = Ok a \<Longrightarrow> reachable v site creds a"
| turn: "reachable v site creds a \<Longrightarrow> gateway_step v site creds a a' \<Longrightarrow> reachable v site creds a'"

section \<open>Progress of the requests sent\<close>

text \<open>\<open>grows P s t\<close>: from \<open>s\<close> to \<open>t\<close> only requests that satisfy \<open>P\<close> were sent, and the sessions kept.\<close>

definition grows :: "(south_write \<Rightarrow> bool) \<Rightarrow> south \<Rightarrow> south \<Rightarrow> bool" where
  "grows P s t \<longleftrightarrow> (sessions_ok s \<longrightarrow> sessions_ok t \<and> (\<exists>l. sent t = sent s @ l \<and> (\<forall>x \<in> set l. P x)))"

lemma grows_refl [simp]: "grows P s s"
  by (simp add: grows_def)

lemma grows_trans: "grows P s t \<Longrightarrow> grows P t u \<Longrightarrow> grows P s u"
  unfolding grows_def by fastforce

lemma grows_mono: "grows P s t \<Longrightarrow> (\<And>x. P x \<Longrightarrow> Q x) \<Longrightarrow> grows Q s t"
  unfolding grows_def by blast

lemma sends_only_grows: "sends_only P m \<Longrightarrow> m s = (r, t) \<Longrightarrow> grows P s t"
  using sends_onlyD [of P m s r t] by (simp add: grows_def)

lemma sends_to_grows: "sends_to key m \<Longrightarrow> grows (aimed_at key) s (snd (m s))"
  using sends_toD [of key m s "fst (m s)" "snd (m s)"] by (auto simp: grows_def)

lemma silent_grows: "silent m \<Longrightarrow> grows P s (snd (m s))"
  by (auto simp: silent_def act_keeps_def grows_def)

lemma handle_command_grows:
  "grows (permitted (dv_channels dv) (dv_trust dv) (dv_locked dv) creds) (g_south g)
     (g_south (snd (handle_command w now accepts parse_frame site dv creds cache topic payload g)))"
  using handle_command_respects_lockout [OF _ surjective_pairing, of g w now accepts parse_frame site dv creds cache topic payload]
  by (auto simp: grows_def)

text \<open>The two loops of a site tick send through \<^verbatim>\<open>handle_command\<close> only.\<close>

definition send_grows :: "(south_write \<Rightarrow> bool) \<Rightarrow> (string \<Rightarrow> f64 \<Rightarrow> gateway \<Rightarrow> 'a \<times> gateway) \<Rightarrow> bool" where
  "send_grows P send \<longleftrightarrow> (\<forall>i v g. grows P (g_south g) (g_south (snd (send i v g))))"

lemma dispatch_one_grows:
  "send_grows (permitted (dv_channels dv) (dv_trust dv) (dv_locked dv) (sd_creds cfg))
     (dispatch_one w now accepts parse_frame frame stamp cfg cache dv)"
  unfolding send_grows_def dispatch_one_def
proof (intro allI)
  fix i v g
  let ?m = "handle_command w now accepts parse_frame (sd_site_id cfg) dv (sd_creds cfg) cache (module_topic (sd_site_id cfg) i)
    (frame (stamp i) v) g"
  show "grows (permitted (dv_channels dv) (dv_trust dv) (dv_locked dv) (sd_creds cfg)) (g_south g)
     (g_south (snd (case ?m of (Ok _, g) \<Rightarrow> (Ok True, g) | (Err e, g) \<Rightarrow> (Ok False, g) | (Abort a, g) \<Rightarrow> (Abort a, g))))"
    using handle_command_grows [of dv "sd_creds cfg" g w now accepts parse_frame "sd_site_id cfg" cache
        "module_topic (sd_site_id cfg) i" "frame (stamp i) v"]
    by (cases ?m; cases "fst ?m") simp_all
qed

lemma restore_all_grows:
  assumes "send_grows P send"
  shows "grows P (g_south g) (g_south (snd (restore_all send restore ok g)))"
proof (induction restore arbitrary: ok g)
  case (Cons x restore)
  obtain i v where x: "x = (i, v)" by force
  obtain r g' where s: "send i v g = (r, g')" by force
  have sent: "grows P (g_south g) (g_south g')" using assms s by (metis send_grows_def snd_conv)
  show ?case
  proof (cases r)
    case (Ok handled)
    then show ?thesis using grows_trans [OF sent Cons.IH [of g' "ok \<and> handled"]] by (simp add: x s)
  qed (use sent in \<open>simp_all add: x s\<close>)
qed simp

lemma dispatch_changed_grows:
  assumes "send_grows P send"
  shows "grows P (g_south g) (g_south (snd (snd (dispatch_changed send shares (mem, g)))))"
proof (induction shares arbitrary: mem g)
  case (Cons x shares)
  obtain i v where x: "x = (i, v)" by force
  obtain r g' where s: "send i v g = (r, g')" by force
  have sent: "grows P (g_south g) (g_south g')" using assms s by (metis send_grows_def snd_conv)
  show ?case
  proof (cases r)
    case (Ok handled)
    then show ?thesis
      using grows_trans [OF sent Cons.IH [of g' "if handled then mem_record i v mem else mem"]] by (simp add: x s)
  qed (use sent in \<open>simp_all add: x s\<close>)
qed simp

lemma release_grows:
  assumes "send_grows P send"
  shows "grows P (g_south g) (g_south (snd (snd (release send current (mem, g)))))"
proof -
  obtain r g' where r: "restore_all send (mem_end mem current) True g = (r, g')" by force
  with restore_all_grows [OF assms, of g "mem_end mem current" True] show ?thesis
    by (cases r) (simp_all add: release_def)
qed

lemma site_tick_grows:
  "grows (permitted (dv_channels dv) (dv_trust dv) (dv_locked dv) (sd_creds cfg)) (g_south (snd st))
     (g_south (snd (snd (site_tick w now accepts parse_frame frame stamp cfg cache dv st))))"
  by (cases st) (auto simp: site_tick_def Let_def intro: release_grows [OF dispatch_one_grows]
      dispatch_changed_grows [OF dispatch_one_grows] split: posture.split option.split)

lemma counter_round_grows:
  "grows (\<lambda>x. hc_device_id c \<notin> locked \<and> aimed_at (mb_host (hc_binding c), mb_port (hc_binding c), is_secure trust creds) x) s
     (snd (counter_round w link locked c trust creds n s))"
proof (cases "steerable link locked (hc_device_id c)")
  case True
  obtain r t where r: "write_setpoint w (hc_binding c) (real (unat n)) trust creds s = (r, t)" by force
  with sends_to_grows [OF write_setpoint_sends, of "hc_binding c" trust creds s w "real (unat n)"]
  have "grows (aimed_at (mb_host (hc_binding c), mb_port (hc_binding c), is_secure trust creds)) s t" by simp
  then show ?thesis using True r by (cases r) (auto simp: counter_round_def steerable_def elim: grows_mono)
qed (simp add: counter_round_def)

lemma silent_write_channel: "silent (write_channel w host port trust creds)"
  by (auto simp: silent_def act_keeps_def write_channel_def sessions_ok_def open_channel_def is_secure_def Let_def
      split: option.splits outcome.splits if_splits device_trust.splits)

lemma silent_read_word: "silent (read_word w b trust creds)"
  unfolding read_word_def
  by (auto intro!: silent_bind silent_write_channel silent_word_address)

lemma silent_seed_word: "silent (seed_word w bt trust creds)"
proof -
  have "silent (bind_act (read_word w (bt_point bt) trust creds) (\<lambda>word t.
      (Ok (word AND NOT (bt_owned bt)), t\<lparr>words_cache := (words_cache t)(word_key_of (bt_point bt) \<mapsto> word AND NOT (bt_owned bt))\<rparr>)))"
    by (rule silent_bind [OF silent_read_word]) (simp add: silent_def act_keeps_def sessions_ok_def)
  then show ?thesis
    by (simp add: seed_word_def silent_def act_keeps_def Let_def split: option.split)
qed

lemma beat_once_grows:
  "grows (\<lambda>x. bt_device_id bt \<notin> locked \<and> aimed_at (ss_host (bt_point bt), ss_port (bt_point bt), is_secure trust creds) x) s
     (beat_once w link locked bt trust creds s)"
proof (cases "steerable link locked (bt_device_id bt)")
  case True
  have "sends_to (ss_host (bt_point bt), ss_port (bt_point bt), is_secure trust creds)
      (bind_act (seed_word w bt trust creds) (\<lambda>asserted. write_word w (bt_point bt) asserted trust creds))"
    by (rule sends_to_bind [OF silent_seed_word write_word_sends])
  from sends_to_grows [OF this, of s] True show ?thesis
    by (auto simp: beat_once_def steerable_def elim: grows_mono)
qed (simp add: beat_once_def grows_def sessions_ok_def)

section \<open>Reads send nothing\<close>

lemma silent_or_forget: "silent m \<Longrightarrow> silent (or_forget m key)"
proof -
  have "sent (snd (or_forget m key s)) = sent (snd (m s)) \<and> sessions (snd (or_forget m key s)) = sessions (snd (m s))" for s
    by (simp add: or_forget_def forget_def split: prod.split outcome.split)
  then show "silent m \<Longrightarrow> silent (or_forget m key)" by (simp add: silent_def act_keeps_def sessions_ok_def)
qed

lemma silent_ctx [simp]: "silent (ctx_act m msg as) = silent m"
  by (simp add: silent_def act_keeps_ctx)

lemma silent_read_point: "silent (read_point w ch key b d)"
  unfolding read_point_def
  by (auto intro!: silent_bind split: option.splits list.splits)

lemma silent_read_on_sunspec: "silent (read_on_sunspec w ch b)"
  unfolding read_on_sunspec_def by (auto intro!: silent_bind silent_or_forget silent_read_point)

lemma silent_read_value: "silent (read_value w p binding trust creds)"
  by (cases binding) (auto simp: read_value_def number_act_def intro!: silent_bind silent_read_on_sunspec)

lemma on_south_grows: "silent m \<Longrightarrow> grows P (po_south st) (po_south (snd (on_south m st)))"
  using silent_grows [of m P "po_south st"] by (simp add: on_south_def split_beta)

lemma poll_session_south [simp]: "po_south (snd (poll_session e host port trust creds st)) = po_south st"
  by (simp add: poll_session_def Let_def split: option.split outcome.split)

lemma read_one_grows: "grows P (po_south st) (po_south (snd (read_one e binding trust creds st)))"
proof -
  have sun: "silent (bind_act (read_on_sunspec w ch b) (\<lambda>v. lift_act (Ok (Number v))))" for w ch b
    by (auto intro!: silent_bind silent_read_on_sunspec)
  have mod: "silent (number_act x)" for x by (simp add: number_act_def)
  show ?thesis
  proof (cases binding)
    case (ModbusTcp b)
    obtain r st' where s: "poll_session e (mb_host b) (mb_port b) trust creds st = (r, st')" by force
    then have "po_south st' = po_south st" using poll_session_south [of e "mb_host b" "mb_port b" trust creds st] by simp
    then show ?thesis using on_south_grows [OF mod, of P st'] ModbusTcp s
      by (cases r) (simp_all add: read_one_def)
  next
    case (Sunspec b)
    obtain r st' where s: "poll_session e (ss_host b) (ss_port b) trust creds st = (r, st')" by force
    then have "po_south st' = po_south st" using poll_session_south [of e "ss_host b" "ss_port b" trust creds st] by simp
    then show ?thesis using on_south_grows [OF sun, of P st'] Sunspec s
      by (cases r) (simp_all add: read_one_def)
  next
    case (Redfish b)
    then show ?thesis by (simp add: read_one_def read_shared_def Let_def)
  qed (simp_all add: read_one_def on_south_grows [OF silent_read_value])
qed

lemma poll_one_grows:
  assumes "poll_one e points trust creds i st = Ok st'"
  shows "grows P (po_south st) (po_south st')"
proof -
  obtain r st'' where r: "read_one e (pt_binding (points ! i)) trust creds st = (r, st'')" by force
  have "po_south st' = po_south st''"
    using assms r by (cases r) (auto simp: poll_one_def Let_def publish_reading_def split: outcome.splits if_splits)
  then show ?thesis using read_one_grows [of P st e "pt_binding (points ! i)" trust creds] r by simp
qed

lemma poll_due_grows:
  assumes "poll_due e points trust creds now st = Ok st'"
  shows "grows P (po_south st) (po_south st')"
proof -
  have "poll_all e points trust creds is st = Ok st' \<Longrightarrow> grows P (po_south st) (po_south st')" for "is" st
    by (induction "is" arbitrary: st) (auto intro: grows_trans poll_one_grows)
  from this [OF assms [unfolded poll_due_def]] show ?thesis by simp
qed

section \<open>Which spec is in force\<close>

definition channel_spec :: "app \<Rightarrow> asyncapi_spec" where
  "channel_spec a = (case a_stage a of Swapped newer \<Rightarrow> newer | Trusted newer \<Rightarrow> newer | _ \<Rightarrow> a_spec a)"

definition trust_spec :: "app \<Rightarrow> asyncapi_spec" where
  "trust_spec a = (case a_stage a of Trusted newer \<Rightarrow> newer | _ \<Rightarrow> a_spec a)"

definition accepted :: "gateway_credentials option \<Rightarrow> asyncapi_spec \<Rightarrow> bool" where
  "accepted creds spec \<longleftrightarrow> spec_wf spec \<and> validate_trust_creds_alignment spec creds = Ok ()"

definition runs_spec :: "validator \<Rightarrow> string \<Rightarrow> gateway_credentials option \<Rightarrow> asyncapi_spec \<Rightarrow> running \<Rightarrow> bool" where
  "runs_spec v site creds spec ru \<longleftrightarrow> spawn_task_set v spec site creds = Ok (ru_tasks ru) \<and>
     length (ru_envelope ru) = length (ts_envelope (ru_tasks ru)) \<and> length (ru_shed ru) = length (ts_shed (ru_tasks ru)) \<and>
     length (ru_counters ru) = length (ts_counters (ru_tasks ru)) \<and> length (ru_pollers ru) = length (ts_pollers (ru_tasks ru))"

definition wired :: "validator \<Rightarrow> string \<Rightarrow> gateway_credentials option \<Rightarrow> app \<Rightarrow> bool" where
  "wired v site creds a \<longleftrightarrow> accepted creds (channel_spec a) \<and> accepted creds (trust_spec a) \<and>
     dv_channels (a_devices a) = device_channels (channel_spec a) \<and>
     dv_trust (a_devices a) = map_of (x_device_trust (trust_spec a)) \<and>
     (\<forall>ru. a_stage a = Waiting ru \<longrightarrow> runs_spec v site creds (a_spec a) ru) \<and>
     is_ok (spawn_task_set v (a_spec a) site creds) \<and>
     sessions_ok (g_south (a_gateway a))"

lemma runs_spec_start: "spawn_task_set v spec site creds = Ok ts \<Longrightarrow> runs_spec v site creds spec (start now ts)"
  by (simp add: runs_spec_def start_def)

lemma boot_wired:
  assumes "boot password dial (fetch_asyncapi get parse_json ty url) fetched_locks answers v now site creds = Ok a"
  shows "wired v site creds a"
  using assms fetch_asyncapi_wf [of get parse_json ty url] runs_spec_start [of v _ site creds]
  by (auto simp: boot_def wired_def accepted_def channel_spec_def trust_spec_def sessions_ok_init Let_def split_beta)

lemma refetched_wired:
  assumes "wired v site creds a" and "a_stage a = Fetching"
    and "refetched (fetch_asyncapi get parse_json ty url) v now site creds a = Ok a'"
  shows "wired v site creds a'"
proof -
  have keep: "wired v site creds b" if "respawn v now site creds (a_spec a) a = Ok b" for b
    using that assms(1,2) runs_spec_start [of v "a_spec a" site creds]
    by (auto simp: respawn_def wired_def channel_spec_def trust_spec_def)
  show ?thesis
  proof (cases "\<exists>newer. fetch_asyncapi get parse_json ty url = Ok newer \<and> validate_trust_creds_alignment newer creds = Ok ()")
    case True
    then obtain newer where "fetch_asyncapi get parse_json ty url = Ok newer" "validate_trust_creds_alignment newer creds = Ok ()" by blast
    then show ?thesis using assms fetch_asyncapi_wf [of get parse_json ty url newer]
      by (auto simp: refetched_def wired_def accepted_def channel_spec_def trust_spec_def)
  next
    case False
    then have "respawn v now site creds (a_spec a) a = Ok a'"
      using assms(3) by (auto simp: refetched_def split: outcome.splits)
    then show ?thesis by (rule keep)
  qed
qed

lemma follow_wired:
  assumes "wired v site creds a" and "a_stage a = Trusted newer" and "follow answers v now site creds newer a = Ok a'"
  shows "wired v site creds a'"
  using assms runs_spec_start [of v newer site creds]
  by (auto simp: follow_def respawn_def wired_def channel_spec_def trust_spec_def Let_def split_beta)

lemma refetched_south: "refetched fetched v now site creds a = Ok a' \<Longrightarrow> a_gateway a' = a_gateway a"
  by (auto simp: refetched_def respawn_def split: outcome.splits)

lemma follow_south: "follow answers v now site creds newer a = Ok a' \<Longrightarrow> a_gateway a' = a_gateway a"
  by (auto simp: follow_def respawn_def Let_def split_beta)

section \<open>What a gateway may send\<close>

text \<open>
  A request is allowed when it goes to the endpoint of a device of the spec that is not locked out,
  secured exactly when the spec requires mutual TLS of that device.
\<close>

definition device_endpoint :: "asyncapi_spec \<Rightarrow> string \<Rightarrow> string \<Rightarrow> u16 \<Rightarrow> bool" where
  "device_endpoint spec device_id host port \<longleftrightarrow> (\<exists>b. endpoint b = Some (host, port) \<and>
     ((\<exists>source. (device_id, source) \<in> set (command_sources spec) \<and> cs_binding source = b) \<or>
      (\<exists>h. (device_id, h) \<in> set (x_heartbeat_source spec) \<and> hb_binding h = b)))"

definition requires_tls :: "asyncapi_spec \<Rightarrow> string \<Rightarrow> bool" where
  "requires_tls spec device_id = (case map_of (x_device_trust spec) device_id of Some (TlsMutual _) \<Rightarrow> True | _ \<Rightarrow> False)"

definition allowed :: "app \<Rightarrow> south_write \<Rightarrow> bool" where
  "allowed a x \<longleftrightarrow> (\<exists>device_id host port. device_id \<notin> dv_locked (a_devices a) \<and>
     device_endpoint (channel_spec a) device_id host port \<and> aimed_at (host, port, requires_tls (trust_spec a) device_id) x)"

lemma accepted_secure:
  assumes "accepted creds spec"
  shows "is_secure (map_of (x_device_trust spec) device_id) creds = requires_tls spec device_id"
proof -
  have "creds \<noteq> None \<or> \<not> is_tls_mutual t" if "map_of (x_device_trust spec) device_id = Some t" for t
    using assms map_of_SomeD [OF that] by (auto simp: accepted_def validate_trust_Ok)
  then show ?thesis by (auto simp: is_secure_def requires_tls_def split: option.splits device_trust.splits)
qed

lemma permitted_allowed:
  assumes "wired v site creds a"
    and "permitted (dv_channels (a_devices a)) (dv_trust (a_devices a)) (dv_locked (a_devices a)) creds x"
  shows "allowed a x"
proof -
  from assms(2) obtain d key b h p where d: "d \<notin> dv_locked (a_devices a)"
    "channel_lookup (dv_channels (a_devices a)) d key = Some b" "endpoint b = Some (h, p)"
    "aimed_at (h, p, is_secure (dv_trust (a_devices a) d) creds) x"
    by (auto simp: permitted_def)
  have "device_endpoint (channel_spec a) d h p"
    using channel_lookup_origin [of "channel_spec a" d key b] d(2,3) assms(1) by (auto simp: device_endpoint_def wired_def)
  moreover have "is_secure (dv_trust (a_devices a) d) creds = requires_tls (trust_spec a) d"
    using assms(1) accepted_secure by (auto simp: wired_def)
  ultimately show ?thesis using d(1,4) by (auto simp: allowed_def)
qed

lemma waiting_allowed:
  assumes "wired v site creds a" and "a_stage a = Waiting ru" and "device_endpoint (a_spec a) d h p"
    and "d \<notin> dv_locked (a_devices a) \<and> aimed_at (h, p, is_secure (map_of (x_device_trust (a_spec a)) d) creds) x"
  shows "allowed a x"
proof -
  have "channel_spec a = a_spec a" "trust_spec a = a_spec a" using assms(2) by (simp_all add: channel_spec_def trust_spec_def)
  then show ?thesis using assms accepted_secure [of creds "a_spec a" d] by (auto simp: allowed_def wired_def)
qed

lemma spawn_task_set_counter:
  assumes "spawn_task_set v spec site creds = Ok ts" and "(c, trust) \<in> set (ts_counters ts)"
  shows "trust = map_of (x_device_trust spec) (hc_device_id c)"
    and "device_endpoint spec (hc_device_id c) (mb_host (hc_binding c)) (mb_port (hc_binding c))"
proof -
  from assms(1) obtain counters where co: "collect_outcome (map (\<lambda>(device_id, h). bind_outcome (build_counter device_id h) (\<lambda>c.
      Ok (c, map_of (x_device_trust spec) device_id))) (x_heartbeat_source spec)) = Ok counters" "ts_counters ts = counters"
    by (auto simp: spawn_task_set_def Let_def)
  from collect_outcome_origin [OF co(1), of "(c, trust)"] assms(2) co(2) obtain d h where
    h: "(d, h) \<in> set (x_heartbeat_source spec)" "build_counter d h = Ok c" "trust = map_of (x_device_trust spec) d" by auto
  from h(2) have "hc_device_id c = d" "hb_binding h = ModbusTcp (hc_binding c)"
    by (auto simp: build_counter_def split: protocol_binding.splits)
  with h show "trust = map_of (x_device_trust spec) (hc_device_id c)"
    and "device_endpoint spec (hc_device_id c) (mb_host (hc_binding c)) (mb_port (hc_binding c))"
    by (auto simp: device_endpoint_def endpoint_def intro!: exI [of _ "ModbusTcp (hc_binding c)"])
qed

text \<open>Every word heartbeat is fed to the endpoint of a SunSpec command of its device.\<close>

definition beat_from :: "(string \<times> command_source) set \<Rightarrow> beat \<Rightarrow> bool" where
  "beat_from cs bt \<longleftrightarrow> (\<exists>source b. (bt_device_id bt, source) \<in> cs \<and> cs_binding source = Sunspec b \<and>
     ss_host (bt_point bt) = ss_host b \<and> ss_port (bt_point bt) = ss_port b)"

lemma add_beat_from:
  assumes "\<forall>bt \<in> snd ` set found. beat_from cs bt" and "(device_id, source) \<in> cs"
  shows "\<forall>bt \<in> snd ` set (add_beat device_id found source). beat_from cs bt"
proof (cases "\<exists>b n. cs_binding source = Sunspec b \<and> ss_bit b = Some n")
  case True
  then obtain b n where b: "cs_binding source = Sunspec b" "ss_bit b = Some n" by blast
  define old where "old = (case map_of found (word_key_of b) of Some bt \<Rightarrow> bt
    | None \<Rightarrow> \<lparr>bt_device_id = device_id, bt_point = b\<lparr>ss_bit := None\<rparr>, bt_owned = 0\<rparr>)"
  have "beat_from cs old"
    using assms b map_of_SomeD [of found "word_key_of b"] unfolding old_def
    by (force simp: beat_from_def split: option.split)
  then have new: "beat_from cs (old\<lparr>bt_owned := m\<rparr>)" for m by (simp add: beat_from_def)
  have "set (AList.update k y xs) \<subseteq> insert (k, y) (set xs)" for k and y :: beat and xs
    by (induction xs) auto
  then show ?thesis using assms(1) new b by (fastforce simp: add_beat_def Let_def old_def [symmetric])
next
  case False
  then show ?thesis using assms(1) by (auto simp: add_beat_def split: protocol_binding.split option.split)
qed

lemma beats_from:
  assumes "bt \<in> set (beats (x_command_source spec))"
  shows "beat_from (set (command_sources spec)) bt"
proof -
  have one: "\<forall>bt \<in> snd ` set found. beat_from cs bt \<Longrightarrow> \<forall>source \<in> set ss. (d, source) \<in> cs \<Longrightarrow>
      \<forall>bt \<in> snd ` set (foldl (add_beat d) found ss). beat_from cs bt" for found ss d cs
  proof (induction ss arbitrary: found)
    case (Cons source ss)
    then show ?case using add_beat_from [OF Cons.prems(1), of d source] by simp
  qed simp
  have all: "\<forall>bt \<in> snd ` set found. beat_from cs bt \<Longrightarrow> \<forall>(d, chs) \<in> set xs. \<forall>(n, source) \<in> set chs. (d, source) \<in> cs \<Longrightarrow>
      \<forall>bt \<in> snd ` set (foldl (\<lambda>found (d, chs). foldl (add_beat d) found (map snd chs)) found xs). beat_from cs bt" for found xs cs
  proof (induction xs arbitrary: found)
    case (Cons x xs)
    obtain d chs where x: "x = (d, chs)" by force
    have "\<forall>bt \<in> snd ` set (foldl (add_beat d) found (map snd chs)). beat_from cs bt"
      by (rule one [OF Cons.prems(1)]) (use Cons.prems(2) x in auto)
    from Cons.IH [OF this] Cons.prems(2) show ?case unfolding x foldl_Cons prod.case by (meson list.set_intros(2))
  qed simp
  have "\<forall>(d, chs) \<in> set (x_command_source spec). \<forall>(n, source) \<in> set chs. (d, source) \<in> set (command_sources spec)"
    by (force simp: command_sources_def)
  from all [of "[]", OF _ this] show ?thesis using assms by (auto simp: beats_def)
qed

lemma spawn_task_set_beat:
  assumes "spawn_task_set v spec site creds = Ok ts" and "(bt, trust) \<in> set (ts_beats ts)"
  shows "trust = map_of (x_device_trust spec) (bt_device_id bt)"
    and "device_endpoint spec (bt_device_id bt) (ss_host (bt_point bt)) (ss_port (bt_point bt))"
proof -
  from assms have "bt \<in> set (beats (x_command_source spec))" and t: "trust = map_of (x_device_trust spec) (bt_device_id bt)"
    by (auto simp: spawn_task_set_def Let_def)
  from beats_from [OF this(1)] show "device_endpoint spec (bt_device_id bt) (ss_host (bt_point bt)) (ss_port (bt_point bt))"
    by (force simp: beat_from_def device_endpoint_def endpoint_def)
  show "trust = map_of (x_device_trust spec) (bt_device_id bt)" by (rule t)
qed

section \<open>Every turn keeps the wiring\<close>

lemma wired_cong:
  assumes "wired v site creds a" and "a_spec a' = a_spec a" and "a_stage a' = a_stage a"
    and "dv_channels (a_devices a') = dv_channels (a_devices a)" and "dv_trust (a_devices a') = dv_trust (a_devices a)"
    and "sessions_ok (g_south (a_gateway a'))"
  shows "wired v site creds a'"
proof -
  have "channel_spec a' = channel_spec a" "trust_spec a' = trust_spec a"
    unfolding channel_spec_def trust_spec_def assms(2,3) by (rule refl)+
  then show ?thesis using assms unfolding wired_def by metis
qed

lemma wired_running:
  assumes "wired v site creds a" and "a_stage a = Waiting ru" and "runs_spec v site creds (a_spec a) ru'"
    and "grows P (g_south (a_gateway a)) (g_south g)"
  shows "wired v site creds (a\<lparr>a_gateway := g, a_stage := Waiting ru'\<rparr>)"
  using assms by (simp add: wired_def channel_spec_def trust_spec_def grows_def)

text \<open>A turn is sound: it keeps the wiring and sends only what is allowed in the state it starts in.\<close>

definition sound :: "validator \<Rightarrow> string \<Rightarrow> gateway_credentials option \<Rightarrow> app \<Rightarrow> app \<Rightarrow> bool" where
  "sound v site creds a a' \<longleftrightarrow> wired v site creds a' \<and> grows (allowed a) (g_south (a_gateway a)) (g_south (a_gateway a'))"

lemma sound_cong:
  assumes "wired v site creds a" and "grows (allowed a) (g_south (a_gateway a)) (g_south (a_gateway a'))"
    and "a_spec a' = a_spec a" and "a_stage a' = a_stage a"
    and "dv_channels (a_devices a') = dv_channels (a_devices a)" and "dv_trust (a_devices a') = dv_trust (a_devices a)"
  shows "sound v site creds a a'"
proof -
  have "sessions_ok (g_south (a_gateway a'))" using assms(1,2) by (simp add: wired_def grows_def)
  with wired_cong [OF assms(1,3-6)] assms(2) show ?thesis by (simp add: sound_def)
qed

lemma sound_running:
  assumes "wired v site creds a" and "a_stage a = Waiting ru" and "runs_spec v site creds (a_spec a) ru'"
    and "grows (allowed a) (g_south (a_gateway a)) s"
  shows "sound v site creds a (a\<lparr>a_gateway := (a_gateway a)\<lparr>g_south := s\<rparr>, a_stage := Waiting ru'\<rparr>)"
  using assms wired_running [OF assms(1-3), of "allowed a" "(a_gateway a)\<lparr>g_south := s\<rparr>"] by (simp add: sound_def)

lemma wired_runs: "wired v site creds a \<Longrightarrow> a_stage a = Waiting ru \<Longrightarrow> runs_spec v site creds (a_spec a) ru"
  by (simp add: wired_def)

lemma receive_sound:
  assumes "wired v site creds a"
  shows "sound v site creds a (receive w now accepts parse_frame parse_sample site creds topic payload a)"
proof -
  obtain r g where h: "handle_command w now accepts parse_frame site (a_devices a) creds (a_cache a) topic payload (a_gateway a) = (r, g)" by force
  have "grows (allowed a) (g_south (a_gateway a)) (g_south g)"
    using handle_command_grows [of "a_devices a" creds "a_gateway a" w now accepts parse_frame site "a_cache a" topic payload] h
    by (auto elim!: grows_mono intro: permitted_allowed [OF assms])
  then show ?thesis using h by (intro sound_cong [OF assms]) (simp_all add: receive_def)
qed

lemma envelope_turn_sound:
  assumes "wired v site creds a" and "a_stage a = Waiting ru"
  shows "sound v site creds a (envelope_turn w now landed_at dt site creds i t ru a)"
proof -
  obtain r s where t: "tick_once w (ts_envelope (ru_tasks ru) ! i) now landed_at dt site (a_cache a)
      (g_requested (a_gateway a)) (a_devices a) creds t (g_south (a_gateway a)) = (r, s)" by force
  have "grows (allowed a) (g_south (a_gateway a)) s"
    by (rule grows_mono [OF sends_only_grows [OF tick_once_sends_only t]]) (rule permitted_allowed [OF assms(1)])
  then show ?thesis
    using sound_running [OF assms] wired_runs [OF assms] t by (simp add: envelope_turn_def runs_spec_def)
qed

lemma shed_turn_sound:
  assumes "wired v site creds a" and "a_stage a = Waiting ru" and "i < length (ru_shed ru)"
  shows "sound v site creds a (shed_turn w now i st ru a)"
proof -
  let ?cfg = "ts_shed (ru_tasks ru) ! i"
  have spawn: "spawn_task_set v (a_spec a) site creds = Ok (ru_tasks ru)" and "?cfg \<in> set (ts_shed (ru_tasks ru))"
    using wired_runs [OF assms(1,2)] assms(3) by (simp_all add: runs_spec_def)
  then have creds: "sh_creds ?cfg = creds" using spawn_task_set_shed by metis
  obtain r s where t: "shed_round w now ?cfg (a_cache a) (g_requested (a_gateway a)) (a_devices a) st (g_south (a_gateway a)) = (r, s)" by force
  have "grows (allowed a) (g_south (a_gateway a)) s"
    by (rule grows_mono [OF sends_only_grows [OF shed_round_sends_only t]]) (unfold creds, rule permitted_allowed [OF assms(1)])
  then show ?thesis
    using sound_running [OF assms(1,2)] wired_runs [OF assms(1,2)] t by (simp add: shed_turn_def runs_spec_def)
qed

lemma counter_turn_sound:
  assumes "wired v site creds a" and "a_stage a = Waiting ru" and "i < length (ru_counters ru)"
  shows "sound v site creds a (counter_turn w link creds i n ru a)"
proof -
  obtain c trust where c: "ts_counters (ru_tasks ru) ! i = (c, trust)" by force
  have spawn: "spawn_task_set v (a_spec a) site creds = Ok (ru_tasks ru)" and "(c, trust) \<in> set (ts_counters (ru_tasks ru))"
    using wired_runs [OF assms(1,2)] assms(3) c [symmetric] by (simp_all add: runs_spec_def)
  note counter = spawn_task_set_counter [OF this]
  obtain r s where t: "counter_round w link (dv_locked (a_devices a)) c trust creds n (g_south (a_gateway a)) = (r, s)" by force
  have "grows (allowed a) (g_south (a_gateway a)) (snd (counter_round w link (dv_locked (a_devices a)) c trust creds n (g_south (a_gateway a))))"
    by (rule grows_mono [OF counter_round_grows])
      (use waiting_allowed [OF assms(1,2) counter(2)] counter(1) in auto)
  then show ?thesis
    using sound_running [OF assms(1,2)] wired_runs [OF assms(1,2)] t c by (simp add: counter_turn_def runs_spec_def)
qed

lemma beat_turn_sound:
  assumes "wired v site creds a" and "a_stage a = Waiting ru" and "i < length (ts_beats (ru_tasks ru))"
  shows "sound v site creds a (beat_turn w link creds i ru a)"
proof -
  obtain bt trust where b: "ts_beats (ru_tasks ru) ! i = (bt, trust)" by force
  have "spawn_task_set v (a_spec a) site creds = Ok (ru_tasks ru)" and "(bt, trust) \<in> set (ts_beats (ru_tasks ru))"
    using wired_runs [OF assms(1,2)] assms(3) b [symmetric] by (simp_all add: runs_spec_def)
  note beat = spawn_task_set_beat [OF this]
  have "grows (allowed a) (g_south (a_gateway a)) (beat_once w link (dv_locked (a_devices a)) bt trust creds (g_south (a_gateway a)))"
    by (rule grows_mono [OF beat_once_grows])
      (use waiting_allowed [OF assms(1,2) beat(2)] beat(1) in auto)
  then show ?thesis using b by (intro sound_cong [OF assms(1)]) (simp_all add: beat_turn_def)
qed

lemma site_turn_sound:
  assumes "wired v site creds a" and "a_stage a = Waiting ru"
  shows "sound v site creds a (site_turn w now accepts parse_frame frame stamp ru a)"
proof -
  obtain r mem g where t: "site_tick w now accepts parse_frame frame stamp (ts_site (ru_tasks ru)) (a_cache a) (a_devices a)
      (a_event a, a_gateway a) = (r, mem, g)" by (metis prod_cases3)
  have creds: "sd_creds (ts_site (ru_tasks ru)) = creds"
    using wired_runs [OF assms] spawn_task_set_site(5) by (auto simp: runs_spec_def)
  have "grows (allowed a) (g_south (a_gateway a)) (g_south g)"
    using site_tick_grows [of "a_devices a" "ts_site (ru_tasks ru)" "(a_event a, a_gateway a)" w now accepts parse_frame frame stamp "a_cache a"]
    unfolding t creds by (auto elim!: grows_mono intro: permitted_allowed [OF assms(1)])
  then show ?thesis using t by (intro sound_cong [OF assms(1)]) (simp_all add: site_turn_def)
qed

lemma poll_turn_sound:
  assumes "wired v site creds a" and "a_stage a = Waiting ru"
  shows "sound v site creds a (poll_turn e now creds i st ru a)"
proof -
  obtain points trust where p: "ts_pollers (ru_tasks ru) ! i = (points, trust)" by force
  let ?run = "poll_due e points trust creds now (st\<lparr>po_south := g_south (a_gateway a)\<rparr>)"
  have ru: "runs_spec v site creds (a_spec a) (ru\<lparr>ru_pollers := (ru_pollers ru)[i := x]\<rparr>)" for x
    using wired_runs [OF assms] by (simp add: runs_spec_def)
  show ?thesis
  proof (cases ?run)
    case (Ok st')
    have "grows (allowed a) (g_south (a_gateway a)) (po_south st')" using poll_due_grows [OF Ok, of "allowed a"] by simp
    then show ?thesis using sound_running [OF assms ru] p Ok by (simp add: poll_turn_def)
  qed (use sound_running [OF assms ru, of "g_south (a_gateway a)"] p in \<open>simp_all add: poll_turn_def\<close>)
qed

lemma gateway_step_sound:
  assumes "gateway_step v site creds a a'" and "wired v site creds a"
  shows "sound v site creds a a'"
  using assms
proof cases
  case (message w now accepts parse_frame parse_sample topic payload)
  then show ?thesis using receive_sound [OF assms(2)] by simp
next
  case (locks fetched)
  then show ?thesis by (intro sound_cong [OF assms(2)]) simp_all
next
  case (envelope ru i t w now landed_at dt)
  then show ?thesis using envelope_turn_sound [OF assms(2)] by simp
next
  case (shed ru i st w now)
  then show ?thesis using shed_turn_sound [OF assms(2)] by simp
next
  case (counter ru i n w link)
  then show ?thesis using counter_turn_sound [OF assms(2)] by simp
next
  case (word_beat ru i w link)
  then show ?thesis using beat_turn_sound [OF assms(2)] by simp
next
  case (site ru w now accepts parse_frame frame stamp)
  then show ?thesis using site_turn_sound [OF assms(2)] by simp
next
  case (poll ru i st e now)
  then show ?thesis using poll_turn_sound [OF assms(2)] by simp
next
  case (beacon ru)
  then show ?thesis using assms(2) by (simp add: sound_def wired_def channel_spec_def trust_spec_def)
next
  case (fetched get parse_json ty url now)
  then show ?thesis using refetched_wired [OF assms(2)] refetched_south by (auto simp: sound_def)
next
  case (trusted newer)
  then show ?thesis using assms(2) by (simp add: sound_def wired_def channel_spec_def trust_spec_def swap_trust_def)
next
  case (followed newer answers now)
  then show ?thesis using follow_wired [OF assms(2)] follow_south by (auto simp: sound_def)
next
  case reconnected
  then show ?thesis by (intro sound_cong [OF assms(2)]) simp_all
qed

lemma reachable_wired: "reachable v site creds a \<Longrightarrow> wired v site creds a"
proof (induction rule: reachable.induct)
  case (booted password dial get parse_json ty url fetched_locks answers now a)
  then show ?case by (rule boot_wired)
next
  case (turn a a')
  then show ?case using gateway_step_sound by (simp add: sound_def)
qed

end
