(* ===== verification/Tls_Material.thy ===== *)
theory Tls_Material
  imports South_Reads
begin

text \<open>
  What a secured session is built from: the TLS configurations of Modbus and DNP3
  (\<^verbatim>\<open>modbus/tls.rs\<close>, \<^verbatim>\<open>dnp3/tls.rs\<close>, \<^verbatim>\<open>modbus/transport.rs\<close>), the HTTPS client of Redfish
  (\<^verbatim>\<open>redfish/tls.rs\<close>) with the process-wide cache of clients (\<^verbatim>\<open>redfish/client.rs\<close>), and the identity
  a BACnet/SC node makes up (\<^verbatim>\<open>bacnet_sc/client.rs\<close>). Reading and checking PEM material is the work of
  rodbus, dnp3 and reqwest: \<open>full_pki\<close> and the record \<open>reqwest\<close> stand for it, \<open>files\<close> for the disk.
\<close>

type_synonym path = string

type_synonym bytes = "u8 list"

section \<open>Modbus and DNP3\<close>

datatype min_tls_version = V1_2 | V1_3

text \<open>The arguments of \<^verbatim>\<open>TlsClientConfig::full_pki\<close>, in both libraries.\<close>

record tls_client_config =
  tc_subject_name :: "string option"
  tc_ca_bundle :: path
  tc_cert :: path
  tc_key :: path
  tc_password :: "string option"
  tc_min_version :: min_tls_version

definition build_tls_config :: "(tls_client_config \<Rightarrow> unit outcome) \<Rightarrow> string \<Rightarrow> path \<Rightarrow> path \<Rightarrow> path \<Rightarrow> tls_client_config outcome" where
  "build_tls_config full_pki server_subject_name ca_bundle gateway_cert gateway_key =
     (let cfg = \<lparr>tc_subject_name = Some server_subject_name, tc_ca_bundle = ca_bundle, tc_cert = gateway_cert,
        tc_key = gateway_key, tc_password = None, tc_min_version = V1_3\<rparr>
      in with_context (bind_outcome (full_pki cfg) (\<lambda>_. Ok cfg)) ''build rodbus TlsClientConfig::full_pki'' [])"

definition build_dnp3_tls_config :: "(tls_client_config \<Rightarrow> unit outcome) \<Rightarrow> string \<Rightarrow> gateway_credentials \<Rightarrow> tls_client_config outcome" where
  "build_dnp3_tls_config full_pki subject_name creds =
     (let cfg = \<lparr>tc_subject_name = Some subject_name, tc_ca_bundle = ca_bundle_path creds, tc_cert = cert_path creds,
        tc_key = key_path creds, tc_password = None, tc_min_version = V1_3\<rparr>
      in with_context (bind_outcome (full_pki cfg) (\<lambda>_. Ok cfg)) ''build dnp3 TlsClientConfig::full_pki'' [])"

text \<open>A channel is the task rodbus spawns: its endpoint, and for a secured one the configuration it dials with.\<close>

definition tcp_channel :: "string \<Rightarrow> u16 \<Rightarrow> channel \<times> tls_client_config option" where
  "tcp_channel host port = (TcpChannel host port, None)"

definition tls_channel :: "(tls_client_config \<Rightarrow> unit outcome) \<Rightarrow> string \<Rightarrow> u16 \<Rightarrow> string \<Rightarrow> gateway_credentials \<Rightarrow>
    (channel \<times> tls_client_config option) outcome" where
  "tls_channel full_pki host port subject_name creds =
     bind_outcome (build_tls_config full_pki subject_name (ca_bundle_path creds) (cert_path creds) (key_path creds)) (\<lambda>tls_config.
       Ok (TlsChannel host port subject_name creds, Some tls_config))"

definition read_holding :: "world \<Rightarrow> string \<Rightarrow> u16 \<Rightarrow> u8 \<Rightarrow> u16 \<Rightarrow> u16 \<Rightarrow> u16 list outcome" where
  "read_holding w host port unit_id addr cnt = read_registers w (fst (tcp_channel host port)) unit_id addr cnt Holding"

definition write_holding :: "world \<Rightarrow> string \<Rightarrow> u16 \<Rightarrow> u8 \<Rightarrow> u16 \<Rightarrow> u16 list \<Rightarrow> unit act" where
  "write_holding w host port unit_id addr ws = write_registers w (fst (tcp_channel host port)) unit_id addr ws Multiple"

lemma holding_reads_back:
  assumes "write_holding w host port unit_id addr ws s = (Ok (), s')"
  shows "\<exists>x. sent s' = sent s @ [x] \<and> (\<forall>w'. reads_back w' x Holding \<longrightarrow>
    read_holding w' host port unit_id addr (of_nat (length ws)) = Ok ws)"
  using assms by (auto simp: write_holding_def read_holding_def write_registers_def reads_back_def Let_def split: if_splits)

text \<open>
  The channels of \<open>open_channel\<close> are the ones dial_device here: plain TCP without a configuration, or
  TLS 1.3 with the device's subject name and the gateway's own credentials.
\<close>

definition dial_device :: "(tls_client_config \<Rightarrow> unit outcome) \<Rightarrow> string \<Rightarrow> u16 \<Rightarrow> device_trust option \<Rightarrow> gateway_credentials option \<Rightarrow>
    (channel \<times> tls_client_config option) outcome" where
  "dial_device full_pki host port trust creds = (case (trust, creds) of
     (Some (TlsMutual subject_name), Some c) \<Rightarrow> tls_channel full_pki host port subject_name c
   | _ \<Rightarrow> Ok (tcp_channel host port))"

text \<open>A world whose handshakes answer as the library does when it reads the credentials.\<close>

definition builds_as :: "(tls_client_config \<Rightarrow> unit outcome) \<Rightarrow> world \<Rightarrow> bool" where
  "builds_as full_pki w \<longleftrightarrow> (\<forall>name creds. w_tls w name creds \<longleftrightarrow>
     is_ok (build_tls_config full_pki name (ca_bundle_path creds) (cert_path creds) (key_path creds)))"

lemma dial_open_channel:
  assumes "builds_as full_pki w"
  shows "open_channel w host port trust creds = Ok ch \<longleftrightarrow> (\<exists>cfg. dial_device full_pki host port trust creds = Ok (ch, cfg))"
  using assms
  by (auto simp: open_channel_def dial_device_def tls_channel_def tcp_channel_def builds_as_def bind_outcome_eq_Ok is_ok_iff
      split: option.split device_trust.split)

lemma dial_secured:
  assumes "dial_device full_pki host port trust creds = Ok (ch, cfg)"
  shows "is_secure trust creds \<longleftrightarrow> cfg \<noteq> None"
    and "cfg = Some c \<Longrightarrow> full_pki c = Ok () \<and> tc_min_version c = V1_3 \<and> tc_subject_name c \<noteq> None"
  using assms
  by (auto simp: dial_device_def is_secure_def tls_channel_def tcp_channel_def build_tls_config_def Let_def bind_outcome_eq_Ok
      split: option.splits device_trust.splits)

section \<open>The HTTPS client of Redfish\<close>

text \<open>
  A client by what its builder was given. A certificate or an identity is the PEM text it was read
  from; \<open>reqwest\<close> says which texts parse and which builders succeed.
\<close>

record redfish_client =
  hc_timeout :: duration
  hc_rustls :: bool
  hc_built_in_roots :: bool
  hc_roots :: "bytes list"
  hc_identity :: "bytes option"

record reqwest =
  rq_certificate :: "bytes \<Rightarrow> unit outcome"
  rq_identity :: "bytes \<Rightarrow> unit outcome"
  rq_build :: "redfish_client \<Rightarrow> unit outcome"

definition build_https_client :: "reqwest \<Rightarrow> (path \<Rightarrow> bytes outcome) \<Rightarrow> gateway_credentials \<Rightarrow> redfish_client outcome" where
  "build_https_client rq files creds =
     bind_outcome (with_context (files (ca_bundle_path creds)) ''read CA bundle at'' [S (ca_bundle_path creds)]) (\<lambda>ca_pem.
     bind_outcome (with_context (rq_certificate rq ca_pem) ''parse CA bundle PEM'' []) (\<lambda>_.
     bind_outcome (with_context (files (cert_path creds)) ''read gateway cert at'' [S (cert_path creds)]) (\<lambda>cert_pem.
     bind_outcome (with_context (files (key_path creds)) ''read gateway key at'' [S (key_path creds)]) (\<lambda>key_pem.
     let combined = key_pem @ cert_pem in
     bind_outcome (with_context (rq_identity rq combined) ''build reqwest Identity from gateway cert/key PEM'' []) (\<lambda>_.
     let client = \<lparr>hc_timeout = secs 5, hc_rustls = True, hc_built_in_roots = False, hc_roots = [ca_pem], hc_identity = Some combined\<rparr> in
     bind_outcome (with_context (rq_build rq client) ''build reqwest HTTPS+mTLS Client'' []) (\<lambda>_. Ok client))))))"

text \<open>The statics \<^verbatim>\<open>PLAIN\<close> and \<^verbatim>\<open>MTLS\<close>.\<close>

record http_clients =
  cl_plain :: "redfish_client option"
  cl_mtls :: "path \<times> path \<times> path \<rightharpoonup> redfish_client"

definition creds_key :: "gateway_credentials \<Rightarrow> path \<times> path \<times> path" where
  "creds_key creds = (ca_bundle_path creds, cert_path creds, key_path creds)"

text \<open>\<^verbatim>\<open>get_or_init\<close> and \<^verbatim>\<open>or_insert\<close>: a client another task stored meanwhile wins.\<close>

definition init_plain :: "redfish_client \<Rightarrow> http_clients \<Rightarrow> redfish_client \<times> http_clients" where
  "init_plain client s = (case cl_plain s of Some c \<Rightarrow> (c, s) | None \<Rightarrow> (client, s\<lparr>cl_plain := Some client\<rparr>))"

definition insert_mtls :: "gateway_credentials \<Rightarrow> redfish_client \<Rightarrow> http_clients \<Rightarrow> redfish_client \<times> http_clients" where
  "insert_mtls creds client s = (case cl_mtls s (creds_key creds) of
     Some c \<Rightarrow> (c, s)
   | None \<Rightarrow> (client, s\<lparr>cl_mtls := (cl_mtls s)(creds_key creds \<mapsto> client)\<rparr>))"

text \<open>
  The lock is not held while a client is built: \<open>meanwhile\<close> is what other tasks do to the caches
  between the lookup and the insertion.
\<close>

definition plain_client :: "reqwest \<Rightarrow> (http_clients \<Rightarrow> http_clients) \<Rightarrow> http_clients \<Rightarrow> redfish_client outcome \<times> http_clients" where
  "plain_client rq meanwhile s = (case cl_plain s of
     Some client \<Rightarrow> (Ok client, s)
   | None \<Rightarrow>
       let client = \<lparr>hc_timeout = secs 5, hc_rustls = False, hc_built_in_roots = True, hc_roots = [], hc_identity = None\<rparr> in
       (case with_context (rq_build rq client) ''build reqwest plain Client'' [] of
          Ok _ \<Rightarrow> map_prod Ok id (init_plain client (meanwhile s))
        | Err e \<Rightarrow> (Err e, meanwhile s)
        | Abort a \<Rightarrow> (Abort a, meanwhile s)))"

definition https_client :: "reqwest \<Rightarrow> (path \<Rightarrow> bytes outcome) \<Rightarrow> (http_clients \<Rightarrow> http_clients) \<Rightarrow> gateway_credentials \<Rightarrow>
    http_clients \<Rightarrow> redfish_client outcome \<times> http_clients" where
  "https_client rq files meanwhile creds s = (case cl_mtls s (creds_key creds) of
     Some client \<Rightarrow> (Ok client, s)
   | None \<Rightarrow>
       (case build_https_client rq files creds of
          Ok client \<Rightarrow> map_prod Ok id (insert_mtls creds client (meanwhile s))
        | Err e \<Rightarrow> (Err e, meanwhile s)
        | Abort a \<Rightarrow> (Abort a, meanwhile s)))"

section \<open>Clients of a set of credentials\<close>

text \<open>
  \<open>pinned disk key c\<close>: \<open>c\<close> trusts the one CA bundle at the key's path, no built-in roots, and presents
  the key and certificate at its paths, all as \<open>disk\<close> held them when the client was built.
\<close>

definition pinned :: "(path \<Rightarrow> bytes outcome) set \<Rightarrow> path \<times> path \<times> path \<Rightarrow> redfish_client \<Rightarrow> bool" where
  "pinned disk k c \<longleftrightarrow> (case k of (ca, cert, key) \<Rightarrow>
     \<exists>files \<in> disk. \<exists>ca_pem cert_pem key_pem. files ca = Ok ca_pem \<and> files cert = Ok cert_pem \<and> files key = Ok key_pem \<and>
       hc_rustls c \<and> \<not> hc_built_in_roots c \<and> hc_roots c = [ca_pem] \<and> hc_identity c = Some (key_pem @ cert_pem))"

definition clients_ok :: "(path \<Rightarrow> bytes outcome) set \<Rightarrow> http_clients \<Rightarrow> bool" where
  "clients_ok disk s \<longleftrightarrow> (\<forall>k c. cl_mtls s k = Some c \<longrightarrow> pinned disk k c) \<and>
     (\<forall>c. cl_plain s = Some c \<longrightarrow> hc_identity c = None)"

text \<open>Caches only grow: what is stored stays stored.\<close>

definition extends :: "http_clients \<Rightarrow> http_clients \<Rightarrow> bool" where
  "extends s t \<longleftrightarrow> cl_mtls s \<subseteq>\<^sub>m cl_mtls t \<and> (cl_plain s \<noteq> None \<longrightarrow> cl_plain t = cl_plain s)"

lemma extends_refl [simp]: "extends s s"
  by (simp add: extends_def)

lemma extends_trans: "extends s t \<Longrightarrow> extends t u \<Longrightarrow> extends s u"
  by (auto simp: extends_def intro: map_le_trans)

lemma extendsD: "extends s t \<Longrightarrow> cl_mtls s k = Some c \<Longrightarrow> cl_mtls t k = Some c"
  unfolding extends_def map_le_def by (metis domI)

lemma build_https_pinned:
  assumes "build_https_client rq files creds = Ok c" and "files \<in> disk"
  shows "pinned disk (creds_key creds) c"
proof -
  from assms(1) obtain ca_pem cert_pem key_pem where "files (ca_bundle_path creds) = Ok ca_pem"
    "files (cert_path creds) = Ok cert_pem" "files (key_path creds) = Ok key_pem"
    "hc_rustls c" "\<not> hc_built_in_roots c" "hc_roots c = [ca_pem]" "hc_identity c = Some (key_pem @ cert_pem)"
    by (auto simp: build_https_client_def Let_def bind_outcome_eq_Ok)
  with assms(2) show ?thesis unfolding pinned_def creds_key_def by auto
qed

lemma insert_mtls_ok:
  assumes "clients_ok disk s" and "pinned disk (creds_key creds) c" and "insert_mtls creds c s = (r, t)"
  shows "pinned disk (creds_key creds) r" "clients_ok disk t" "extends s t" "cl_mtls t (creds_key creds) = Some r"
  using assms by (auto simp: insert_mtls_def clients_ok_def extends_def map_le_def dom_def simp del: split_paired_All split: option.splits if_splits)

lemma init_plain_ok:
  assumes "clients_ok disk s" and "hc_identity c = None" and "init_plain c s = (r, t)"
  shows "hc_identity r = None" "clients_ok disk t" "extends s t"
  using assms by (auto simp: init_plain_def clients_ok_def extends_def split: option.splits)

text \<open>Every interleaving of the two functions, over the disks the process sees while it runs.\<close>

inductive client_run :: "(path \<Rightarrow> bytes outcome) set \<Rightarrow> http_clients \<Rightarrow> http_clients \<Rightarrow> bool" for disk where
  idle: "client_run disk s s"
| stored_plain: "client_run disk s t \<Longrightarrow> hc_identity c = None \<Longrightarrow> client_run disk s (snd (init_plain c t))"
| stored_mtls: "client_run disk s t \<Longrightarrow> files \<in> disk \<Longrightarrow> build_https_client rq files creds = Ok c \<Longrightarrow>
    client_run disk s (snd (insert_mtls creds c t))"

lemma client_run_ok:
  assumes "client_run disk s t" and "clients_ok disk s"
  shows "clients_ok disk t \<and> extends s t"
  using assms
proof (induction rule: client_run.induct)
  case (stored_plain s t c)
  then show ?case using init_plain_ok [OF _ stored_plain(2) surjective_pairing, of disk t] by (metis extends_trans)
next
  case (stored_mtls s t files rq creds c)
  then show ?case
    using insert_mtls_ok [OF _ build_https_pinned [OF stored_mtls(3,2)] surjective_pairing, of t] by (metis extends_trans)
qed simp


definition ex_disk :: "bytes \<Rightarrow> path \<Rightarrow> bytes outcome" where
  "ex_disk key p = (if p = ''ca'' then Ok [1] else if p = ''cert'' then Ok [2] else if p = ''key'' then Ok key else Err (E ''no such file'' []))"

definition ex_reqwest :: reqwest where
  "ex_reqwest = \<lparr>rq_certificate = \<lambda>_. Ok (), rq_identity = \<lambda>_. Ok (), rq_build = \<lambda>_. Ok ()\<rparr>"

definition ex_client :: "bytes \<Rightarrow> redfish_client" where
  "ex_client key = \<lparr>hc_timeout = secs 5, hc_rustls = True, hc_built_in_roots = False, hc_roots = [[1]], hc_identity = Some (key @ [2])\<rparr>"

abbreviation ex_tls_creds :: gateway_credentials where
  "ex_tls_creds \<equiv> \<lparr>ca_bundle_path = ''ca'', cert_path = ''cert'', key_path = ''key''\<rparr>"

definition ex_clients :: "redfish_client option \<Rightarrow> http_clients" where
  "ex_clients c = \<lparr>cl_plain = None, cl_mtls = (case c of None \<Rightarrow> Map.empty | Some c \<Rightarrow> [creds_key ex_tls_creds \<mapsto> c])\<rparr>"

lemma ex_build: "build_https_client ex_reqwest (ex_disk k) ex_tls_creds = Ok (ex_client k)"
  by (simp add: build_https_client_def ex_reqwest_def ex_disk_def ex_client_def)

lemma ex_https_client: "https_client ex_reqwest (ex_disk k) id ex_tls_creds (ex_clients None) = (Ok (ex_client k), ex_clients (Some (ex_client k)))"
  by (simp add: https_client_def ex_build insert_mtls_def ex_clients_def)

lemma ex_start: "\<lparr>cl_plain = None, cl_mtls = Map.empty\<rparr> = ex_clients None"
  by (simp add: ex_clients_def)


text \<open>
  The cache is keyed by paths: a key rotated on disk is not picked up, the process goes on presenting
  the old identity until it restarts.
\<close>

lemma rotated_key_is_ignored:
  "https_client ex_reqwest (ex_disk [4]) id ex_tls_creds (ex_clients (Some (ex_client [3]))) =
     (Ok (ex_client [3]), ex_clients (Some (ex_client [3]))) \<and>
   build_https_client ex_reqwest (ex_disk [4]) ex_tls_creds = Ok (ex_client [4]) \<and> ex_client [3] \<noteq> ex_client [4]"
  by (simp add: https_client_def ex_build ex_clients_def) (simp add: ex_client_def)

section \<open>The identity of a BACnet/SC node\<close>

text \<open>
  \<open>clock\<close> is the nanosecond part of the time since the epoch, none when the clock is before it.
\<close>

definition random_seed :: "u32 option \<Rightarrow> u32" where
  "random_seed clock = (case clock of Some nanos \<Rightarrow> nanos | None \<Rightarrow> 0xDEADBEEF)"

definition getrandom_fill :: "u32 option \<Rightarrow> nat \<Rightarrow> bytes" where
  "getrandom_fill clock len =
     map (\<lambda>i. ucast (drop_bit (i mod 4 * 8) (random_seed clock) XOR (of_nat i * 31))) [0..<len]"

definition random_vmac :: "u32 option \<Rightarrow> bytes" where
  "random_vmac clock = getrandom_fill clock 6"

definition random_uuid :: "u32 option \<Rightarrow> bytes" where
  "random_uuid clock = getrandom_fill clock 16"

lemma fill_take: "take m (getrandom_fill clock n) = getrandom_fill clock (min m n)"
  by (simp add: getrandom_fill_def take_map take_upt min_def)

lemma xor_right_cancel: "a XOR c = b XOR c \<longleftrightarrow> a = (b :: u8)"
  by (metis xor.assoc xor_self_eq xor.right_neutral)

lemma low_bytes_eq:
  fixes x y :: u32
  assumes "\<And>i. i < 4 \<Longrightarrow> (ucast (drop_bit (i * 8) x) :: u8) = ucast (drop_bit (i * 8) y)"
  shows "x = y"
proof (rule bit_word_eqI)
  fix n assume "n < LENGTH(32)"
  then have n: "n div 8 < 4" "n mod 8 < 8" by auto
  have "bit (ucast (drop_bit (n div 8 * 8) x) :: u8) (n mod 8) = bit (ucast (drop_bit (n div 8 * 8) y) :: u8) (n mod 8)"
    using assms [OF n(1)] by simp
  with n show "bit x n \<longleftrightarrow> bit y n" by (simp add: bit_simps)
qed

text \<open>
  Two nodes get the same VMAC exactly when their clocks show the same nanoseconds, and the UUID
  starts with the VMAC: neither is random.
\<close>

lemma vmac_is_the_clock:
  "(random_vmac c = random_vmac c' \<longleftrightarrow> random_seed c = random_seed c') \<and> random_vmac c = take 6 (random_uuid c)"
proof (intro conjI iffI)
  assume "random_vmac c = random_vmac c'"
  then have eq: "random_vmac c ! i = random_vmac c' ! i" for i by simp
  have "(ucast (drop_bit (i * 8) (random_seed c)) :: u8) = ucast (drop_bit (i * 8) (random_seed c'))" if "i < 4" for i
    using eq [of i] that by (simp add: random_vmac_def getrandom_fill_def unsigned_xor_eq xor_right_cancel)
  then show "random_seed c = random_seed c'" by (rule low_bytes_eq)
qed (simp_all add: random_vmac_def random_uuid_def fill_take, simp add: getrandom_fill_def)

end
