(* ===== verification/Publishing.thy ===== *)
theory Publishing
  imports Lifecycle Tls_Material
begin

text \<open>
  The way of a reading through the broker: the message of a reading (\<^verbatim>\<open>poller::publish\<close>) as
  \<^verbatim>\<open>mqtt/publisher.rs\<close> sends it, and what the subscriber then puts into the cache. The client and
  the JSON serializer are parameters.
\<close>

section \<open>Publishing\<close>

record mqtt_message =
  mm_topic :: string
  mm_payload :: string
  mm_qos :: int

definition QOS_MEASUREMENT :: int where
  "QOS_MEASUREMENT = 0"

text \<open>\<^verbatim>\<open>FloatSample\<close>, as its derived serializer writes it: a value JSON cannot hold is null.\<close>

definition float_sample :: "string \<Rightarrow> f64x \<Rightarrow> json" where
  "float_sample ts value = JObj [(''ts'', JStr ts), (''value'', json_number value)]"

definition publish_sample :: "(json \<Rightarrow> string outcome) \<Rightarrow> (mqtt_message \<Rightarrow> unit outcome) \<Rightarrow> string \<Rightarrow> json \<Rightarrow> unit outcome" where
  "publish_sample to_vec client topic smpl =
     bind_outcome (with_context (to_vec smpl) ''serialize sample'' []) (\<lambda>payload.
     with_context (client \<lparr>mm_topic = topic, mm_payload = payload, mm_qos = QOS_MEASUREMENT\<rparr>) ''mqtt publish'' [])"

definition publish_measurement :: "(json \<Rightarrow> string outcome) \<Rightarrow> (mqtt_message \<Rightarrow> unit outcome) \<Rightarrow> string \<Rightarrow> string \<Rightarrow> f64x \<Rightarrow> unit outcome" where
  "publish_measurement to_vec client ts topic value =
     bind_outcome (with_context (to_vec (float_sample ts value)) ''serialize FloatSample'' []) (\<lambda>payload.
     with_context (client \<lparr>mm_topic = topic, mm_payload = payload, mm_qos = QOS_MEASUREMENT\<rparr>) ''mqtt publish'' [])"

definition publish :: "(json \<Rightarrow> string outcome) \<Rightarrow> (mqtt_message \<Rightarrow> unit outcome) \<Rightarrow> validator \<Rightarrow> (f64x \<Rightarrow> string) \<Rightarrow> string \<Rightarrow> point_cfg \<Rightarrow> raw \<Rightarrow> unit outcome" where
  "publish to_vec client v show_float ts p r = (case (pt_payload p, r) of
     (Some payload, _) \<Rightarrow>
       bind_outcome (sample v show_float payload r (pt_value_map p) ts) (\<lambda>smpl. publish_sample to_vec client (pt_topic p) smpl)
   | (None, Number n) \<Rightarrow> publish_measurement to_vec client ts (pt_topic p) n
   | (None, Text text) \<Rightarrow> Err (E ''text reading has no payload schema'' [S text]))"

text \<open>
  \<open>e_publishes\<close> of a poller's surroundings, against the client: a pass counts a message as published
  exactly when its serialization was sent.
\<close>

definition sends_as :: "(json \<Rightarrow> string outcome) \<Rightarrow> (mqtt_message \<Rightarrow> unit outcome) \<Rightarrow> poll_env \<Rightarrow> bool" where
  "sends_as to_vec client e \<longleftrightarrow> (\<forall>topic msg. e_publishes e (topic, msg) \<longleftrightarrow>
     (\<exists>payload. to_vec msg = Ok payload \<and> client \<lparr>mm_topic = topic, mm_payload = payload, mm_qos = QOS_MEASUREMENT\<rparr> = Ok ()))"

lemma publish_reading_publishes:
  assumes "sends_as to_vec client e"
  shows "po_published (publish_reading e i p r st) = po_published st @
    (case message e i p r of Ok msg \<Rightarrow>
       if publish to_vec client (e_validator e) (e_show e) (e_ts e i) p r = Ok () then [(pt_topic p, msg)] else []
     | _ \<Rightarrow> [])"
proof (cases "message e i p r")
  case (Ok msg)
  then have "publish to_vec client (e_validator e) (e_show e) (e_ts e i) p r = Ok () \<longleftrightarrow> e_publishes e (pt_topic p, msg)"
    using assms
    by (auto simp: publish_def message_def publish_sample_def publish_measurement_def float_sample_def sample_of_def sends_as_def
        bind_outcome_eq_Ok split: option.splits raw.splits)
  with Ok show ?thesis by (simp add: publish_reading_def)
qed (simp_all add: publish_reading_def)

section \<open>From a reading to the cache\<close>

text \<open>The value a reading has once it went through the broker; a number JSON cannot hold has none.\<close>

definition as_cached :: "point_cfg \<Rightarrow> (f64x \<Rightarrow> string) \<Rightarrow> raw \<Rightarrow> json option" where
  "as_cached p show_float r = (case (map_option pl_kind (pt_payload p), r) of
     (Some KBoolean, Number n) \<Rightarrow> Some (JBool (n \<noteq> Fin 0))
   | (Some KLabel, _) \<Rightarrow> map_option JStr (Option.bind (pt_value_map p) (\<lambda>m. m (raw_key show_float r)))
   | (_, Number (Fin x)) \<Rightarrow> Some (JNum x)
   | _ \<Rightarrow> None)"

definition as_measurement :: "json \<Rightarrow> json option" where
  "as_measurement v = (if is_measurement v then Some v else None)"

lemma as_measurement_simps [simp]:
  "as_measurement (JBool b) = Some (JBool b)" "as_measurement (JStr s) = Some (JStr s)"
  by (simp_all add: as_measurement_def)

lemma sample_of_inject: "sample_of ts v = sample_of ts' v' \<longleftrightarrow> ts = ts' \<and> v = v'"
  by (simp add: sample_of_def)

lemma cached_number_value: "as_measurement (json_number n) = (case n of Fin x \<Rightarrow> Some (JNum x) | _ \<Rightarrow> None)"
  by (cases n) (simp_all add: as_measurement_def json_number_def)

lemma message_value:
  assumes "message e i p r = Ok msg"
  shows "\<exists>v. msg = sample_of (e_ts e i) v \<and> as_cached p (e_show e) r = as_measurement v"
proof (cases "pt_payload p")
  case None
  with assms show ?thesis
    by (cases r) (auto simp: message_def as_cached_def sample_of_inject cached_number_value split: f64x.split)
next
  case (Some pl)
  with assms show ?thesis
    by (cases "pl_kind pl"; cases r)
      (auto simp: message_def sample_def shape_def as_cached_def sample_of_inject cached_number_value bind_outcome_eq_Ok
        split: f64x.splits if_splits)
qed



end
