(* ===== verification/Config.thy ===== *)
theory Config
  imports Spec_Types
begin

text \<open>
  The configuration of a gateway (\<^verbatim>\<open>config.rs\<close>) and the bootstrap from a customer's stack
  (\<^verbatim>\<open>bootstrap.rs\<close>): the defaults of one stage, with the customer's file merged over them.
\<close>

section \<open>Documents\<close>

text \<open>\<^verbatim>\<open>serde_yaml::Value\<close>; a mapping keeps its keys in order and holds each once.\<close>

datatype yaml = YNull | YBool bool | YNumber f64x | YString string | YSeq "yaml list"
  | YMap "(yaml \<times> yaml) list" | YTagged string yaml

fun yaml_get :: "yaml \<Rightarrow> yaml \<Rightarrow> yaml option" where
  "yaml_get (YMap m) k = map_of m k"
| "yaml_get v k = None"

text \<open>In place: a key that is there keeps its position, a new one goes to the end.\<close>

function deep_merge :: "(yaml \<times> yaml) list \<Rightarrow> (yaml \<times> yaml) list \<Rightarrow> (yaml \<times> yaml) list" where
  "deep_merge base [] = base"
| "deep_merge base ((key, val) # over) =
     deep_merge (AList.update key
       (case (map_of base key, val) of (Some (YMap b), YMap ov) \<Rightarrow> YMap (deep_merge b ov) | (_, v) \<Rightarrow> v) base) over"
  by pat_completeness auto
termination
  by (relation "measure (\<lambda>(base, over). size_list (size_prod size size) over)") auto

definition merge_into_stage :: "yaml \<Rightarrow> string \<Rightarrow> yaml \<Rightarrow> yaml" where
  "merge_into_stage all env_name customer = (case (all, yaml_get all (YString env_name), customer) of
     (YMap stages, Some (YMap stage), YMap over) \<Rightarrow> YMap (AList.update (YString env_name) (YMap (deep_merge stage over)) stages)
   | _ \<Rightarrow> all)"

section \<open>Loading\<close>

record config =
  device_api_url :: string
  broker_url :: string
  mqtt_username :: string
  site_id_of :: string
  log_level :: string
  gateway_credentials_of :: "gateway_credentials option"

text \<open>The file system and the two deserializers of \<^verbatim>\<open>serde_yaml\<close>.\<close>

record loader =
  ld_read :: "string \<Rightarrow> string outcome"
  ld_exists :: "string \<Rightarrow> bool"
  ld_parse :: "string \<Rightarrow> yaml outcome"
  ld_typed :: "yaml \<Rightarrow> config outcome"

definition with_customer :: "loader \<Rightarrow> string option \<Rightarrow> string \<Rightarrow> yaml \<Rightarrow> yaml outcome" where
  "with_customer ld customer_path env_name all = (case customer_path of
     None \<Rightarrow> Ok all
   | Some path \<Rightarrow>
       if \<not> ld_exists ld path then Ok all
       else bind_outcome (ld_read ld path) (\<lambda>raw. bind_outcome (ld_parse ld raw) (\<lambda>customer.
         Ok (merge_into_stage all env_name customer))))"

definition load_config_from :: "loader \<Rightarrow> string \<Rightarrow> string option \<Rightarrow> string \<Rightarrow> config outcome" where
  "load_config_from ld defaults_path customer_path env_name =
     bind_outcome (ld_read ld defaults_path) (\<lambda>raw.
     bind_outcome (ld_parse ld raw) (\<lambda>all.
     bind_outcome (with_customer ld customer_path env_name all) (\<lambda>all.
     bind_outcome (ok_or (yaml_get all (YString env_name)) (E ''cfg.defaults.yml missing block'' [S env_name])) (\<lambda>block.
       ld_typed ld block))))"

definition load_config :: "loader \<Rightarrow> (string \<rightharpoonup> string) \<Rightarrow> config outcome" where
  "load_config ld env = load_config_from ld ''cfg.defaults.yml'' (env ''CFG_CUSTOMER_PATH'')
     (case env ''ENV'' of Some e \<Rightarrow> e | None \<Rightarrow> ''local'')"

definition config_from_outputs :: "(string \<rightharpoonup> string) \<Rightarrow> config \<Rightarrow> config outcome" where
  "config_from_outputs outputs base =
     (let get = (\<lambda>key. ok_or (outputs key) (E ''stack output missing; platform contract broken'' [S key])) in
      bind_outcome (get ''DeviceApiUrl'') (\<lambda>api.
      bind_outcome (get ''BrokerWsUrl'') (\<lambda>broker.
      bind_outcome (get ''SiteId'') (\<lambda>site.
        Ok (base\<lparr>device_api_url := api, broker_url := broker, site_id_of := site\<rparr>)))))"

text \<open>\<open>describe\<close> is the call to CloudFormation: the outputs of the first stack, if there is one.\<close>

definition config_from_stack :: "(string \<Rightarrow> (string \<rightharpoonup> string) option outcome) \<Rightarrow> loader \<Rightarrow> (string \<rightharpoonup> string) \<Rightarrow> config option outcome" where
  "config_from_stack describe ld env = (case env ''ARCNODE_STACK_NAME'' of
     None \<Rightarrow> Ok None
   | Some stack_name \<Rightarrow>
       bind_outcome (with_context (describe stack_name) ''describe-stacks'' [S stack_name]) (\<lambda>stacks.
       bind_outcome (ok_or stacks (E ''stack not found'' [S stack_name])) (\<lambda>outputs.
       bind_outcome (with_context (load_config_from ld ''cfg.defaults.yml'' None ''beta'') ''cfg.defaults.yml beta block'' []) (\<lambda>base.
       bind_outcome (config_from_outputs outputs base) (\<lambda>cfg. Ok (Some cfg))))))"

text \<open>The broker's password, from the secret the stack names.\<close>

definition fetch_gateway_password :: "(string \<Rightarrow> (string \<rightharpoonup> string) option outcome) \<Rightarrow> (string \<Rightarrow> string option outcome) \<Rightarrow> (string \<rightharpoonup> string) \<Rightarrow> string outcome" where
  "fetch_gateway_password describe get_secret env =
     bind_outcome (ok_or (env ''ARCNODE_STACK_NAME'') (E ''MQTT_GATEWAY_PASSWORD unset and ARCNODE_STACK_NAME unset'' [])) (\<lambda>stack_name.
     bind_outcome (with_context (describe stack_name) ''describe-stacks'' [S stack_name]) (\<lambda>stacks.
     bind_outcome (ok_or (Option.bind stacks (\<lambda>outputs. outputs ''GatewaySecretName'')) (E ''stack output GatewaySecretName missing'' [])) (\<lambda>secret_name.
     bind_outcome (with_context (get_secret secret_name) ''get-secret-value'' [S secret_name]) (\<lambda>secret.
       ok_or secret (E ''gateway secret has no string value'' [])))))"

text \<open>\<^verbatim>\<open>main\<close>: the stack where there is one, else the files.\<close>

definition main_config :: "(string \<Rightarrow> (string \<rightharpoonup> string) option outcome) \<Rightarrow> loader \<Rightarrow> (string \<rightharpoonup> string) \<Rightarrow> config outcome" where
  "main_config describe ld env = bind_outcome (config_from_stack describe ld env) (\<lambda>cfg. case cfg of
     Some cfg \<Rightarrow> Ok cfg
   | None \<Rightarrow> load_config ld env)"

section \<open>What a merge does to a setting\<close>

fun is_mapping :: "yaml \<Rightarrow> bool" where
  "is_mapping (YMap m) = True"
| "is_mapping v = False"

fun setting :: "yaml \<Rightarrow> yaml list \<Rightarrow> yaml option" where
  "setting v [] = Some v"
| "setting v (k # ks) = (case yaml_get v k of None \<Rightarrow> None | Some w \<Rightarrow> setting w ks)"

lemma yaml_get_none: "\<forall>m. v \<noteq> YMap m \<Longrightarrow> yaml_get v k = None"
  by (cases v) simp_all

text \<open>Each key once, at every level.\<close>

fun well_keyed :: "yaml \<Rightarrow> bool" where
  "well_keyed (YMap m) = (distinct (map fst m) \<and> (\<forall>kv \<in> set m. well_keyed (snd kv)))"
| "well_keyed v = True"

definition merged :: "yaml option \<Rightarrow> yaml \<Rightarrow> yaml" where
  "merged old v = (case (old, v) of (Some (YMap b), YMap ov) \<Rightarrow> YMap (deep_merge b ov) | _ \<Rightarrow> v)"

lemma deep_merge_Cons:
  "deep_merge base ((key, val) # over) = deep_merge (AList.update key (merged (map_of base key) val) base) over"
  by (simp add: merged_def split: option.split yaml.split)

lemma deep_merge_lookup:
  assumes "distinct (map fst over)"
  shows "map_of (deep_merge base over) k = (case map_of over k of None \<Rightarrow> map_of base k | Some v \<Rightarrow> Some (merged (map_of base k) v))"
  using assms
proof (induction over arbitrary: base)
  case (Cons x over)
  obtain key val where x: "x = (key, val)" by force
  have "map_of over key = None" using Cons.prems x by (auto simp: map_of_eq_None_iff)
  with Cons show ?case
    unfolding x deep_merge_Cons by (auto simp: update_conv' split: option.split)
qed simp

text \<open>The customer's document ends above the setting, at a mapping without the next key.\<close>

fun untouched :: "yaml \<Rightarrow> yaml list \<Rightarrow> bool" where
  "untouched (YMap m) (k # ks) = (case map_of m k of None \<Rightarrow> True | Some w \<Rightarrow> untouched w ks)"
| "untouched v ks = False"

lemma untouched_unset: "untouched v ks \<Longrightarrow> setting v ks = None"
  by (induction v ks rule: untouched.induct) (auto split: option.splits)

lemma setting_overridden:
  assumes "well_keyed (YMap over)" and "setting (YMap over) ks = Some x" and "\<not> is_mapping x"
  shows "setting (YMap (deep_merge base over)) ks = Some x"
  using assms
proof (induction ks arbitrary: over base)
  case (Cons k ks)
  have look: "map_of (deep_merge base over) k = (case map_of over k of None \<Rightarrow> map_of base k | Some v \<Rightarrow> Some (merged (map_of base k) v))"
    using Cons.prems(1) by (intro deep_merge_lookup) simp
  from Cons.prems(2) obtain v where v: "map_of over k = Some v" "setting v ks = Some x" by (auto split: option.splits)
  have "well_keyed v" using Cons.prems(1) map_of_SomeD [OF v(1)] by auto
  with v(2) Cons.IH Cons.prems(3) have "setting (merged (map_of base k) v) ks = Some x"
    by (auto simp: merged_def split: option.split yaml.split)
  then show ?case using look v(1) by simp
qed auto

lemma setting_untouched:
  assumes "well_keyed (YMap over)" and "untouched (YMap over) ks"
  shows "setting (YMap (deep_merge base over)) ks = setting (YMap base) ks"
  using assms
proof (induction ks arbitrary: over base)
  case (Cons k ks)
  have look: "map_of (deep_merge base over) k = (case map_of over k of None \<Rightarrow> map_of base k | Some v \<Rightarrow> Some (merged (map_of base k) v))"
    using Cons.prems(1) by (intro deep_merge_lookup) simp
  show ?case
  proof (cases "map_of over k")
    case None
    then show ?thesis using look by simp
  next
    case (Some v)
    then obtain m k' ks' where m: "v = YMap m" "ks = k' # ks'" and un: "untouched (YMap m) ks"
      using Cons.prems(2) by (cases v; cases ks) auto
    have wk: "well_keyed (YMap m)" using Cons.prems(1) map_of_SomeD [OF Some] unfolding m(1) by (metis snd_conv well_keyed.simps(1))
    show ?thesis
    proof (cases "\<exists>b. map_of base k = Some (YMap b)")
      case True
      then obtain b where "map_of base k = Some (YMap b)" ..
      then show ?thesis using look Some m(1) Cons.IH [OF wk un, of b] by (simp add: merged_def)
    next
      case False
      then have "merged (map_of base k) v = v" by (auto simp: merged_def split: option.split yaml.split)
      moreover have "(case map_of base k of None \<Rightarrow> None | Some w \<Rightarrow> setting w ks) = None"
        using False m(2) by (auto split: option.split simp: yaml_get_none)
      ultimately show ?thesis using look Some m(1) untouched_unset [OF un] by simp
    qed
  qed
qed simp

text \<open>
  (C40) A customer's file overrides the defaults setting by setting: a value it gives, at any depth,
  is the value of the stage; what it does not mention keeps its default, also beside a setting it
  gives in the same block; the other stages are untouched.
\<close>

theorem customer_overrides_settings:
  assumes "map_of stages (YString env) = Some (YMap stage)" and "well_keyed (YMap over)"
  shows "(\<forall>x. setting (YMap over) ks = Some x \<and> \<not> is_mapping x \<longrightarrow>
      setting (merge_into_stage (YMap stages) env (YMap over)) (YString env # ks) = Some x) \<and>
    (untouched (YMap over) ks \<longrightarrow>
      setting (merge_into_stage (YMap stages) env (YMap over)) (YString env # ks) = setting (YMap stages) (YString env # ks)) \<and>
    (\<forall>other. other \<noteq> YString env \<longrightarrow>
      yaml_get (merge_into_stage (YMap stages) env (YMap over)) other = yaml_get (YMap stages) other)"
  using assms by (auto simp: merge_into_stage_def update_conv' setting_overridden setting_untouched)

definition ex_defaults :: "(yaml \<times> yaml) list" where
  "ex_defaults = [(YString ''beta'', YMap [(YString ''site_id'', YString ''beta_site''), (YString ''log_level'', YString ''info'')])]"

theorem customer_overrides_settings_witness:
  "setting (merge_into_stage (YMap ex_defaults) ''beta'' (YMap [(YString ''site_id'', YString ''nevada'')])) [YString ''beta'', YString ''site_id'']
     = Some (YString ''nevada'') \<and>
   setting (merge_into_stage (YMap ex_defaults) ''beta'' (YMap [(YString ''site_id'', YString ''nevada'')])) [YString ''beta'', YString ''log_level'']
     = Some (YString ''info'')"
proof -
  note over = customer_overrides_settings [of ex_defaults "''beta''" _ "[(YString ''site_id'', YString ''nevada'')]"]
  show ?thesis
    using over [of _ "[YString ''site_id'']"] over [of _ "[YString ''log_level'']"] by (simp add: ex_defaults_def)
qed

end
