(* ===== verification/Conformance.thy ===== *)
theory Conformance
  imports Publishing Config
begin

text \<open>
  The repository's own unit tests, evaluated on the model: the inputs and expectations of
  \<^verbatim>\<open>*_test.rs\<close> and of the \<^verbatim>\<open>mod tests\<close> blocks as closed lemmas, one per test or per assertion. They
  are no proofs of the code; they tie the definitions to what the tests pin down of it.
\<close>

section \<open>Allocation\<close>

definition child :: "string \<Rightarrow> f64 \<Rightarrow> f64 \<Rightarrow> child_capacity" where
  "child device_id hr soc = \<lparr>cp_device_id = device_id, cp_operating_state = Standby, cp_headroom = hr, cp_state_of_charge = soc\<rparr>"

lemmas allocation_eval = allocate_def child_def policy_weights_def sign_of_def EPSILON_def alloc_loop.simps proposed_def
  weight_fraction_def cap_def

lemma equal_split_divides_evenly_when_no_child_clamps:
  "allocate 300 [child ''r1'' 500 50, child ''r2'' 500 50, child ''r3'' 500 50] EqualSplit =
     [(''r1'', 100), (''r2'', 100), (''r3'', 100)]"
  by (simp add: allocation_eval)

lemma equal_split_redistributes_clamped_remainder:
  "allocate 300 [child ''r1'' 20 50, child ''r2'' 500 50, child ''r3'' 500 50] EqualSplit =
     [(''r1'', 20), (''r2'', 140), (''r3'', 140)]"
  by (simp add: allocation_eval)

lemma soc_weighted_favors_higher_soc_on_discharge:
  "allocate 100 [child ''r1'' 500 80, child ''r2'' 500 20] SocWeighted = [(''r1'', 80), (''r2'', 20)]"
  by (simp add: allocation_eval)

lemma soc_weighted_favors_lower_soc_on_charge:
  "allocate (- 100) [child ''r1'' 500 80, child ''r2'' 500 20] SocWeighted = [(''r1'', - 20), (''r2'', - 80)]"
  by (simp add: allocation_eval)

lemma soc_weighted_falls_back_to_equal_split_when_denominator_zero:
  "allocate (- 100) [child ''r1'' 500 100, child ''r2'' 500 100] SocWeighted = [(''r1'', - 50), (''r2'', - 50)]"
  by (simp add: allocation_eval)

lemma fault_and_offline_children_are_skipped:
  "allocate 100 [child ''r1'' 500 50, (child ''r2'' 500 50)\<lparr>cp_operating_state := Fault\<rparr>,
     (child ''r3'' 500 50)\<lparr>cp_operating_state := Offline\<rparr>] EqualSplit = [(''r1'', 100)]"
  by (simp add: allocation_eval)

lemma returns_empty_when_no_eligible_children:
  "allocate 100 [(child ''r1'' 500 50)\<lparr>cp_operating_state := Fault\<rparr>] EqualSplit = []"
  by (simp add: allocation_eval)

section \<open>Modbus codec\<close>

lemmas codec_eval = decode_raw_def decode_int32_def f32_from_bits_def encode_raw_def fits_def encode_finite_def
  encode_int32_def encode_uint32_def encode_int64_def rust_round_def

lemma decode_raw_uint16_single_register: "decode_raw [700] Uint16 HighLow = Ok (Fin 700)"
  by (simp add: codec_eval)

lemma decode_raw_int16_negative_single_register: "decode_raw [0xFFFF] Int16 HighLow = Ok (Fin (- 1))"
  by (simp add: codec_eval)

lemma decode_raw_int32_matches_existing_behavior: "decode_raw [0x000F, 0x4240] Int32 HighLow = Ok (Fin 1000000)"
  by (simp add: codec_eval)

lemma decode_raw_uint32_high_low: "decode_raw [1, 0] Uint32 HighLow = Ok (Fin 65536)"
  by (simp add: codec_eval)

lemma decode_raw_float32_ieee754_bit_pattern: "decode_raw [0x3FC0, 0] Float32 HighLow = Ok (Fin (3 / 2))"
  by (simp add: codec_eval power_int_def power_divide)

lemma int64_high_low_is_big_endian_word_order: "decode_raw [0, 1, 2, 3] Int64 HighLow = Ok (Fin 4295098371)"
  by (simp add: codec_eval)

lemma int64_low_high_reverses_all_four_words: "decode_raw [3, 2, 1, 0] Int64 LowHigh = Ok (Fin 4295098371)"
  by (simp add: codec_eval)

lemma int64_negative_decodes_as_twos_complement:
  "decode_raw [0xFFFF, 0xFFFF, 0xFFFF, 0xFFFE] Int64 HighLow = Ok (Fin (- 2))"
  by (simp add: codec_eval)

lemma int64_round_trips_through_encode:
  "bind_outcome (encode_raw (Fin (- 123456789012)) Int64 LowHigh) (\<lambda>ws. decode_raw ws Int64 LowHigh) = Ok (Fin (- 123456789012))"
  by (simp add: codec_eval)

lemma a_value_too_big_for_its_register_is_refused_not_saturated:
  "\<not> is_ok (encode_raw (Fin 1000000000000) Int32 HighLow)"
  "\<not> is_ok (encode_raw (Fin 65536) Uint16 HighLow)"
  "\<not> is_ok (encode_raw (Fin (- 1)) Uint16 HighLow)"
  "\<not> is_ok (encode_raw (Fin 40000) Int16 HighLow)"
  "\<not> is_ok (encode_raw (Fin (- 1)) Uint32 HighLow)"
  by (simp_all add: codec_eval)

lemma a_non_finite_value_is_refused:
  "\<not> is_ok (encode_raw (to_raw 100 0 0) Int32 HighLow)" "\<not> is_ok (encode_raw NaN Float32 HighLow)"
  by (simp_all add: codec_eval to_raw_def f64x_simps inf_of_sign_def f32_is_finite_def)

lemma the_edges_of_each_type_still_fit:
  "is_ok (encode_raw (Fin 2147483647) Int32 HighLow)" "is_ok (encode_raw (Fin (- 2147483648)) Int32 HighLow)"
  "is_ok (encode_raw (Fin 65535) Uint16 HighLow)" "is_ok (encode_raw (Fin (- 32768)) Int16 HighLow)"
  by (simp_all add: codec_eval)

section \<open>Derived channels\<close>

lemma subtract_returns_a_minus_b: "apply_op Subtract [10000000, 3000000] = Ok 7000000"
  by simp

lemma sum_mean_max_min_compute_correctly:
  "apply_op Sum_op [1, 2, 3, 4] = Ok 10" "apply_op Mean_op [1, 2, 3, 4] = Ok (5 / 2)"
  "apply_op Max_op [1, 2, 3, 4] = Ok 4" "apply_op Min_op [1, 2, 3, 4] = Ok 1"
  by (simp_all add: require_nonempty_def apply_mean_def max_f64x_def min_f64x_def f64x_simps)

lemma empty_inputs_rejected_for_aggregate_operations:
  "op \<in> {Sum_op, Mean_op, Max_op, Min_op} \<Longrightarrow> \<not> is_ok (apply_op op [])"
  by (auto simp: require_nonempty_def apply_mean_def)

lemma weighted_mean_weights_by_capacity: "weighted_mean [(50, 2), (80, 1)] = Ok 60"
  by (simp add: weighted_mean_def)

lemma weighted_mean_rejects_zero_total_weight: "\<not> is_ok (weighted_mean [(50, 0), (80, 0)])"
  by (simp add: weighted_mean_def)

lemma unbalance_is_the_largest_deviation_over_the_mean_in_percent:
  "apply_op Unbalance [7200, 7200, 6840] = Ok (100 * 240 / 7080)"
  by (simp add: require_nonempty_def apply_mean_def)

lemma unbalance_rejects_a_dead_bus: "\<not> is_ok (apply_op Unbalance [0, 0, 0])"
  by (simp add: require_nonempty_def apply_mean_def)

section \<open>Order of writes and the gate\<close>

lemmas order_eval = reductions_first_def handoff_batch_def growth_def last_share_def material_shrink_def HANDOFF_MIN_FRACTION_def

lemma a_shrinking_share_is_written_before_a_growing_one:
  "reductions_first [(''rack_1'', 1106000), (''rack_2'', 0)] [''rack_1'' \<mapsto> 560000, ''rack_2'' \<mapsto> 546000] =
     [(''rack_2'', 0), (''rack_1'', 1106000)]"
  by (simp add: order_eval)

lemma a_never_written_child_counts_as_growing_from_zero:
  "reductions_first [(''rack_2'', 400000), (''rack_1'', 400000)] [''rack_1'' \<mapsto> 800000] = [(''rack_1'', 400000), (''rack_2'', 400000)]"
  by (simp add: order_eval)

lemma a_handoff_writes_the_shrink_now_and_defers_the_growth:
  "handoff_batch [(''rack_2'', 0), (''rack_1'', 1106000)] [''rack_1'' \<mapsto> 560000, ''rack_2'' \<mapsto> 546000] False = ([(''rack_2'', 0)], True)"
  by (simp add: order_eval)

lemma growth_deferred_last_tick_is_written_this_tick:
  "handoff_batch [(''rack_2'', 545800), (''rack_1'', 560200)] [''rack_1'' \<mapsto> 560000, ''rack_2'' \<mapsto> 546000] True =
     ([(''rack_2'', 545800), (''rack_1'', 560200)], False)"
  by (simp add: order_eval)

lemma soc_drift_between_racks_is_not_a_handoff:
  "handoff_batch [(''rack_1'', 387350), (''rack_2'', 376970)] [''rack_1'' \<mapsto> 387620, ''rack_2'' \<mapsto> 376700] False =
     ([(''rack_1'', 387350), (''rack_2'', 376970)], False)"
  by (simp add: order_eval)

lemma a_gentle_handoff_near_the_floor_is_still_a_handoff:
  "handoff_batch [(''rack_2'', 15000), (''rack_1'', 1095000)] [''rack_1'' \<mapsto> 1090000, ''rack_2'' \<mapsto> 20000] False =
     ([(''rack_2'', 15000)], True)"
  by (simp add: order_eval)

lemmas gate_eval = poi_gate_new_def gate_take_def growth_deferred_def growth_written_def READINGS_AFTER_GROWTH_def

definition takes :: "poi_gate \<Rightarrow> instant list \<Rightarrow> (bool \<times> bool) list" where
  "takes g ts = rev (fst (foldl (\<lambda>(out, g) t. (fst (gate_take g t) # out, snd (gate_take g t))) ([], g) ts))"

lemma a_reading_is_fresh_once: "takes poi_gate_new [0, 0, 1000] = [(True, False), (False, False), (True, False)]"
  by (simp add: takes_def gate_eval)

lemma a_handoff_holds_until_the_second_reading_after_the_growth_write:
  "takes (growth_written 1100 (snd (gate_take (growth_deferred poi_gate_new) 1000))) [1500, 1500, 2500] =
     [(True, True), (False, True), (True, False)]"
  by (simp add: takes_def gate_eval)

lemma a_reading_received_before_the_growth_write_does_not_count:
  "takes (growth_written 1100 (growth_deferred poi_gate_new)) [1000, 1500, 2500] = [(True, True), (True, True), (True, False)]"
  by (simp add: takes_def gate_eval)

section \<open>Posture of a site event\<close>

definition posture_topics_of :: posture_topics where
  "posture_topics_of = \<lparr>pt_event_active = ''event_active'', pt_target_present = ''target_present'', pt_target = ''target''\<rparr>"

definition retained :: "bool option \<Rightarrow> bool option \<Rightarrow> f64 option \<Rightarrow> input_cache" where
  "retained event present target = Map.empty(''event_active'' := map_option (\<lambda>b. (JBool b, 0)) event,
     ''target_present'' := map_option (\<lambda>b. (JBool b, 0)) present, ''target'' := map_option (\<lambda>x. (JNum x, 0)) target)"

lemmas posture_eval = posture_of_def posture_topics_of_def retained_def read_number_def

lemma a_commanded_setpoint_is_dispatched:
  "posture_of posture_topics_of (retained (Some True) (Some True) (Some 400000)) = DispatchTo 400000"
  by (simp add: posture_eval)

lemma a_commanded_zero_is_still_a_full_curtailment:
  "posture_of posture_topics_of (retained (Some True) (Some True) (Some 0)) = DispatchTo 0"
  by (simp add: posture_eval)

lemma an_energize_only_event_releases_rather_than_dispatching_zero:
  "posture_of posture_topics_of (retained (Some True) (Some False) (Some 0)) = Release"
  by (simp add: posture_eval)

lemma no_event_releases: "posture_of posture_topics_of (retained (Some False) (Some False) (Some 0)) = Release"
  by (simp add: posture_eval)

lemma anything_unpublished_during_an_event_holds:
  "posture_of posture_topics_of (retained None None None) = Hold"
  "posture_of posture_topics_of (retained (Some True) None (Some 400000)) = Hold"
  "posture_of posture_topics_of (retained (Some True) (Some True) None) = Hold"
  by (simp_all add: posture_eval)

section \<open>The reserve and the live limits\<close>

definition bare :: distribute_binding where
  "bare = \<lparr>d_allocation_policy = ''equal_split'', d_children = [], d_state_of_charge_floor_percent = None, d_ramp_rate_per_sec = None,
     d_hysteresis_margin = None, d_hysteresis_dwell_secs = None, d_power_min = None, d_power_max = None, d_import_limit_topic = None,
     d_export_limit_topic = None, d_active_power_topic = None, d_poi_active_power_topic = None, d_operator_reserve_topic = None,
     d_site_capacity_wh = None, d_readiness_soc_percent = None, d_recharge_power_w = None\<rparr>"

definition guarded :: distribute_binding where
  "guarded = bare\<lparr>d_state_of_charge_floor_percent := Some 25,
     d_operator_reserve_topic := Some ''sites/{site_id}/devices/der_dispatch/measurements/operator_reserve/watt_hours'',
     d_site_capacity_wh := Some 8000000\<rparr>"

definition reserved :: "f64 \<Rightarrow> input_cache" where
  "reserved wh = [''sites/s/devices/der_dispatch/measurements/operator_reserve/watt_hours'' \<mapsto> (JNum wh, 0)]"

lemma reserve_topic: "substitute_site_id ''sites/{site_id}/devices/der_dispatch/measurements/operator_reserve/watt_hours'' ''s'' =
    ''sites/s/devices/der_dispatch/measurements/operator_reserve/watt_hours''"
  by (simp add: substitute_site_id_def replace_all.simps)

lemmas reserve_eval = effective_floor_percent_def operator_reserve_percent_def guarded_def bare_def reserved_def reserve_topic

lemma the_operator_reserve_raises_the_floor_when_it_is_higher: "effective_floor_percent guarded ''s'' (reserved 4000000) = Some 50"
  by (simp add: reserve_eval)

lemma the_supplier_floor_always_holds:
  "effective_floor_percent guarded ''s'' (reserved 1000000) = Some 25" "effective_floor_percent guarded ''s'' Map.empty = Some 25"
  by (simp_all add: reserve_eval)

lemma a_reserve_beyond_capacity_means_never_discharge: "effective_floor_percent guarded ''s'' (reserved 20000000) = Some 100"
  by (simp add: reserve_eval)

lemma without_capacity_there_is_no_operator_reserve:
  "effective_floor_percent (bare\<lparr>d_state_of_charge_floor_percent := Some 25\<rparr>) ''s'' (reserved 4000000) = Some 25"
  "effective_floor_percent bare ''s'' (reserved 4000000) = None"
  by (simp_all add: reserve_eval)

definition rack :: child_allocation where
  "rack = \<lparr>ca_device_id = ''rack_1'', ca_operating_state_topic = [], ca_state_of_charge_topic = [], ca_power_min = - 4000000,
     ca_power_max = 4000000\<rparr>"

definition limits :: "f64 \<Rightarrow> instant \<Rightarrow> input_cache" where
  "limits watts received = [''sites/s/devices/rack_1/measurements/max_discharge_power/watts'' \<mapsto> (JNum watts, received)]"

lemmas limit_eval = headroom_def live_limit_def limit_topic_def rack_def limits_def elapsed_def STALE_AFTER_def secs_def

lemma the_live_limit_caps_the_static_bound: "headroom now rack 1 ''s'' (limits 2000000 now) = 2000000"
  by (simp add: limit_eval)

lemma a_limit_above_the_static_bound_does_not_raise_it: "headroom now rack 1 ''s'' (limits 9000000 now) = 4000000"
  by (simp add: limit_eval)

lemma a_missing_or_stale_limit_falls_back_to_the_static_bound:
  "headroom (2 * STALE_AFTER) rack 1 ''s'' (limits 0 0) = 4000000" "headroom now rack (- 1) ''s'' (limits 0 0) = 4000000"
  by (simp_all add: limit_eval NANOS_def)

section \<open>The servo\<close>

definition steady :: "f64 \<Rightarrow> limit" where
  "steady x = \<lparr>l_now = Some x, l_prev = Some x\<rparr>"

definition unlimited :: limit where
  "unlimited = \<lparr>l_now = None, l_prev = None\<rparr>"

lemmas servo_eval = poi_bounds_def poi_headroom_def servo_step_def jump_def steady_def unlimited_def APPROACH_GAIN_PER_SEC_def
  VIOLATION_GAIN_PER_SEC_def max_f64x_def min_f64x_def f64x_simps inf_of_sign_def as_secs_f64_def secs_def NANOS_def

lemma approaching_zero_export_moves_a_fraction_of_the_headroom:
  "b_ceiling (poi_bounds 0 72800 unlimited (steady 0) (secs 1)) = Fin 7280"
  by (simp add: servo_eval)

lemma a_measured_export_violation_backs_off_at_the_violation_gain:
  "b_ceiling (poi_bounds 100000 (- 20000) unlimited (steady 0) (secs 1)) = Fin 94000"
  by (simp add: servo_eval)

lemma a_tightened_export_limit_is_taken_off_in_one_step:
  "b_ceiling (poi_bounds 1500000 (- 1000000) unlimited \<lparr>l_now = Some 0, l_prev = Some 1000000\<rparr> (secs 1)) = Fin 500000"
  by (simp add: servo_eval)

lemma a_measured_import_violation_raises_the_floor:
  "b_floor (poi_bounds 0 150000 (steady 100000) unlimited (secs 1)) = Fin 15000"
  by (simp add: servo_eval)

lemma no_limits_means_no_bounds:
  "b_ceiling (poi_bounds 0 72800 unlimited unlimited (secs 1)) = PosInf"
  "b_floor (poi_bounds 0 72800 unlimited unlimited (secs 1)) = NegInf"
  by (simp_all add: servo_eval)

section \<open>The control law\<close>

definition default_config :: envelope_config where
  "default_config = \<lparr>ec_ramp_rate_per_sec = 1 / 10, ec_hysteresis_margin = 1 / 20, ec_hysteresis_dwell = secs 30\<rparr>"

definition tick_of :: "f64 option \<Rightarrow> f64 option \<Rightarrow> f64 \<Rightarrow> f64 \<Rightarrow> envelope_tick" where
  "tick_of import_limit export_limit active_power requested = \<lparr>et_import_limit = import_limit, et_export_limit = export_limit,
     et_active_power = active_power, et_requested_setpoint = requested, et_poi_active_power = None, et_poi_fresh = True,
     et_hold_approach = False, et_power_min = - 4000000, et_power_max = 4000000, et_dt = secs 1\<rparr>"

text \<open>What the last of some ticks reports.\<close>

fun last_report :: "f64 option \<Rightarrow> controller \<Rightarrow> envelope_tick list \<Rightarrow> f64 option outcome" where
  "last_report r c [] = Ok r"
| "last_report r c (t # ts) = bind_outcome (tick c t) (\<lambda>(r, c). last_report r c ts)"

abbreviation reports :: "f64 \<Rightarrow> envelope_tick list \<Rightarrow> f64 option outcome" where
  "reports output ts \<equiv> last_report None (controller_new default_config output) ts"

lemmas law_eval = tick_def tick_of_def controller_new_def default_config_def hold_reading_def for_tick_def ctrl_write_def recovery_def
  settle_def ramp_target_def clamp_def signum_def EPSILON_def max_f64x_def min_f64x_def f64x_simps as_secs_f64_def secs_def NANOS_def Let_def

lemma current_output_reflects_last_committed_value_even_when_tick_returns_none:
  "reports 0 [tick_of (Some 10000000) (Some 10000000) 0 500000] = Ok (Some 500000)"
  "reports 0 [tick_of (Some 10000000) (Some 10000000) 0 500000, tick_of (Some 10000000) (Some 10000000) 0 500000] = Ok None"
  by (simp_all add: law_eval del: bind_outcome_eq_Ok)

lemma no_limits_at_all_never_constrains: "reports 0 [tick_of None None 3900000 3999999] = Ok (Some 3999999)"
  by (simp add: law_eval del: bind_outcome_eq_Ok)

lemma import_limit_does_not_cap_discharge: "reports 100000 [tick_of (Some 50000) None 100000 200000] = Ok (Some 200000)"
  by (simp add: law_eval del: bind_outcome_eq_Ok)

lemma export_limit_caps_discharge_immediately_no_dwell:
  "reports 500000 [tick_of None (Some 1000000) 1000000 1500000] = Ok (Some 1000000)"
  by (simp add: law_eval del: bind_outcome_eq_Ok)

lemma import_limit_caps_charge_immediately:
  "reports (- 500000) [tick_of (Some 1000000) None (- 1000000) (- 1500000)] = Ok (Some (- 1000000))"
  by (simp add: law_eval del: bind_outcome_eq_Ok)

abbreviation relaxed :: envelope_tick where
  "relaxed \<equiv> tick_of None (Some 2000000) 1000000 1500000"

text \<open>The controller at the export limit, \<open>n\<close> seconds into its dwell.\<close>

definition dwelling :: "nat \<Rightarrow> f64 option \<times> f64 option \<Rightarrow> controller" where
  "dwelling n limits_before = \<lparr>c_mode = Constrained, dwell_elapsed = n * NANOS, current_output = 1000000, c_config = default_config,
     prev_limits = limits_before, jump_hold = 0\<rparr>"

lemma enters_dwell:
  "tick (controller_new default_config 1000000) (tick_of None (Some 1000000) 1000000 1500000) =
     Ok (None, dwelling 0 (None, Some 1000000))"
  by (simp add: law_eval dwelling_def del: bind_outcome_eq_Ok)

lemma dwells: "n < 29 \<Longrightarrow> tick (dwelling n p) relaxed = Ok (None, dwelling (Suc n) (None, Some 2000000))"
  by (simp add: law_eval dwelling_def del: bind_outcome_eq_Ok)

lemma leaves_dwell: "\<exists>c. tick (dwelling 29 p) relaxed = Ok (Some 1400000, c)"
  by (simp add: law_eval dwelling_def del: bind_outcome_eq_Ok)

lemma dwells_on:
  "n + k \<le> 29 \<Longrightarrow> last_report r (dwelling n p) (replicate k relaxed @ ts) =
     (if k = 0 then last_report r (dwelling n p) ts else last_report None (dwelling (n + k) (None, Some 2000000)) ts)"
  by (induction k arbitrary: n r p) (auto simp: dwells simp del: bind_outcome_eq_Ok)

lemma constrained_holds_output_until_dwell_satisfied:
  "reports 1000000 (tick_of None (Some 1000000) 1000000 1500000 # replicate 10 relaxed) = Ok None"
  using dwells_on [of 0 10 None "(None, Some 1000000)" "[]"] by (simp add: enters_dwell)

lemma constrained_ramps_only_after_dwell_satisfied:
  "reports 1000000 (tick_of None (Some 1000000) 1000000 1500000 # replicate 29 relaxed @ [relaxed]) = Ok (Some 1400000)"
  using leaves_dwell [of "(None, Some 2000000)"] dwells_on [of 0 29 None "(None, Some 1000000)" "[relaxed]"]
  by (auto simp: enters_dwell simp del: bind_outcome_eq_Ok)

section \<open>Power caps\<close>

definition gpu :: "string \<Rightarrow> cap_child" where
  "gpu device_id = \<lparr>cc_device_id = device_id, cc_target = ''gpu_1_power_limit'', cc_min_w = 200, cc_max_w = 1000\<rparr>"

lemmas cap_eval = child_cap_watts_def gpu_def clamp_def rust_round_def

lemma every_gpu_gets_the_same_percentage_of_its_max: "child_cap_watts (gpu d) 81 = Ok 810"
  by (simp add: cap_eval)

lemma a_cap_stays_inside_each_gpus_allowable_range: "child_cap_watts (gpu d) 10 = Ok 200" "child_cap_watts (gpu d) 150 = Ok 1000"
  by (simp_all add: cap_eval)

lemma caps_are_whole_watts: "child_cap_watts (gpu d) (156800 / 784000 * 100) = Ok 200" "child_cap_watts (gpu d) (8104 / 100) = Ok 811"
  by (simp_all add: cap_eval)

section \<open>Subscriptions, topics and configuration\<close>

lemma subscription_list_covers_beacons_commands_and_every_input:
  "subscription_list ''s'' [''sites/s/devices/a/measurements/x/watts''] =
     ([TOPIC_TOPOLOGY_CHANGED, TOPIC_LOTO_CHANGED, ''sites/s/devices/+/commands/#'', ''sites/s/devices/a/measurements/x/watts''],
      [BEACON_QOS, BEACON_QOS, COMMAND_QOS, MEASUREMENT_QOS])"
  by (simp add: subscription_list_def)

lemma a_topology_change_subscribes_new_inputs_and_drops_removed_ones: "diff [''a'', ''b''] [''b'', ''c''] = ([''c''], [''a''])"
  by (simp add: diff_def)

lemma an_unchanged_topology_touches_nothing: "diff ts ts = ([], [])"
  by (simp add: diff_def)

lemma rejects_other_site_and_non_command_topics:
  "parse_command_topic ''sites/other/devices/d/commands/set/x/w'' ''s1'' = None"
  "parse_command_topic ''sites/s1/devices/d/measurements/x/w'' ''s1'' = None"
  "parse_command_topic ''sites/s1/devices'' ''s1'' = None"
  "parse_command_topic ''sites/s1/devices/d/commands/set'' ''s1'' = None"
  by (simp_all add: parse_command_topic_def)

definition contract :: "string \<rightharpoonup> string" where
  "contract = [''SiteId'' \<mapsto> ''brookside'', ''BrokerWsUrl'' \<mapsto> ''ws://1.2.3.4/mqtt'', ''DeviceApiUrl'' \<mapsto> ''http://1.2.3.4/api'']"

lemma maps_contract_outputs_onto_base:
  "config_from_outputs contract b =
     Ok (b\<lparr>device_api_url := ''http://1.2.3.4/api'', broker_url := ''ws://1.2.3.4/mqtt'', site_id_of := ''brookside''\<rparr>)"
  by (simp add: config_from_outputs_def contract_def)

lemma missing_output_fails_loud:
  "config_from_outputs (contract(''BrokerWsUrl'' := None)) b =
     Err (E ''stack output missing; platform contract broken'' [S ''BrokerWsUrl''])"
  by (simp add: config_from_outputs_def contract_def)

end
