(* ===== verification/Spec2Isabelle.thy ===== *)
theory Spec2Isabelle
  imports Conformance
begin

text \<open>
  Verification of the EMS industrial gateway (\<^verbatim>\<open>src/src\<close>): a Rust process at a battery or compute
  site that polls field devices over Modbus, SunSpec, Redfish, SNMP, DNP3 and BACnet, publishes the
  readings over MQTT, carries out operators' commands, keeps the site within its operating envelope
  and follows the events of the utility. Paths below are relative to \<^verbatim>\<open>src/src\<close>.

  \<^bold>\<open>The program and its parts.\<close> \<^verbatim>\<open>main.rs\<close> loads the configuration and enters \<^verbatim>\<open>app::run\<close>. The gateway
  connects to the broker, fetches its spec and the lockouts from device-api, subscribes to its inputs
  and spawns the tasks of the spec. From then on everything runs interleaved: the subscriber sorts
  incoming messages into beacons, commands and readings; pollers read devices; rebalance tasks split
  a module's target over its racks under the envelope; shed tasks cap compute load; site tasks carry
  out utility events; heartbeats keep devices remote-controlled. A topology beacon makes the gateway
  stop its tasks, fetch again and follow the new spec; a lockout beacon makes it fetch the lockouts.
  The tasks share the command channels, the trust blocks, the lockouts, the cache of readings, the
  requested setpoints, the memory of the site event and the south-side sessions.

  \<^bold>\<open>The theories,\<close> from the bottom:
  \<^item> \<open>Gateway_Prelude\<close>: outcomes (\<^verbatim>\<open>Result\<close>, a panic, an endless loop), the two views of \<^verbatim>\<open>f64\<close>, durations,
    string operations, and the locale \<open>stepped\<close> for invariants of machines that others step.
  \<^item> \<open>Spec_Types\<close>: JSON, the spec and its bindings (\<^verbatim>\<open>asyncapi/types\<close>, \<^verbatim>\<open>asyncapi/trust.rs\<close>), credentials.
  \<^item> \<open>Allocation\<close> (\<^verbatim>\<open>dispatch/allocation.rs\<close>): the capping loop ends and its shares are max-min fair, with
    the locale \<open>allocator\<close> for what its clients rely on.
  \<^item> \<open>Modbus\<close> (\<^verbatim>\<open>modbus/\<close>): codecs at register width behind the locale \<open>register_codec\<close>, retries, the write
    sessions; writes read back, and a device that requires TLS is never written over plain TCP.
  \<^item> \<open>SunSpec\<close> (\<^verbatim>\<open>sunspec/\<close>): model tables, discovery, point writes, bit words and the word heartbeat; a
    tripped converter does not resume by itself.
  \<^item> \<open>Distribution\<close> (\<^verbatim>\<open>dispatch/distribute.rs\<close>, \<^verbatim>\<open>rack_limits.rs\<close>, \<^verbatim>\<open>reserve.rs\<close>): the shares of a module's racks
    from the cache: who gets one, how much, and which limits are logged as missing.
  \<^item> \<open>Dispatch\<close> (\<^verbatim>\<open>dispatch/mod.rs\<close>, \<^verbatim>\<open>power_cap.rs\<close>, \<^verbatim>\<open>requested.rs\<close>, \<^verbatim>\<open>redfish/write.rs\<close>): commands from the topic to the
    request, their acknowledgements and roll-back; the writers of all protocols behind the locale
    \<open>setpoint_writer\<close>.
  \<^item> \<open>Envelope_Writes\<close>, \<open>Envelope_Control\<close>, \<open>Envelope_Task\<close>, \<open>Shed\<close> (\<^verbatim>\<open>envelope/\<close>, \<^verbatim>\<open>dispatch/write_order.rs\<close>): the order
    of child writes and the gate of the servo, the control law, one tick from the cache to the
    writes, the compute shed. Violated limits clamp at once, the order of writes never overshoots,
    a cease to energize writes 0 W, the shed cuts only the gap and waits for storage.
  \<^item> \<open>Der_Dispatch\<close> (\<^verbatim>\<open>der_dispatch/\<close>): every site tick refines an abstract event that takes a snapshot,
    dispatches and gives it back (locale \<open>module_commander\<close>).
  \<^item> \<open>Synthetic\<close> (\<^verbatim>\<open>synthetic/\<close>): derived channels against the definition of their operations, the cache.
  \<^item> \<open>Source_Map\<close> (\<^verbatim>\<open>asyncapi/types/source_map.rs\<close>, \<^verbatim>\<open>heartbeat.rs\<close>): which entries of a spec are kept; every fetched
    spec is well formed.
  \<^item> \<open>Heartbeat\<close> (\<^verbatim>\<open>heartbeat.rs\<close>): the counter of the successful writes.
  \<^item> \<open>South_Reads\<close>, \<open>Poller\<close> (\<^verbatim>\<open>read.rs\<close>, the protocol clients, \<^verbatim>\<open>payload.rs\<close>, \<^verbatim>\<open>poller.rs\<close>): a read over every
    protocol, its payload and the schedule of a device's readings.
  \<^item> \<open>Tls_Material\<close> (\<^verbatim>\<open>modbus/tls.rs\<close>, \<^verbatim>\<open>dnp3/tls.rs\<close>, \<^verbatim>\<open>redfish/tls.rs\<close>, \<^verbatim>\<open>redfish/client.rs\<close>): the configurations secured
    sessions are built with and the process-wide cache of HTTPS clients.
  \<^item> \<open>Topics\<close> (\<^verbatim>\<open>inputs.rs\<close>, \<^verbatim>\<open>mqtt/subscriptions.rs\<close>), \<open>Task_Set\<close> (\<^verbatim>\<open>app::spawn_task_set\<close>): the topics of a spec suffice
    for every task (locale \<open>cache_reader\<close>), and the broker's session follows them.
  \<^item> \<open>Lifecycle\<close> (\<^verbatim>\<open>app::run\<close>, \<^verbatim>\<open>http/client.rs\<close>, \<^verbatim>\<open>loto/\<close>, \<^verbatim>\<open>mqtt/subscriber.rs\<close>): boot, one turn of any task
    (\<open>gateway_step\<close>), the reachable states and their invariant.
  \<^item> \<open>Publishing\<close> (\<^verbatim>\<open>mqtt/publisher.rs\<close>): a reading on its way through the broker into the cache.
  \<^item> \<open>Config\<close> (\<^verbatim>\<open>config.rs\<close>, \<^verbatim>\<open>bootstrap.rs\<close>): defaults, customer file and stack outputs.
  \<^item> \<open>Conformance\<close>: the repository's unit tests, evaluated on the definitions.
  \<^item> \<open>Spec2Isabelle\<close>: the properties of the whole gateway.

  \<^bold>\<open>State and operations.\<close> A struct is a record with its fields in their order, an enum a datatype, a
  function a definition of its name. What the process keeps on the south side is the record \<open>south\<close>
  (write sessions, SunSpec caches and, as history, every request sent), the rest of the shared state
  is \<open>app\<close> with \<open>devices\<close>, \<open>gateway\<close> and the stage of the reconcile loop. A definition that touches the
  south side is an \<open>act\<close>: it takes the state and returns an outcome with the new one, so every early
  return leaves the state it had. A \<^verbatim>\<open>HashMap\<close> that is iterated is an association list in the order of
  the iteration, one that is looked up a map.

  \<^bold>\<open>Interleaving.\<close> \<open>gateway_step\<close> lets the environment choose which task takes its turn, when, and how
  peers, broker and device-api answer. A turn is atomic: handling a command holds the locks of
  channels, trust and lockouts throughout, and a tick those of channels and trust while it writes.
  A tick works on a copy of the lockouts; a lock that lands during a tick therefore counts from the
  next one on, which the model shows as the tick coming first. The swap of the channels and that of
  the trust are two steps, as in the code; the last section shows what can happen in between. The
  caches of HTTPS clients are not locked while a client is built, and \<open>client_run\<close> interleaves there.

  \<^bold>\<open>Numbers.\<close> Registers, counters, masks and ports are words of their width. A \<^verbatim>\<open>f64\<close> is a real number
  where the code keeps it finite and an element of \<open>f64x\<close> (with infinities and NaN) where it may not
  be; rounding of single operations is not modelled. Durations and instants are nanoseconds.

  \<^bold>\<open>Loops.\<close> Every loop is structural or has a measure, except the walk along the SunSpec model chain:
  the answer to a header read depends on its address alone and there are 65536 addresses, so after
  65537 rounds it repeats forever; the fuel of \<open>walk\<close> is this number and running out of it is the abort
  \<open>Looping\<close>. Task loops are runs of their rounds.

  \<^bold>\<open>Parameters.\<close> Code that is not part of the repository is an argument: the records \<open>world\<close> and \<open>peers\<close>
  (rodbus, reqwest, snmp2, dnp3, bacnet-rs, sockets), \<open>validator\<close> (the JSON-schema crate), \<open>full_pki\<close>,
  \<open>reqwest\<close> and \<open>files\<close> (TLS material), the parsers \<open>parse_json\<close>, \<open>parse_frame\<close>, \<open>parse_sample\<close> and the derived
  deserializers \<open>entry_types\<close> (serde), the serializers \<open>frame\<close> and \<open>to_vec\<close>, \<open>accepts\<close>, \<open>answers\<close> and \<open>dial\<close> (the
  MQTT client), \<open>loader\<close> (files and YAML), \<open>describe\<close> and \<open>get_secret\<close> (AWS). What a theorem
  relies on is among its hypotheses: that a serialized sample or command frame parses back, or that a
  device holds what was written to it.
  \<open>plain_site\<close> and \<open>plain_parents\<close> say that site and device ids hold no placeholder of the topic templates.

  \<^bold>\<open>Not modelled.\<close> Tokio's timers, channels and cancellation, signals and the shutdown at the end of
  \<^verbatim>\<open>run\<close> (no state outlives it), logging (but for the state \<^verbatim>\<open>note_fallback\<close> keeps), the buffers, QoS
  handshakes and reconnect intervals of the MQTT client, time stamps, JSON and YAML texts, the
  deserializers serde derives, and the module declarations of the crate roots.
\<close>

section \<open>A site with one battery\<close>

text \<open>
  What device-api serves in the examples: one Modbus device, with or without mutual TLS. The typed
  deserializers of an entry are fixed to what they return on these bodies.
\<close>

definition ex_served :: "bool \<Rightarrow> json" where
  "ex_served tls = JObj [(''info'', JObj [(''version'', JStr ''v1'')]), (''x-protocol-source'', JObj []),
     (''x-command-source'', JObj [(''r1'', JObj [(''p'', JObj [])])]),
     (''x-device-trust'', JObj (if tls then [(''r1'', JNull)] else []))]"

definition ex_kinds :: entry_types where
  "ex_kinds = \<lparr>et_measurement = (\<lambda>_. Err (E ''none'' [])), et_command = (\<lambda>_. Ok (ex_command (ModbusTcp ex_binding))),
     et_heartbeat = (\<lambda>_. Err (E ''none'' [])), et_trust = (\<lambda>_. Ok (TlsMutual ''r1''))\<rparr>"

definition ex_live :: "bool \<Rightarrow> asyncapi_spec" where
  "ex_live tls = \<lparr>info_version = ''v1'', x_protocol_source = [],
     x_command_source = [(''r1'', [(''p'', ex_command (ModbusTcp ex_binding))])], x_heartbeat_source = [],
     x_device_trust = (if tls then [(''r1'', TlsMutual ''r1'')] else []), x_schemas = []\<rparr>"

abbreviation ex_fetch :: "bool \<Rightarrow> asyncapi_spec outcome" where
  "ex_fetch tls \<equiv> fetch_asyncapi (\<lambda>_. Ok ''body'') (\<lambda>_. Ok (ex_served tls)) ex_kinds ''http://api''"

lemma ex_fetch_live: "ex_fetch tls = Ok (ex_live tls)"
  by (simp add: fetch_asyncapi_def deserialize_spec_def required_def defaulted_def validate_spec_def measurements_def
      commands_def typed_map_def parse_source_map_def raw_source_map_def type_entries_def command_check_def write_function_def void_def
      ex_served_def ex_kinds_def ex_live_def ex_command_def ex_binding_def json_get_def is_unprovisioned_def)

abbreviation ex_v :: validator where
  "ex_v \<equiv> e_validator ex_env"

definition ex_device_channels :: device_channels where
  "ex_device_channels = [(''r1'', [(''set_active_power'', ModbusTcp ex_binding)])]"

lemma ex_live_channels: "device_channels (ex_live tls) = ex_device_channels"
  by (simp add: device_channels_def ex_live_def channels_of_def ex_command_def command_key_def ex_device_channels_def)

definition ex_task_set :: "gateway_credentials option \<Rightarrow> task_set" where
  "ex_task_set creds = \<lparr>ts_pollers = [], ts_synthetic = [], ts_envelope = [], ts_counters = [], ts_beats = [], ts_shed = [],
     ts_actual = \<lparr>ap_output_topic = der_topic ''s'' ''actual_active_power/watts'', ap_source_topics = []\<rparr>,
     ts_site = \<lparr>sd_site_id = ''s'', sd_topics = \<lparr>pt_event_active = der_topic ''s'' ''event_active/none'',
       pt_target_present = der_topic ''s'' ''target_setpoint_present/none'', pt_target = der_topic ''s'' ''target_active_power/watts''\<rparr>,
       sd_creds = creds\<rparr>\<rparr>"

lemma ex_spawn: "spawn_task_set ex_v (ex_live tls) ''s'' creds = Ok (ex_task_set creds)"
  by (simp add: spawn_task_set_def ex_live_def command_sources_def spawn_command_def ex_command_def Let_def beats_def add_beat_def
      per_poi_def ex_task_set_def collect_der_dispatch_active_power_topics_def distribute_parent_device_ids_def)

lemma ex_input_topics: "input_topics (ex_live tls) ''s'' = Ok (map (der_topic ''s'')
    [''target_active_power/watts'', ''event_active/none'', ''target_setpoint_present/none'', ''energize_enabled/none''])"
  by (simp add: input_topics_def collect_distribute_input_topics_def command_sources_def ex_live_def command_topics_def ex_command_def
      collect_synthetic_input_topics_def btree_set_def collect_der_dispatch_active_power_topics_def
      collect_der_dispatch_state_of_charge_topics_def distribute_parent_device_ids_def)

definition ex_boot :: "gateway_credentials option \<Rightarrow> app outcome" where
  "ex_boot creds = boot (gateway_password [''MQTT_GATEWAY_PASSWORD'' \<mapsto> ''pw''] (Err (E ''none'' []))) (\<lambda>_. Connected) (ex_fetch False) (Ok {''r2''}) (\<lambda>_. True) ex_v 0 ''s'' creds"

definition ex_app :: "gateway_credentials option \<Rightarrow> app" where
  "ex_app creds = (case ex_boot creds of Ok a \<Rightarrow> a | _ \<Rightarrow> undefined)"

lemma ex_booted:
  "ex_boot creds = Ok (ex_app creds)"
  "a_spec (ex_app creds) = ex_live False" "a_stage (ex_app creds) = Waiting (start 0 (ex_task_set creds))"
  "a_devices (ex_app creds) = \<lparr>dv_channels = ex_device_channels, dv_trust = Map.empty, dv_locked = {''r2''}\<rparr>"
  "a_gateway (ex_app creds) = ex_gateway" "a_listening (ex_app creds)" "a_beacons (ex_app creds) = 0" "a_seen (ex_app creds) = 0"
proof -
  have "validate_trust_creds_alignment (ex_live False) creds = Ok ()"
    by (simp add: validate_trust_Ok ex_live_def)
  then have "\<exists>a. ex_boot creds = Ok a \<and> a_spec a = ex_live False \<and> a_stage a = Waiting (start 0 (ex_task_set creds)) \<and>
      a_devices a = \<lparr>dv_channels = ex_device_channels, dv_trust = Map.empty, dv_locked = {''r2''}\<rparr> \<and>
      a_gateway a = ex_gateway \<and> a_listening a \<and> a_beacons a = 0 \<and> a_seen a = 0"
    by (simp add: ex_boot_def boot_def gateway_password_def connect_broker_def ex_fetch_live ex_spawn ex_input_topics ex_live_channels request_many_def ex_gateway_def Let_def)
      (simp add: ex_live_def)
  then show "ex_boot creds = Ok (ex_app creds)"
    "a_spec (ex_app creds) = ex_live False" "a_stage (ex_app creds) = Waiting (start 0 (ex_task_set creds))"
    "a_devices (ex_app creds) = \<lparr>dv_channels = ex_device_channels, dv_trust = Map.empty, dv_locked = {''r2''}\<rparr>"
    "a_gateway (ex_app creds) = ex_gateway" "a_listening (ex_app creds)" "a_beacons (ex_app creds) = 0" "a_seen (ex_app creds) = 0"
    by (auto simp: ex_app_def)
qed

lemma ex_reachable: "reachable ex_v ''s'' creds (ex_app creds)"
  using ex_booted(1) unfolding ex_boot_def by (rule booted)

lemma ex_write_plain:
  "write_setpoint (ex_world 13) ex_binding 130 None creds south_init =
    (Ok (), south_init\<lparr>sessions := [(''10.0.0.7'', 502, False) \<mapsto> TcpChannel ''10.0.0.7'' 502],
      sent := [RegisterWrite (TcpChannel ''10.0.0.7'' 502) 1 40100 [13] Single]\<rparr>)"
proof -
  have eq: "open_channel w host port None creds = open_channel w host port None None" "is_secure None creds = is_secure None None"
    for w host port by (simp_all add: open_channel_def is_secure_def)
  have "write_setpoint (ex_world 13) ex_binding 130 None creds = write_setpoint (ex_world 13) ex_binding 130 None None"
    unfolding write_setpoint_def write_channel_def eq ..
  then show ?thesis by (simp add: ex_write)
qed

definition ex_commanded :: "gateway_credentials option \<Rightarrow> app \<Rightarrow> app" where
  "ex_commanded creds = receive (ex_world 13) 0 (\<lambda>_. True) (\<lambda>_. Some ex_frame) (\<lambda>_. None) ''s'' creds
     ''sites/s/devices/r1/commands/set/active_power/watts'' ''frame''"

lemma ex_command_sent:
  assumes "dv_channels (a_devices a) = ex_device_channels" and "dv_trust (a_devices a) = Map.empty"
    and "dv_locked (a_devices a) = {''r2''}" and "a_gateway a = ex_gateway"
  shows "sent (g_south (a_gateway (ex_commanded creds a))) = [RegisterWrite (TcpChannel ''10.0.0.7'' 502) 1 40100 [13] Single]"
proof -
  let ?topic = "''sites/s/devices/r1/commands/set/active_power/watts''"
  have "course_of (\<lambda>_. True) (\<lambda>_. Some ex_frame) ''s'' (a_devices a) ?topic ''frame'' =
      Executed (ModbusTcp ex_binding) \<lparr>ct_device_id = ''r1'', ct_verb = ''set'', ct_target = ''active_power''\<rparr> ex_frame"
    by (simp add: course_of_def ex_topic assms ex_device_channels_def command_key_def)
  from handle_command_south [OF this, of "ex_world 13" 0 creds "a_cache a" "a_gateway a"]
  have "g_south (snd (handle_command (ex_world 13) 0 (\<lambda>_. True) (\<lambda>_. Some ex_frame) ''s'' (a_devices a) creds (a_cache a) ?topic ''frame''
      (a_gateway a))) = snd (write_setpoint (ex_world 13) ex_binding 130 None creds south_init)"
    by (simp add: execute_setpoint_def ex_frame_def assms ex_gateway_def)
  then show ?thesis
    by (simp add: ex_commanded_def receive_def TOPIC_TOPOLOGY_CHANGED_def TOPIC_LOTO_CHANGED_def ex_write_plain split_beta)
qed

text \<open>A reconcile does not touch the beacons.\<close>

lemma respawn_counters:
  assumes "respawn v now site creds spec a = Ok a'"
  shows "a_beacons a' = a_beacons a \<and> a_seen a' = a_seen a \<and> a_loto_beacons a' = a_loto_beacons a \<and> a_loto_seen a' = a_loto_seen a"
  using assms by (auto simp: respawn_def bind_outcome_eq_Ok)

lemma refetched_counters:
  assumes "refetched fetched v now site creds a = Ok a'"
  shows "a_beacons a' = a_beacons a \<and> a_seen a' = a_seen a \<and> a_loto_beacons a' = a_loto_beacons a \<and> a_loto_seen a' = a_loto_seen a"
  using assms by (auto simp: refetched_def split: outcome.splits dest!: respawn_counters)

lemma follow_counters:
  assumes "follow answers v now site creds newer a = Ok a'"
  shows "a_beacons a' = a_beacons a \<and> a_seen a' = a_seen a \<and> a_loto_beacons a' = a_loto_beacons a \<and> a_loto_seen a' = a_loto_seen a"
  using assms by (auto simp: follow_def bind_outcome_eq_Ok split_beta Let_def dest!: respawn_counters)

section \<open>The whole gateway\<close>

text \<open>
  (C1) The safety of the gateway as a whole: in every state it can reach, whichever of its tasks
  takes the next turn and whatever peers, broker and device-api answer, every request that turn
  sends goes to the endpoint of a device of the spec in force that is not locked out, over mutual
  TLS exactly when the spec whose trust is in force requires it of the device. Operators' commands, rebalancing, load
  shedding, site events, both kinds of heartbeat, polls, topology changes, lockouts and reconnects
  may interleave in any order. A turn counts from the moment it reads the lockouts: a rebalance or
  shed tick works on the copy it took then.
\<close>

theorem gateway_writes_allowed:
  assumes "reachable v site creds a" and "gateway_step v site creds a a'"
  shows "\<exists>l. sent (g_south (a_gateway a')) = sent (g_south (a_gateway a)) @ l \<and> (\<forall>x \<in> set l. allowed a x)"
  using gateway_step_sound [OF assms(2)] reachable_wired [OF assms(1)] by (simp add: sound_def grows_def wired_def)

theorem gateway_writes_allowed_witness:
  "gateway_step ex_v ''s'' None (ex_app None) (ex_commanded None (ex_app None)) \<and>
   sent (g_south (a_gateway (ex_commanded None (ex_app None)))) = [RegisterWrite (TcpChannel ''10.0.0.7'' 502) 1 40100 [13] Single] \<and>
   allowed (ex_app None) (RegisterWrite (TcpChannel ''10.0.0.7'' 502) 1 40100 [13] Single)"
proof -
  have step: "gateway_step ex_v ''s'' None (ex_app None) (ex_commanded None (ex_app None))"
    unfolding ex_commanded_def by (rule message) (rule ex_booted)
  have sent: "sent (g_south (a_gateway (ex_commanded None (ex_app None)))) = [RegisterWrite (TcpChannel ''10.0.0.7'' 502) 1 40100 [13] Single]"
    by (rule ex_command_sent) (simp_all add: ex_booted)
  from gateway_writes_allowed [OF ex_reachable step] step sent show ?thesis
    by (simp add: ex_booted ex_gateway_def south_init_def)
qed

text \<open>
  (C2) One spec at a time: in every reachable state the command channels are those of one accepted
  spec, well formed and with credentials for every device that requires mutual TLS; so is the trust,
  of the same spec in every stage but the one between the two swaps of a reconcile; and the running
  tasks are those that the current spec spawns.
\<close>

theorem one_spec_in_force:
  assumes "reachable v site creds a"
  shows "spec_wf (channel_spec a) \<and> validate_trust_creds_alignment (channel_spec a) creds = Ok () \<and>
    dv_channels (a_devices a) = device_channels (channel_spec a) \<and>
    dv_trust (a_devices a) = map_of (x_device_trust (trust_spec a)) \<and>
    (case a_stage a of
       Waiting ru \<Rightarrow> channel_spec a = a_spec a \<and> trust_spec a = a_spec a \<and> spawn_task_set v (a_spec a) site creds = Ok (ru_tasks ru)
     | Fetching \<Rightarrow> channel_spec a = a_spec a \<and> trust_spec a = a_spec a
     | Swapped newer \<Rightarrow> channel_spec a = newer \<and> trust_spec a = a_spec a
     | Trusted newer \<Rightarrow> channel_spec a = newer \<and> trust_spec a = newer)"
  using reachable_wired [OF assms]
  by (auto simp: wired_def accepted_def runs_spec_def channel_spec_def trust_spec_def split: stage.split)

theorem one_spec_in_force_witness:
  "dv_channels (a_devices (ex_app None)) = device_channels (ex_live False) \<and> dv_trust (a_devices (ex_app None)) = map_of (x_device_trust (ex_live False))"
  using one_spec_in_force [OF ex_reachable, of None] by (simp add: ex_booted(2,3))

text \<open>
  (C16) A reconcile that fails leaves the gateway as it was: when the re-fetch errors or brings a spec
  whose mutual TLS the gateway has no credentials for, it always comes back with the tasks of the
  last accepted spec running afresh, and the spec, channels, trust, lockouts, cache, setpoints, event
  memory and subscriptions are the ones it had.
\<close>

theorem failed_refetch_keeps_running:
  assumes "reachable v site creds a" and "a_stage a = Fetching"
    and "\<And>newer. fetched = Ok newer \<Longrightarrow> validate_trust_creds_alignment newer creds \<noteq> Ok ()"
  shows "\<exists>ts. spawn_task_set v (a_spec a) site creds = Ok ts \<and>
    refetched fetched v now site creds a = Ok (a\<lparr>a_stage := Waiting (start now ts)\<rparr>)"
proof -
  obtain ts where ts: "spawn_task_set v (a_spec a) site creds = Ok ts"
    using reachable_wired [OF assms(1)] by (auto simp: wired_def is_ok_iff)
  have "refetched fetched v now site creds a = respawn v now site creds (a_spec a) a"
    using assms(3) by (cases fetched) (auto simp: refetched_def split: outcome.split)
  with ts show ?thesis by (simp add: respawn_def)
qed

definition ex_beacon :: "gateway_credentials option \<Rightarrow> app" where
  "ex_beacon creds = (ex_app creds)\<lparr>a_beacons := a_beacons (ex_app creds) + 1\<rparr>"

definition ex_fetching :: "gateway_credentials option \<Rightarrow> app" where
  "ex_fetching creds = (ex_beacon creds)\<lparr>a_seen := a_beacons (ex_beacon creds), a_stage := Fetching\<rparr>"

lemma ex_fetching_reachable: "reachable ex_v ''s'' creds (ex_fetching creds)"
proof -
  have "gateway_step ex_v ''s'' creds (ex_app creds)
      (receive w now accepts parse_frame parse_sample ''s'' creds TOPIC_TOPOLOGY_CHANGED payload (ex_app creds))"
    for w now accepts parse_frame parse_sample payload
    by (rule message) (rule ex_booted)
  then have "gateway_step ex_v ''s'' creds (ex_app creds) (ex_beacon creds)"
    by (simp add: receive_def ex_beacon_def)
  with ex_reachable have "reachable ex_v ''s'' creds (ex_beacon creds)" by (rule turn)
  moreover have "gateway_step ex_v ''s'' creds (ex_beacon creds) (ex_fetching creds)"
    unfolding ex_fetching_def by (rule beacon) (simp_all add: ex_beacon_def ex_booted)
  ultimately show ?thesis by (rule turn)
qed

theorem failed_refetch_keeps_running_witness:
  "refetched (ex_fetch True) ex_v 5 ''s'' None (ex_fetching None) =
     Ok ((ex_fetching None)\<lparr>a_stage := Waiting (start 5 (ex_task_set None))\<rparr>)"
proof -
  have "validate_trust_creds_alignment (ex_live True) None \<noteq> Ok ()" by (simp add: validate_trust_Ok ex_live_def)
  moreover have "a_stage (ex_fetching None) = Fetching" "a_spec (ex_fetching None) = ex_live False"
    by (simp_all add: ex_fetching_def ex_beacon_def ex_booted)
  ultimately show ?thesis
    using failed_refetch_keeps_running [OF ex_fetching_reachable, of None "ex_fetch True" 5] by (simp add: ex_fetch_live ex_spawn)
qed



text \<open>
  (C17) No nudge is lost: while a topology beacon waits to be seen, every turn of the gateway keeps it
  waiting or is the one that starts a fetch and has seen it; while a lockout beacon waits, every turn
  keeps it waiting or re-fetches the lockouts. The counters are 64 bit wide and wrap: the beacon that
  would bring a counter back to what was last seen is left out.
\<close>

theorem no_nudge_lost:
  assumes "gateway_step v site creds a a'"
  shows "(a_beacons a \<noteq> a_seen a \<and> a_beacons a + 1 \<noteq> a_seen a \<longrightarrow>
      a_beacons a' \<noteq> a_seen a' \<or> a_stage a' = Fetching \<and> a_seen a' = a_beacons a) \<and>
    (a_loto_beacons a \<noteq> a_loto_seen a \<and> a_loto_beacons a + 1 \<noteq> a_loto_seen a \<longrightarrow>
      a_loto_beacons a' \<noteq> a_loto_seen a' \<or> a_loto_seen a' = a_loto_beacons a \<and>
      (\<exists>fetched. dv_locked (a_devices a') = refresh_locks fetched (dv_locked (a_devices a))))"
  using assms
proof (cases rule: gateway_step.cases)
  case (message w now accepts parse_frame parse_sample topic payload)
  then show ?thesis by (auto simp: receive_def split_beta)
next
  case (fetched get parse_json ty url now)
  from refetched_counters [OF fetched(2)] show ?thesis by simp
next
  case (followed newer answers now)
  from follow_counters [OF followed(2)] show ?thesis by simp
next
  case (poll ru i st e now)
  then show ?thesis by (auto simp: poll_turn_def split_beta split: outcome.split)
qed (auto simp: envelope_turn_def shed_turn_def counter_turn_def beat_turn_def site_turn_def swap_trust_def split_beta)

theorem no_nudge_lost_witness:
  "a_beacons (ex_beacon None) \<noteq> a_seen (ex_beacon None) \<and> a_stage (ex_fetching None) = Fetching \<and>
   a_seen (ex_fetching None) = a_beacons (ex_beacon None)"
proof -
  have s: "gateway_step ex_v ''s'' None (ex_beacon None) (ex_fetching None)"
    unfolding ex_fetching_def by (rule beacon) (simp_all add: ex_beacon_def ex_booted)
  have p: "a_beacons (ex_beacon None) \<noteq> a_seen (ex_beacon None)" "a_beacons (ex_beacon None) + 1 \<noteq> a_seen (ex_beacon None)"
    "a_beacons (ex_fetching None) = a_seen (ex_fetching None)"
    by (simp_all add: ex_beacon_def ex_fetching_def ex_booted)
  from no_nudge_lost [OF s] p show ?thesis by blast
qed

section \<open>The gap between the two swaps\<close>

text \<open>
  The channels and the trust of an accepted spec are swapped under two locks, one after the other.
  A command that is handled in between finds a device's new binding and no trust for it: the request
  goes out over plain TCP although the spec requires mutual TLS.
\<close>

lemma swap_gap_downgrades:
  "\<exists>a a'. reachable ex_v ''s'' (Some c) a \<and> gateway_step ex_v ''s'' (Some c) a a' \<and>
     requires_tls (channel_spec a) ''r1'' \<and>
     sent (g_south (a_gateway a')) = [RegisterWrite (TcpChannel ''10.0.0.7'' 502) 1 40100 [13] Single]"
proof -
  define a where "a = (ex_fetching (Some c))\<lparr>a_devices := (a_devices (ex_fetching (Some c)))\<lparr>dv_channels := device_channels (ex_live True)\<rparr>,
    a_stage := Swapped (ex_live True)\<rparr>"
  have f: "a_stage (ex_fetching (Some c)) = Fetching" "a_listening (ex_fetching (Some c))" "a_gateway (ex_fetching (Some c)) = ex_gateway"
    "a_devices (ex_fetching (Some c)) = \<lparr>dv_channels = ex_device_channels, dv_trust = Map.empty, dv_locked = {''r2''}\<rparr>"
    by (simp_all add: ex_fetching_def ex_beacon_def ex_booted)
  have "refetched (ex_fetch True) ex_v 5 ''s'' (Some c) (ex_fetching (Some c)) = Ok a"
    by (simp add: refetched_def ex_fetch_live validate_trust_creds_alignment_def a_def)
  from fetched [OF f(1) this] ex_fetching_reachable have "reachable ex_v ''s'' (Some c) a" by (metis turn)
  moreover have "gateway_step ex_v ''s'' (Some c) a (ex_commanded (Some c) a)"
    unfolding ex_commanded_def by (rule message) (simp add: a_def f)
  moreover have "sent (g_south (a_gateway (ex_commanded (Some c) a))) = [RegisterWrite (TcpChannel ''10.0.0.7'' 502) 1 40100 [13] Single]"
    by (rule ex_command_sent) (simp_all add: a_def f ex_live_channels)
  moreover have "requires_tls (channel_spec a) ''r1''"
    by (simp add: a_def channel_spec_def requires_tls_def ex_live_def)
  ultimately show ?thesis by blast
qed

end
